(* ===== verification/Prelude.thy ===== *)
theory Prelude
  imports Main "HOL-Library.AList" "HOL-Library.Word" "HOL-Library.Char_ord"
    "HOL-Library.List_Lexorder" "HOL-Library.Multiset"
begin

text \<open>
  What every component shares: the types that stand for Go's strings, byte slices, times and
  durations, 64-bit signed arithmetic with its wrap-around, maps kept as association lists,
  the insertion sort behind \<open>slices.SortFunc\<close> with the laws a comparison function owes it,
  and the theorem collections the component proofs use.

  A Go \<open>string\<close> and a Go \<open>[]byte\<close> are both byte sequences, and an Isabelle \<open>char\<close> is one
  byte, so both are \<open>string\<close>. A \<open>time.Duration\<close> is an int64 count of nanoseconds, an
  \<open>int\<close> here whose operations wrap as the machine's do. A \<open>time.Time\<close> is the number of
  nanoseconds since Go's zero time (an unbounded \<open>int\<close>).
\<close>

named_theorems dir_simps \<open>how the accessors of the directive maps evaluate\<close>
named_theorems hdr_simps \<open>reading a header after it was written\<close>

type_synonym bytes = string
type_synonym time = int
type_synonym duration = int

abbreviation ord :: "char \<Rightarrow> nat" where
  "ord c \<equiv> of_char c"

subsection \<open>int64 arithmetic\<close>

abbreviation max_int64 :: int where
  "max_int64 \<equiv> 9223372036854775807"

abbreviation min_int64 :: int where
  "min_int64 \<equiv> - 9223372036854775808"

definition wrap64 :: "int \<Rightarrow> int" where
  "wrap64 x = (x + 9223372036854775808) mod 18446744073709551616 - 9223372036854775808"

definition sat64 :: "int \<Rightarrow> int" where
  "sat64 x = max min_int64 (min max_int64 x)"

abbreviation in_int64 :: "int \<Rightarrow> bool" where
  "in_int64 x \<equiv> min_int64 \<le> x \<and> x \<le> max_int64"

abbreviation second :: duration where
  "second \<equiv> 1000000000"

subsection \<open>Sorting with a comparison function\<close>

text \<open>
  \<open>slices.SortFunc\<close> is an insertion sort on slices of up to twelve elements: each element
  moves left past the ones it is strictly smaller than. \<open>sift\<close> inserts one element into the
  reversed sorted prefix.
\<close>

fun sift :: "('a \<Rightarrow> 'a \<Rightarrow> int) \<Rightarrow> 'a \<Rightarrow> 'a list \<Rightarrow> 'a list" where
  "sift cmp x [] = [x]"
| "sift cmp x (y # ys) = (if cmp x y < 0 then y # sift cmp x ys else x # y # ys)"

fun sort_rev :: "('a \<Rightarrow> 'a \<Rightarrow> int) \<Rightarrow> 'a list \<Rightarrow> 'a list \<Rightarrow> 'a list" where
  "sort_rev cmp acc [] = acc"
| "sort_rev cmp acc (x # xs) = sort_rev cmp (sift cmp x acc) xs"

definition SortFunc :: "('a \<Rightarrow> 'a \<Rightarrow> int) \<Rightarrow> 'a list \<Rightarrow> 'a list" where
  "SortFunc cmp xs = rev (sort_rev cmp [] xs)"

text \<open>\<open>cmp.Compare\<close> on an ordered type, and \<open>cmp.Or\<close>: the first operand that is not zero.\<close>

definition cmp_Compare :: "'a::linorder \<Rightarrow> 'a \<Rightarrow> int" where
  "cmp_Compare a b = (if a < b then -1 else if b < a then 1 else 0)"

definition cmp_Or :: "int \<Rightarrow> int \<Rightarrow> int" where
  "cmp_Or a b = (if a \<noteq> 0 then a else b)"

subsection \<open>Lemmas on int64 arithmetic\<close>

lemma wrap64_id [simp]: "in_int64 x \<Longrightarrow> wrap64 x = x"
  by (simp add: wrap64_def)

lemma wrap64_range: "in_int64 (wrap64 x)"
proof -
  have "0 \<le> (x + 9223372036854775808) mod 18446744073709551616"
    and "(x + 9223372036854775808) mod 18446744073709551616 < 18446744073709551616"
    by simp_all
  then show ?thesis unfolding wrap64_def by linarith
qed

lemma sat64_range: "in_int64 (sat64 x)"
  by (simp add: sat64_def)

lemma sat64_id [simp]: "in_int64 x \<Longrightarrow> sat64 x = x"
  by (simp add: sat64_def)

lemma sat64_mono: "x \<le> y \<Longrightarrow> sat64 x \<le> sat64 y"
  by (simp add: sat64_def)

subsection \<open>Lemmas on association lists\<close>

lemma map_of_update [simp]: "map_of (AList.update k v al) = (map_of al)(k \<mapsto> v)"
  by (simp add: update_conv')

lemma map_of_delete [simp]: "map_of (AList.delete k al) = (map_of al)(k := None)"
  by (simp add: delete_conv')

lemma distinct_fst_update [intro]:
  "distinct (map fst al) \<Longrightarrow> distinct (map fst (AList.update k v al))"
  by (rule distinct_update)

lemma distinct_fst_delete [intro]:
  "distinct (map fst al) \<Longrightarrow> distinct (map fst (AList.delete k al))"
  by (rule distinct_delete)

lemma in_update_cases:
  "(k', v') \<in> set (AList.update k v al) \<Longrightarrow> k' = k \<and> v' = v \<or> (k', v') \<in> set al"
  by (induction al) (auto split: if_splits)

lemma map_of_eq_None_iff_set: "map_of al k = None \<longleftrightarrow> k \<notin> set (map fst al)"
  by (induction al) auto

lemma map_of_fold_update:
  "map_of (fold (\<lambda>(k, v) m. AList.update k v m) kvs m) = map_of m ++ map_of (rev kvs)"
  by (induction kvs arbitrary: m) (auto simp: map_add_def fun_eq_iff split: option.splits)

lemma distinct_fold_update:
  "distinct (map fst m) \<Longrightarrow> distinct (map fst (fold (\<lambda>(k, v) m. AList.update k v m) kvs m))"
  by (induction kvs arbitrary: m) auto

lemma map_of_fold_delete:
  "map_of (fold AList.delete ks m) k = (if k \<in> set ks then None else map_of m k)"
  by (induction ks arbitrary: m) auto

lemma distinct_fold_delete:
  "distinct (map fst m) \<Longrightarrow> distinct (map fst (fold AList.delete ks m))"
  by (induction ks arbitrary: m) auto

subsection \<open>The laws of a comparison function\<close>

text \<open>
  The contract of \<open>slices.SortFunc\<close>: the comparison is a strict weak ordering. Its clients are
  the ordering of references by \<open>Vary\<close> and the ordering of quality values.
\<close>

locale go_cmp =
  fixes cmp :: "'a \<Rightarrow> 'a \<Rightarrow> int"
  assumes cmp_antisym: "cmp x y < 0 \<longleftrightarrow> 0 < cmp y x"
    and cmp_trans: "cmp x y \<le> 0 \<Longrightarrow> cmp y z \<le> 0 \<Longrightarrow> cmp x z \<le> 0"
begin

lemma cmp_refl: "cmp x x = 0"
  using cmp_antisym [of x x] by linarith

lemma cmp_total: "cmp x y \<le> 0 \<or> cmp y x \<le> 0"
  using cmp_antisym [of x y] by linarith

lemma mset_sift: "mset (sift cmp x ys) = add_mset x (mset ys)"
  by (induction ys) auto

lemma set_sift: "set (sift cmp x ys) = insert x (set ys)"
  by (induction ys) auto

lemma sorted_sift:
  "sorted_wrt (\<lambda>a b. cmp b a \<le> 0) ys \<Longrightarrow> sorted_wrt (\<lambda>a b. cmp b a \<le> 0) (sift cmp x ys)"
proof (induction ys)
  case (Cons y ys)
  show ?case
  proof (cases "cmp x y < 0")
    case True
    with Cons show ?thesis by (auto simp: set_sift)
  next
    case False
    then have "cmp y x \<le> 0" using cmp_antisym [of x y] cmp_total [of x y] by linarith
    with Cons.prems False show ?thesis by (auto intro: cmp_trans)
  qed
qed simp

lemma mset_sort_rev: "mset (sort_rev cmp acc xs) = mset acc + mset xs"
  by (induction xs arbitrary: acc) (auto simp: mset_sift)

lemma sorted_sort_rev:
  "sorted_wrt (\<lambda>a b. cmp b a \<le> 0) acc \<Longrightarrow> sorted_wrt (\<lambda>a b. cmp b a \<le> 0) (sort_rev cmp acc xs)"
  by (induction xs arbitrary: acc) (auto simp: sorted_sift)

lemma mset_SortFunc: "mset (SortFunc cmp xs) = mset xs"
  by (simp add: SortFunc_def mset_sort_rev)

lemma set_SortFunc: "set (SortFunc cmp xs) = set xs"
  by (rule mset_eq_setD) (rule mset_SortFunc)

lemma length_SortFunc: "length (SortFunc cmp xs) = length xs"
  by (rule mset_eq_length) (rule mset_SortFunc)

lemma sorted_SortFunc: "sorted_wrt (\<lambda>a b. cmp a b \<le> 0) (SortFunc cmp xs)"
  by (simp add: SortFunc_def sorted_wrt_rev sorted_sort_rev)

lemma SortFunc_before:
  assumes "i < j" "j < length xs"
  shows "cmp (SortFunc cmp xs ! i) (SortFunc cmp xs ! j) \<le> 0"
  using sorted_wrt_nth_less [OF sorted_SortFunc assms(1)] assms(2)
  by (simp add: length_SortFunc)

lemma sort_rev_sorted:
  "sorted_wrt (\<lambda>a b. cmp a b \<le> 0) (rev acc @ xs) \<Longrightarrow> sort_rev cmp acc xs = rev xs @ acc"
proof (induction xs arbitrary: acc)
  case (Cons x xs)
  have "sift cmp x acc = x # acc"
  proof (cases acc)
    case (Cons y ys)
    with Cons.prems have "cmp y x \<le> 0" by (simp add: sorted_wrt_append)
    then have "\<not> cmp x y < 0" using cmp_antisym [of x y] by linarith
    then show ?thesis using Cons by simp
  qed simp
  with Cons.IH [of "x # acc"] Cons.prems show ?case by simp
qed simp

lemma SortFunc_sorted_id: "sorted_wrt (\<lambda>a b. cmp a b \<le> 0) xs \<Longrightarrow> SortFunc cmp xs = xs"
  using sort_rev_sorted [of "[]" xs] by (simp add: SortFunc_def)

lemma SortFunc_idem: "SortFunc cmp (SortFunc cmp xs) = SortFunc cmp xs"
  by (rule SortFunc_sorted_id) (rule sorted_SortFunc)

end

text \<open>
  A comparison that is zero on equal elements only: the sorted list depends on the elements and
  not on the order they come in.
\<close>

locale go_total_cmp = go_cmp +
  assumes cmp_zero: "cmp x y = 0 \<Longrightarrow> x = y"
begin

lemma sorted_perm_eq:
  "mset xs = mset ys \<Longrightarrow> sorted_wrt (\<lambda>a b. cmp a b \<le> 0) xs \<Longrightarrow>
   sorted_wrt (\<lambda>a b. cmp a b \<le> 0) ys \<Longrightarrow> xs = ys"
proof (induction xs arbitrary: ys)
  case (Cons x xs)
  then obtain y zs where ys: "ys = y # zs" by (cases ys) auto
  with Cons.prems have "set (x # xs) = set (y # zs)" by (metis mset_eq_setD)
  then have "y \<in> insert x (set xs)" "x \<in> insert y (set zs)" by auto
  with Cons.prems ys cmp_refl have "cmp x y \<le> 0" "cmp y x \<le> 0" by auto
  then have "x = y" using cmp_antisym [of x y] cmp_zero [of x y] by linarith
  with Cons ys show ?case by auto
qed simp

lemma SortFunc_mset: "mset xs = mset ys \<Longrightarrow> SortFunc cmp xs = SortFunc cmp ys"
  by (rule sorted_perm_eq) (simp_all add: mset_SortFunc sorted_SortFunc)

end

subsection \<open>The comparisons of package cmp\<close>

lemma cmp_Compare_sign:
  "cmp_Compare a b < 0 \<longleftrightarrow> a < b" "0 < cmp_Compare a b \<longleftrightarrow> b < a"
  "cmp_Compare a b \<le> 0 \<longleftrightarrow> a \<le> b" "cmp_Compare a b = 0 \<longleftrightarrow> a = b"
  by (auto simp: cmp_Compare_def not_less)

interpretation compare: go_total_cmp "cmp_Compare :: 'a::linorder \<Rightarrow> 'a \<Rightarrow> int"
  by unfold_locales (auto simp: cmp_Compare_sign)

text \<open>Lexicographic combination and comparison of images keep the laws.\<close>

lemma go_cmp_Or:
  assumes f: "go_cmp f" and g: "go_cmp g"
  shows "go_cmp (\<lambda>x y. cmp_Or (f x y) (g x y))"
proof
  fix x y z
  show "cmp_Or (f x y) (g x y) < 0 \<longleftrightarrow> 0 < cmp_Or (f y x) (g y x)"
    using go_cmp.cmp_antisym [OF f, of x y] go_cmp.cmp_antisym [OF f, of y x]
      go_cmp.cmp_antisym [OF g, of x y] by (auto simp: cmp_Or_def)
  assume "cmp_Or (f x y) (g x y) \<le> 0" "cmp_Or (f y z) (g y z) \<le> 0"
  then show "cmp_Or (f x z) (g x z) \<le> 0"
    using go_cmp.cmp_trans [OF f, of x y z] go_cmp.cmp_trans [OF g, of x y z]
      go_cmp.cmp_antisym [OF f, of x z] go_cmp.cmp_antisym [OF f, of y z]
      go_cmp.cmp_antisym [OF f, of z x] go_cmp.cmp_antisym [OF f, of z y]
      go_cmp.cmp_antisym [OF f, of x y] go_cmp.cmp_antisym [OF f, of y x]
      go_cmp.cmp_trans [OF f, of y z x] go_cmp.cmp_trans [OF f, of z x y]
    by (auto simp: cmp_Or_def split: if_splits)
qed

lemma go_cmp_image: "go_cmp f \<Longrightarrow> go_cmp (\<lambda>x y. f (h x) (h y))"
  by (auto simp: go_cmp_def)

lemma go_cmp_flip: "go_cmp f \<Longrightarrow> go_cmp (\<lambda>x y. f y x)"
  unfolding go_cmp_def by blast

end
