(* ===== verification/GoStd.thy ===== *)
theory GoStd
  imports Complex_Main Prelude
begin

text \<open>
  What the code uses of Go's standard library, byte for byte: trimming and cutting of
  \<open>strings\<close> and \<open>net/textproto\<close>, the number parsing of \<open>strconv\<close>, FNV-1a of
  \<open>hash/fnv\<close>, the saturating subtraction and rounding of \<open>time\<close>, header maps of
  \<open>net/http\<close> and the reference resolution of \<open>net/url\<close>.

  The record \<open>golib\<close> holds the library functions that are not written out: date and float
  parsing, URL parsing, and the Unicode case tables. They are parameters of the model, and a
  property that relies on one of them says so in a hypothesis.
\<close>

subsection \<open>Bytes\<close>

definition is_digit :: "char \<Rightarrow> bool" where
  "is_digit c \<longleftrightarrow> 48 \<le> ord c \<and> ord c \<le> 57"

definition is_upper :: "char \<Rightarrow> bool" where
  "is_upper c \<longleftrightarrow> 65 \<le> ord c \<and> ord c \<le> 90"

definition is_lower :: "char \<Rightarrow> bool" where
  "is_lower c \<longleftrightarrow> 97 \<le> ord c \<and> ord c \<le> 122"

definition is_ascii :: "char \<Rightarrow> bool" where
  "is_ascii c \<longleftrightarrow> ord c < 128"

definition to_lower :: "char \<Rightarrow> char" where
  "to_lower c = (if is_upper c then char_of (ord c + 32) else c)"

definition to_upper :: "char \<Rightarrow> char" where
  "to_upper c = (if is_lower c then char_of (ord c - 32) else c)"

subsection \<open>Package strings and net/textproto\<close>

text \<open>\<open>textproto.TrimString\<close>: space, tab, line feed, carriage return.\<close>

definition is_ascii_space :: "char \<Rightarrow> bool" where
  "is_ascii_space c \<longleftrightarrow> ord c \<in> {9, 10, 13, 32}"

definition TrimString :: "string \<Rightarrow> string" where
  "TrimString s = rev (dropWhile is_ascii_space (rev (dropWhile is_ascii_space s)))"

text \<open>\<open>strings.TrimSpace\<close>: the UTF-8 encodings of the runes with Unicode's White\_Space.\<close>

definition utf8_spaces :: "string list" where
  "utf8_spaces = map (map char_of)
     ([[9], [10], [11], [12], [13], [32], [0xC2, 0x85], [0xC2, 0xA0], [0xE1, 0x9A, 0x80],
       [0xE2, 0x80, 0x80], [0xE2, 0x80, 0x81], [0xE2, 0x80, 0x82], [0xE2, 0x80, 0x83],
       [0xE2, 0x80, 0x84], [0xE2, 0x80, 0x85], [0xE2, 0x80, 0x86], [0xE2, 0x80, 0x87],
       [0xE2, 0x80, 0x88], [0xE2, 0x80, 0x89], [0xE2, 0x80, 0x8A], [0xE2, 0x80, 0xA8],
       [0xE2, 0x80, 0xA9], [0xE2, 0x80, 0xAF], [0xE2, 0x81, 0x9F], [0xE3, 0x80, 0x80]]
      :: nat list list)"

fun has_prefix :: "string \<Rightarrow> string \<Rightarrow> bool" where
  "has_prefix [] s = True"
| "has_prefix (p # ps) [] = False"
| "has_prefix (p # ps) (c # cs) = (p = c \<and> has_prefix ps cs)"

fun seq_len :: "string list \<Rightarrow> string \<Rightarrow> nat" where
  "seq_len [] s = 0"
| "seq_len (w # ws) s = (if has_prefix w s then length w else seq_len ws s)"

function trim_seqs :: "string list \<Rightarrow> string \<Rightarrow> string" where
  "trim_seqs ws s =
     (if s = [] \<or> seq_len ws s = 0 then s else trim_seqs ws (drop (seq_len ws s) s))"
  by pat_completeness auto
termination
  by (relation "measure (\<lambda>(ws, s). length s)") auto

declare trim_seqs.simps [simp del]

definition TrimSpace :: "string \<Rightarrow> string" where
  "TrimSpace s = rev (trim_seqs (map rev utf8_spaces) (rev (trim_seqs utf8_spaces s)))"

text \<open>\<open>strings.Cut\<close> and \<open>strings.SplitSeq\<close> with a one-byte separator, \<open>strings.Join\<close>.\<close>

definition Cut :: "string \<Rightarrow> char \<Rightarrow> string \<times> string \<times> bool" where
  "Cut s sep = (takeWhile (\<lambda>c. c \<noteq> sep) s, drop 1 (dropWhile (\<lambda>c. c \<noteq> sep) s), sep \<in> set s)"

fun Split :: "string \<Rightarrow> char \<Rightarrow> string list" where
  "Split [] sep = [[]]"
| "Split (c # cs) sep =
     (if c = sep then [] # Split cs sep
      else case Split cs sep of [] \<Rightarrow> [[c]] | p # ps \<Rightarrow> (c # p) # ps)"

fun Join :: "string list \<Rightarrow> string \<Rightarrow> string" where
  "Join [] sep = []"
| "Join [p] sep = p"
| "Join (p # q # ps) sep = p @ sep @ Join (q # ps) sep"

subsection \<open>Package strconv\<close>

datatype num_error = ErrSyntax | ErrRange

text \<open>
  \<open>ParseUint(s, 10, 64)\<close> stops with \<open>ErrRange\<close> at the digit that overflows, before it looks at
  the bytes after it.
\<close>

abbreviation max_uint64 :: int where
  "max_uint64 \<equiv> 18446744073709551615"

fun parse_uint_loop :: "int \<Rightarrow> string \<Rightarrow> num_error + int" where
  "parse_uint_loop n [] = Inr n"
| "parse_uint_loop n (c # cs) =
     (if \<not> is_digit c then Inl ErrSyntax
      else let n1 = 10 * n + (int (ord c) - 48)
           in if max_uint64 < n1 then Inl ErrRange else parse_uint_loop n1 cs)"

definition ParseUint :: "string \<Rightarrow> num_error + int" where
  "ParseUint s = (if s = [] then Inl ErrSyntax else parse_uint_loop 0 s)"

text \<open>
  \<open>ParseInt(s, 10, 64)\<close> and \<open>Atoi\<close> return the nearest bound beside the error when the number
  is out of range, and 0 beside a syntax error: the pair is the value and whether it is valid.
\<close>

definition parse_magnitude :: "bool \<Rightarrow> string \<Rightarrow> int \<times> num_error option" where
  "parse_magnitude neg s =
     (case ParseUint s of
        Inl ErrSyntax \<Rightarrow> (0, Some ErrSyntax)
      | Inl ErrRange \<Rightarrow> (if neg then min_int64 else max_int64, Some ErrRange)
      | Inr un \<Rightarrow>
          if \<not> neg \<and> max_int64 + 1 \<le> un then (max_int64, Some ErrRange)
          else if neg \<and> max_int64 + 1 < un then (min_int64, Some ErrRange)
          else (if neg then - un else un, None))"

definition ParseInt :: "string \<Rightarrow> int \<times> num_error option" where
  "ParseInt s =
     (case s of
        [] \<Rightarrow> (0, Some ErrSyntax)
      | c # cs \<Rightarrow>
          if c = CHR ''+'' then parse_magnitude False cs
          else if c = CHR ''-'' then parse_magnitude True cs
          else parse_magnitude False s)"

definition Atoi :: "string \<Rightarrow> int \<times> num_error option" where
  "Atoi s = ParseInt s"

fun nat_digits :: "nat \<Rightarrow> string" where
  "nat_digits n = (if n < 10 then [char_of (48 + n)] else nat_digits (n div 10) @ [char_of (48 + n mod 10)])"

declare nat_digits.simps [simp del]

definition FormatUint :: "nat \<Rightarrow> string" where
  "FormatUint n = nat_digits n"

definition Itoa :: "int \<Rightarrow> string" where
  "Itoa i = (if i < 0 then CHR ''-'' # nat_digits (nat (- i)) else nat_digits (nat i))"

subsection \<open>Package hash/fnv: 64-bit FNV-1a\<close>

definition fnv_offset :: "64 word" where
  "fnv_offset = 14695981039346656037"

definition fnv_prime :: "64 word" where
  "fnv_prime = 1099511628211"

definition fnv_step :: "64 word \<Rightarrow> char \<Rightarrow> 64 word" where
  "fnv_step h c = xor h (of_nat (ord c)) * fnv_prime"

definition fnv_write :: "64 word \<Rightarrow> string \<Rightarrow> 64 word" where
  "fnv_write h s = foldl fnv_step h s"

subsection \<open>Package time\<close>

text \<open>
  \<open>Time.Sub\<close> saturates at the bounds of a \<open>Duration\<close>. \<open>Time.IsZero\<close> compares with the
  zero time. \<open>Duration.Round\<close> rounds half away from zero.
\<close>

definition time_sub :: "time \<Rightarrow> time \<Rightarrow> duration" where
  "time_sub t u = sat64 (t - u)"

definition dur_add :: "duration \<Rightarrow> duration \<Rightarrow> duration" where
  "dur_add a b = wrap64 (a + b)"

definition dur_sub :: "duration \<Rightarrow> duration \<Rightarrow> duration" where
  "dur_sub a b = wrap64 (a - b)"

definition dur_of_seconds :: "int \<Rightarrow> duration" where
  "dur_of_seconds s = wrap64 (s * second)"

definition go_rem :: "int \<Rightarrow> int \<Rightarrow> int" where
  "go_rem a b = sgn a * (\<bar>a\<bar> mod \<bar>b\<bar>)"

definition dur_round :: "duration \<Rightarrow> duration \<Rightarrow> duration" where
  "dur_round d m =
     (if m \<le> 0 then d
      else let r = go_rem d m in
        if d < 0 then
          (let r' = - r in
           if r' + r' < m then d + r'
           else let d1 = wrap64 (d - m + r') in if d1 < d then d1 else min_int64)
        else if r + r < m then d - r
        else let d1 = wrap64 (d + m - r) in if d < d1 then d1 else max_int64)"

subsection \<open>Package net/http: header maps\<close>

text \<open>
  A \<open>http.Header\<close> is a map from field names to lists of values, kept as an association list.
  \<open>CanonicalHeaderKey\<close> leaves a name alone when a byte of it is not a token byte; otherwise
  the first letter and the letters after a hyphen become upper case, the others lower case.
\<close>

type_synonym header = "(string \<times> string list) list"

definition token_byte :: "char \<Rightarrow> bool" where
  "token_byte c \<longleftrightarrow> is_digit c \<or> is_upper c \<or> is_lower c \<or> c \<in> set ''!#$%&*+-.^_`|~'' \<or> ord c = 39"

fun canonical_loop :: "bool \<Rightarrow> string \<Rightarrow> string" where
  "canonical_loop upper [] = []"
| "canonical_loop upper (c # cs) =
     (let c' = (if upper then to_upper c else to_lower c) in c' # canonical_loop (c' = CHR ''-'') cs)"

definition CanonicalHeaderKey :: "string \<Rightarrow> string" where
  "CanonicalHeaderKey s = (if list_all token_byte s then canonical_loop True s else s)"

definition header_values :: "header \<Rightarrow> string \<Rightarrow> string list" where
  "header_values h k = (case map_of h k of None \<Rightarrow> [] | Some vs \<Rightarrow> vs)"

definition Header_Values :: "header \<Rightarrow> string \<Rightarrow> string list" where
  "Header_Values h k = header_values h (CanonicalHeaderKey k)"

definition Header_Get :: "header \<Rightarrow> string \<Rightarrow> string" where
  "Header_Get h k = (case Header_Values h k of [] \<Rightarrow> [] | v # _ \<Rightarrow> v)"

definition Header_Set :: "header \<Rightarrow> string \<Rightarrow> string \<Rightarrow> header" where
  "Header_Set h k v = AList.update (CanonicalHeaderKey k) [v] h"

definition Header_Del :: "header \<Rightarrow> string \<Rightarrow> header" where
  "Header_Del h k = AList.delete (CanonicalHeaderKey k) h"

subsection \<open>Package net/url\<close>

text \<open>
  A \<open>url.URL\<close>. \<open>url_Path\<close> is the escaped path, what \<open>EscapedPath\<close> returns: \<open>setPath\<close> and
  \<open>EscapedPath\<close> are inverse on the escaped paths the code passes between them.
\<close>

record url =
  url_Scheme :: string
  url_Opaque :: string
  url_HasUser :: bool
  url_Host :: string
  url_Path :: string
  url_ForceQuery :: bool
  url_RawQuery :: string
  url_Fragment :: string

definition LastIndexByte :: "string \<Rightarrow> char \<Rightarrow> nat option" where
  "LastIndexByte s c =
     (if c \<in> set s then Some (length (dropWhile (\<lambda>d. d \<noteq> c) (rev s)) - 1) else None)"

text \<open>\<open>resolvePath\<close>: the dot-segment removal of RFC 3986, section 5.2.4.\<close>

fun resolve_loop :: "string \<Rightarrow> bool \<Rightarrow> string list \<Rightarrow> string" where
  "resolve_loop dst fst_elem [] = dst"
| "resolve_loop dst fst_elem (e # es) =
     (if e = ''.'' then resolve_loop dst False es
      else if e = ''..'' then
        (case LastIndexByte (drop 1 dst) CHR ''/'' of
           None \<Rightarrow> resolve_loop ''/'' True es
         | Some i \<Rightarrow> resolve_loop (''/'' @ take i (drop 1 dst)) fst_elem es)
      else resolve_loop ((if fst_elem then dst else dst @ ''/'') @ e) False es)"

definition resolve_full :: "string \<Rightarrow> string \<Rightarrow> string" where
  "resolve_full base ref =
     (if ref = [] then base
      else if hd ref \<noteq> CHR ''/'' then
        (case LastIndexByte base CHR ''/'' of None \<Rightarrow> ref | Some i \<Rightarrow> take (Suc i) base @ ref)
      else ref)"

definition resolvePath :: "string \<Rightarrow> string \<Rightarrow> string" where
  "resolvePath base ref =
     (let full = resolve_full base ref in
      if full = [] then []
      else
        let elems = Split full CHR ''/'';
            dst = resolve_loop ''/'' True elems;
            r = (if last elems = ''.'' \<or> last elems = ''..'' then dst @ ''/'' else dst)
        in if 1 < length r \<and> r ! 1 = CHR ''/'' then drop 1 r else r)"

text \<open>\<open>URL.ResolveReference\<close> for a receiver that is not nil.\<close>

definition ResolveReference :: "url \<Rightarrow> url \<Rightarrow> url" where
  "ResolveReference u ref =
     (let r = (if url_Scheme ref = [] then ref\<lparr>url_Scheme := url_Scheme u\<rparr> else ref) in
      if url_Scheme ref \<noteq> [] \<or> url_Host ref \<noteq> [] \<or> url_HasUser ref then
        r\<lparr>url_Path := resolvePath (url_Path ref) []\<rparr>
      else if url_Opaque ref \<noteq> [] then
        r\<lparr>url_HasUser := False, url_Host := [], url_Path := []\<rparr>
      else
        let r = (if url_Path ref = [] \<and> \<not> url_ForceQuery ref \<and> url_RawQuery ref = [] then
                   (if url_Fragment ref = []
                    then r\<lparr>url_RawQuery := url_RawQuery u, url_Fragment := url_Fragment u\<rparr>
                    else r\<lparr>url_RawQuery := url_RawQuery u\<rparr>)
                 else r)
        in if url_Path ref = [] \<and> url_Opaque u \<noteq> [] then
             r\<lparr>url_Opaque := url_Opaque u, url_HasUser := False, url_Host := [], url_Path := []\<rparr>
           else
             r\<lparr>url_Host := url_Host u, url_HasUser := url_HasUser u,
               url_Path := resolvePath (url_Path u) (url_Path ref)\<rparr>)"

subsection \<open>Library functions that are parameters of the model\<close>

text \<open>The values of a \<open>float64\<close>: a finite value is the rational number it stands for.\<close>

datatype float64 = FNaN | FNegInf | FPosInf | FFin rat

text \<open>
  \<open>lib_ParseTime\<close> is \<open>http.ParseTime\<close>, \<open>lib_ParseRFC1123\<close> is \<open>time.Parse(time.RFC1123, _)\<close>,
  \<open>lib_FormatTime\<close> is \<open>t.UTC().Format(http.TimeFormat)\<close>, \<open>lib_Getenv\<close> is \<open>os.Getenv\<close>,
  \<open>lib_ParseFloat\<close> is \<open>strconv.ParseFloat(_, 64)\<close>, \<open>lib_url_Parse\<close> is \<open>url.Parse\<close>.
  \<open>lib_ToLower\<close> and \<open>lib_EqualFold\<close> are consulted for strings with bytes outside ASCII only.
\<close>

record golib =
  lib_ParseTime :: "string \<Rightarrow> time option"
  lib_ParseRFC1123 :: "string \<Rightarrow> time option"
  lib_FormatTime :: "time \<Rightarrow> string"
  lib_Getenv :: "string \<Rightarrow> string"
  lib_ParseFloat :: "string \<Rightarrow> float64 option"
  lib_url_Parse :: "string \<Rightarrow> url option"
  lib_ToLower :: "string \<Rightarrow> string"
  lib_EqualFold :: "string \<Rightarrow> string \<Rightarrow> bool"

definition ToLower :: "golib \<Rightarrow> string \<Rightarrow> string" where
  "ToLower lib s = (if list_all is_ascii s then map to_lower s else lib_ToLower lib s)"

definition EqualFold :: "golib \<Rightarrow> string \<Rightarrow> string \<Rightarrow> bool" where
  "EqualFold lib s t =
     (if list_all is_ascii s \<and> list_all is_ascii t then map to_lower s = map to_lower t
      else lib_EqualFold lib s t)"

subsection \<open>Lemmas on strings\<close>

lemma dropWhile_idem [simp]: "dropWhile P (dropWhile P xs) = dropWhile P xs"
  by (induction xs) auto

lemma rev_dropWhile_keeps_front:
  "dropWhile P xs = xs \<Longrightarrow> dropWhile P (rev (dropWhile P (rev xs))) = rev (dropWhile P (rev xs))"
proof (cases "rev (dropWhile P (rev xs))")
  case Nil
  then show ?thesis by (simp only: dropWhile.simps)
next
  case (Cons y ys)
  assume front: "dropWhile P xs = xs"
  have "xs = rev (dropWhile P (rev xs)) @ rev (takeWhile P (rev xs))"
    by (metis rev_append rev_rev_ident takeWhile_dropWhile_id)
  with Cons have "xs = y # (ys @ rev (takeWhile P (rev xs)))" by simp
  with front have "\<not> P y" by (metis dropWhile_eq_Cons_conv list.inject)
  with Cons show ?thesis by simp
qed

lemma dropWhile_none: "\<forall>x \<in> set xs. \<not> P x \<Longrightarrow> dropWhile P xs = xs"
  by (cases xs) auto

lemma TrimString_front: "dropWhile is_ascii_space (TrimString s) = TrimString s"
  unfolding TrimString_def by (rule rev_dropWhile_keeps_front) simp

lemma TrimString_back: "dropWhile is_ascii_space (rev (TrimString s)) = rev (TrimString s)"
  by (simp add: TrimString_def)

lemma TrimString_idem [simp]: "TrimString (TrimString s) = TrimString s"
  by (subst TrimString_def) (simp add: TrimString_front TrimString_back)

lemma set_TrimString: "set (TrimString s) \<subseteq> set s"
  unfolding TrimString_def by (auto dest!: set_dropWhileD)

lemma TrimString_no_space: "\<forall>c \<in> set s. \<not> is_ascii_space c \<Longrightarrow> TrimString s = s"
  by (simp add: TrimString_def dropWhile_none)

lemma TrimString_Nil [simp]: "TrimString [] = []"
  by (simp add: TrimString_def)

lemma Split_nonempty [simp]: "Split s c \<noteq> []"
  by (cases s) (auto split: list.splits)

lemma Join_Split: "Join (Split s c) [c] = s"
proof (induction s)
  case (Cons d s)
  show ?case
  proof (cases "Split s c")
    case Nil
    then show ?thesis by simp
  next
    case (Cons p ps)
    with Cons.IH show ?thesis by (cases ps) auto
  qed
qed simp

lemma Split_no_sep: "c \<notin> set s \<Longrightarrow> Split s c = [s]"
  by (induction s) auto

lemma Split_append_sep: "c \<notin> set p \<Longrightarrow> Split (p @ c # s) c = p # Split s c"
  by (induction p) auto

lemma Split_parts_no_sep: "p \<in> set (Split s c) \<Longrightarrow> c \<notin> set p"
proof (induction s arbitrary: p)
  case (Cons d s)
  then show ?case by (cases "Split s c") (auto split: if_splits)
qed simp

lemma Split_Join: "ps \<noteq> [] \<Longrightarrow> \<forall>p \<in> set ps. c \<notin> set p \<Longrightarrow> Split (Join ps [c]) c = ps"
proof (induction ps rule: induct_list012)
  case (3 p q ps)
  then show ?case by (simp add: Split_append_sep)
qed (simp_all add: Split_no_sep)

lemma nat_digits_range: "c \<in> set (nat_digits n) \<Longrightarrow> is_digit c"
proof (induction n rule: nat_digits.induct)
  case (1 n)
  show ?case
  proof (cases "n < 10")
    case True
    with 1 show ?thesis by (simp add: nat_digits.simps [of n] is_digit_def)
  next
    case False
    have "n mod 10 < 10" by simp
    then have "is_digit (char_of (48 + n mod 10))" by (simp add: is_digit_def)
    with 1 False show ?thesis by (auto simp: nat_digits.simps [of n])
  qed
qed

lemma nat_digits_nonempty [simp]: "nat_digits n \<noteq> []"
  by (subst nat_digits.simps) simp

lemma no_hash_nat_digits: "CHR ''#'' \<notin> set (nat_digits n)"
  using nat_digits_range [of "CHR ''#''" n] by (auto simp: is_digit_def)

subsection \<open>Lemmas on header maps\<close>

lemma canonical_loop_idem: "canonical_loop u (canonical_loop u s) = canonical_loop u s"
proof (induction s arbitrary: u)
  case (Cons c s)
  have up: "to_upper (to_upper c) = to_upper c"
    by (auto simp: to_upper_def is_lower_def)
  have low: "to_lower (to_lower c) = to_lower c"
    by (auto simp: to_lower_def is_upper_def)
  show ?case by (simp add: Let_def Cons.IH up low)
qed simp

lemma token_byte_to_upper: "token_byte c \<Longrightarrow> token_byte (to_upper c)"
  by (auto simp: to_upper_def token_byte_def is_lower_def is_upper_def)

lemma token_byte_to_lower: "token_byte c \<Longrightarrow> token_byte (to_lower c)"
  by (auto simp: to_lower_def token_byte_def is_lower_def is_upper_def)

lemma token_bytes_canonical_loop:
  "list_all token_byte s \<Longrightarrow> list_all token_byte (canonical_loop u s)"
  by (induction s arbitrary: u) (auto simp: Let_def token_byte_to_upper token_byte_to_lower)

lemma CanonicalHeaderKey_idem [simp]:
  "CanonicalHeaderKey (CanonicalHeaderKey s) = CanonicalHeaderKey s"
  by (simp add: CanonicalHeaderKey_def canonical_loop_idem token_bytes_canonical_loop)

lemma Header_Get_Set [hdr_simps]:
  "Header_Get (Header_Set h k v) k' =
     (if CanonicalHeaderKey k = CanonicalHeaderKey k' then v else Header_Get h k')"
  by (simp add: Header_Get_def Header_Values_def header_values_def Header_Set_def)

lemma Header_Get_Del [hdr_simps]:
  "Header_Get (Header_Del h k) k' =
     (if CanonicalHeaderKey k = CanonicalHeaderKey k' then [] else Header_Get h k')"
  by (simp add: Header_Get_def Header_Values_def header_values_def Header_Del_def)

lemma map_of_Header_Set [hdr_simps]:
  "map_of (Header_Set h k v) = (map_of h)(CanonicalHeaderKey k \<mapsto> [v])"
  by (simp add: Header_Set_def)

lemma map_of_Header_Del [hdr_simps]:
  "map_of (Header_Del h k) = (map_of h)(CanonicalHeaderKey k := None)"
  by (simp add: Header_Del_def)

lemma Header_Get_cong: "map_of h = map_of h' \<Longrightarrow> Header_Get h k = Header_Get h' k"
  by (simp add: Header_Get_def Header_Values_def header_values_def)

lemma Header_Get_at:
  "map_of h (CanonicalHeaderKey k) = map_of h' (CanonicalHeaderKey k) \<Longrightarrow>
   Header_Get h k = Header_Get h' k"
  by (simp add: Header_Get_def Header_Values_def header_values_def)

end
