(* ===== verification/Conn.thy ===== *)
theory Conn
  imports GoStd
begin

text \<open>
  \<open>store/driver\<close>: the interface of a cache backend, the contract its comments state, as a locale,
  and the acceptance suite of \<open>store/acceptance\<close>, which is proved once for every backend that
  keeps the contract. \<open>store/memcache\<close> is the first provider.

  A backend is a record of operations on a state of its own. An operation returns its result and
  the new state; the error \<open>ErrNotExist\<close> stands for every error that satisfies
  \<open>errors.Is(err, driver.ErrNotExist)\<close>.
\<close>

datatype cache_error =
    ErrNotExist
  | ErrDeadlineExceeded
  | ErrBackend string
  | CacheError string string

record 's conn =
  conn_Get :: "'s \<Rightarrow> string \<Rightarrow> (cache_error + bytes) \<times> 's"
  conn_Set :: "'s \<Rightarrow> string \<Rightarrow> bytes \<Rightarrow> cache_error option \<times> 's"
  conn_Delete :: "'s \<Rightarrow> string \<Rightarrow> cache_error option \<times> 's"

subsection \<open>The acceptance suite\<close>

text \<open>
  Each test is the check it makes on a fresh backend: a failing \<open>Require\<close> or \<open>Assert\<close> is
  \<open>False\<close>. The fresh backend is the state the factory returns.
\<close>

definition testSetAndGet :: "'s conn \<Rightarrow> 's \<Rightarrow> bool" where
  "testSetAndGet cache s =
     (let (err, s) = conn_Set cache s ''foo'' ''bar'' in
      if err \<noteq> None then False
      else case conn_Get cache s ''foo'' of (Inl _, _) \<Rightarrow> False | (Inr got, _) \<Rightarrow> got = ''bar'')"

definition testOverwrite :: "'s conn \<Rightarrow> 's \<Rightarrow> bool" where
  "testOverwrite cache s =
     (let (err1, s) = conn_Set cache s ''foo'' ''bar'' in
      if err1 \<noteq> None then False
      else let (err2, s) = conn_Set cache s ''foo'' ''baz'' in
        if err2 \<noteq> None then False
        else case conn_Get cache s ''foo'' of (Inl _, _) \<Rightarrow> False | (Inr got, _) \<Rightarrow> got = ''baz'')"

definition testDelete :: "'s conn \<Rightarrow> 's \<Rightarrow> bool" where
  "testDelete cache s =
     (let (err1, s) = conn_Set cache s ''foo'' ''bar'' in
      if err1 \<noteq> None then False
      else let (err2, s) = conn_Delete cache s ''foo'' in
        if err2 \<noteq> None then False
        else fst (conn_Get cache s ''foo'') = Inl ErrNotExist)"

definition testGetNonexistent :: "'s conn \<Rightarrow> 's \<Rightarrow> bool" where
  "testGetNonexistent cache s = (fst (conn_Get cache s ''doesnotexist'') = Inl ErrNotExist)"

definition testDeleteNonexistent :: "'s conn \<Rightarrow> 's \<Rightarrow> bool" where
  "testDeleteNonexistent cache s = (fst (conn_Delete cache s ''doesnotexist'') = Some ErrNotExist)"

text \<open>A backend lists its keys or not: \<open>kl\<close> is the outcome of the type assertion to \<open>KeyLister\<close>.\<close>

type_synonym 's lister = "'s \<Rightarrow> string \<Rightarrow> (cache_error + string list) \<times> 's"

fun set_values :: "'s conn \<Rightarrow> 's \<Rightarrow> string list \<Rightarrow> 's option" where
  "set_values cache s [] = Some s"
| "set_values cache s (key # keys) =
     (let (err, s) = conn_Set cache s key (''value for '' @ key) in
      if err \<noteq> None then None else set_values cache s keys)"

definition acceptance_keys :: "string list" where
  "acceptance_keys = [''foo'', ''bar'', ''baz'' @ replicate 255 (CHR ''x'')]"

definition testKeys :: "'s conn \<Rightarrow> 's lister option \<Rightarrow> 's \<Rightarrow> bool" where
  "testKeys cache kl s =
     (case kl of
        None \<Rightarrow> True
      | Some Keys \<Rightarrow>
          (case set_values cache s acceptance_keys of
             None \<Rightarrow> False
           | Some s \<Rightarrow>
               (case Keys s [] of
                  (Inl _, _) \<Rightarrow> False
                | (Inr gotKeys, _) \<Rightarrow> sort gotKeys = sort acceptance_keys)))"

definition acceptance_Run :: "'s conn \<Rightarrow> 's lister option \<Rightarrow> 's \<Rightarrow> bool" where
  "acceptance_Run cache kl s \<longleftrightarrow>
     testSetAndGet cache s \<and> testOverwrite cache s \<and> testDelete cache s \<and>
     testGetNonexistent cache s \<and> testDeleteNonexistent cache s \<and> testKeys cache kl s"

subsection \<open>Backend: memcache\<close>

record memCache =
  mem_store :: "string \<rightharpoonup> bytes"

definition memcache_Open :: memCache where
  "memcache_Open = \<lparr>mem_store = Map.empty\<rparr>"

definition mem_Get :: "memCache \<Rightarrow> string \<Rightarrow> (cache_error + bytes) \<times> memCache" where
  "mem_Get c key =
     (case mem_store c key of None \<Rightarrow> (Inl ErrNotExist, c) | Some val \<Rightarrow> (Inr val, c))"

definition mem_Set :: "memCache \<Rightarrow> string \<Rightarrow> bytes \<Rightarrow> cache_error option \<times> memCache" where
  "mem_Set c key value = (None, c\<lparr>mem_store := (mem_store c)(key \<mapsto> value)\<rparr>)"

definition mem_Delete :: "memCache \<Rightarrow> string \<Rightarrow> cache_error option \<times> memCache" where
  "mem_Delete c key =
     (case mem_store c key of
        None \<Rightarrow> (Some ErrNotExist, c)
      | Some _ \<Rightarrow> (None, c\<lparr>mem_store := (mem_store c)(key := None)\<rparr>))"

definition memcache :: "memCache conn" where
  "memcache = \<lparr>conn_Get = mem_Get, conn_Set = mem_Set, conn_Delete = mem_Delete\<rparr>"

subsection \<open>The contract of a backend\<close>

text \<open>
  \<open>contents\<close> is the map from keys to values a backend state stands for, \<open>invar\<close> what it keeps of
  its own representation, \<open>good\<close> the keys it serves. Reading changes nothing a client can see.
\<close>

locale driver_conn =
  fixes cache :: "'s conn"
    and contents :: "'s \<Rightarrow> string \<rightharpoonup> bytes"
    and invar :: "'s \<Rightarrow> bool"
    and good :: "string \<Rightarrow> bool"
  assumes get_result: "invar s \<Longrightarrow> good k \<Longrightarrow>
      fst (conn_Get cache s k) = (case contents s k of None \<Rightarrow> Inl ErrNotExist | Some v \<Rightarrow> Inr v)"
    and get_contents: "invar s \<Longrightarrow> good k \<Longrightarrow> contents (snd (conn_Get cache s k)) = contents s"
    and get_invar: "invar s \<Longrightarrow> good k \<Longrightarrow> invar (snd (conn_Get cache s k))"
    and set_result: "invar s \<Longrightarrow> good k \<Longrightarrow> fst (conn_Set cache s k v) = None"
    and set_contents: "invar s \<Longrightarrow> good k \<Longrightarrow>
      contents (snd (conn_Set cache s k v)) = (contents s)(k \<mapsto> v)"
    and set_invar: "invar s \<Longrightarrow> good k \<Longrightarrow> invar (snd (conn_Set cache s k v))"
    and delete_result: "invar s \<Longrightarrow> good k \<Longrightarrow>
      fst (conn_Delete cache s k) = (if contents s k = None then Some ErrNotExist else None)"
    and delete_contents: "invar s \<Longrightarrow> good k \<Longrightarrow>
      contents (snd (conn_Delete cache s k)) = (contents s)(k := None)"
    and delete_invar: "invar s \<Longrightarrow> good k \<Longrightarrow> invar (snd (conn_Delete cache s k))"
begin

lemmas conn_specs = get_result get_contents get_invar set_result set_contents set_invar
  delete_result delete_contents delete_invar

lemma get_after_set: "invar s \<Longrightarrow> good k \<Longrightarrow> fst (conn_Get cache (snd (conn_Set cache s k v)) k) = Inr v"
  by (simp add: conn_specs)

lemma get_after_delete:
  "invar s \<Longrightarrow> good k \<Longrightarrow> fst (conn_Get cache (snd (conn_Delete cache s k)) k) = Inl ErrNotExist"
  by (simp add: conn_specs)

lemma passes_acceptance:
  assumes s: "invar s" "contents s = Map.empty" and good: "good ''foo''" "good ''doesnotexist''"
    and keys: "testKeys cache kl s"
  shows "acceptance_Run cache kl s"
  by (simp add: acceptance_Run_def testSetAndGet_def testOverwrite_def testDelete_def
      testGetNonexistent_def testDeleteNonexistent_def Let_def case_prod_beta conn_specs s good keys)

lemma set_values_result:
  "invar s \<Longrightarrow> \<forall>k \<in> set ks. good k \<Longrightarrow>
   \<exists>s'. set_values cache s ks = Some s' \<and> invar s' \<and> dom (contents s') = dom (contents s) \<union> set ks"
proof (induction ks arbitrary: s)
  case (Cons k ks)
  let ?s = "snd (conn_Set cache s k (''value for '' @ k))"
  have s: "fst (conn_Set cache s k (''value for '' @ k)) = None" "invar ?s" "dom (contents ?s) = insert k (dom (contents s))"
    using Cons.prems by (simp_all add: conn_specs)
  from Cons.IH [OF s(2)] Cons.prems(2) obtain s' where
    "set_values cache ?s ks = Some s'" "invar s'" "dom (contents s') = dom (contents ?s) \<union> set ks" by auto
  with s show ?case by (simp add: case_prod_beta Let_def)
qed simp

end

text \<open>A backend that lists its keys: exactly those with contents, each once.\<close>

locale key_lister = driver_conn cache contents invar good
  for cache :: "'s conn" and contents :: "'s \<Rightarrow> string \<rightharpoonup> bytes" and invar :: "'s \<Rightarrow> bool" and good :: "string \<Rightarrow> bool" +
  fixes keys :: "'s lister"
  assumes keys_result: "invar s \<Longrightarrow>
      \<exists>ks. fst (keys s prefix) = Inr ks \<and> distinct ks \<and> set ks = {k. contents s k \<noteq> None \<and> has_prefix prefix k}"
    and keys_contents: "invar s \<Longrightarrow> contents (snd (keys s prefix)) = contents s"
    and keys_invar: "invar s \<Longrightarrow> invar (snd (keys s prefix))"
begin

lemma passes_keys:
  assumes "invar s" "contents s = Map.empty" "\<forall>k \<in> set acceptance_keys. good k"
  shows "testKeys cache (Some keys) s"
proof -
  obtain s' where s': "set_values cache s acceptance_keys = Some s'" "invar s'"
    "dom (contents s') = set acceptance_keys"
    using set_values_result [OF assms(1,3)] assms(2) by auto
  from keys_result [OF s'(2), of "[]"] obtain ks where ks: "fst (keys s' []) = Inr ks" "distinct ks"
    "set ks = set acceptance_keys" using s'(3) by (auto simp: dom_def)
  have "distinct acceptance_keys" by (simp add: acceptance_keys_def)
  then have "sort ks = sort acceptance_keys" using ks by (intro sorted_distinct_set_unique) simp_all
  with s' ks show ?thesis by (simp add: testKeys_def case_prod_beta split: prod.split)
qed

end

lemmas mem_defs = mem_Get_def mem_Set_def mem_Delete_def memcache_def memcache_Open_def

interpretation mem: driver_conn memcache mem_store "\<lambda>_. True" "\<lambda>_. True"
  by unfold_locales (auto simp: mem_defs fun_upd_idem_iff split: option.splits)

end
