(* ===== verification/HeaderSyntax.thy ===== *)
theory HeaderSyntax
  imports GoStd
begin

text \<open>
  The lexical layer of header values: the comma-separated lists of \<open>internal/helpers.go\<close>
  (\<open>TrimmedCSV\<close>, which does not split inside quoted strings) and the quoted strings of
  \<open>internal/quotedstring.go\<close>.
\<close>

subsection \<open>TrimmedCSV\<close>

definition backslash :: char where
  "backslash = CHR 0x5C"

definition dquote :: char where
  "dquote = CHR 0x22"

definition csv_emit :: "string \<Rightarrow> string list \<Rightarrow> string list" where
  "csv_emit part rest = (let p = TrimString part in if p \<noteq> [] then p # rest else rest)"

text \<open>The loop over the bytes, with the part read so far and the two flags.\<close>

fun csv_loop :: "string \<Rightarrow> bool \<Rightarrow> bool \<Rightarrow> string \<Rightarrow> string list" where
  "csv_loop part inQuotes escape [] = (if part \<noteq> [] then csv_emit part [] else [])"
| "csv_loop part inQuotes escape (c # cs) =
     (if escape then csv_loop (part @ [c]) inQuotes False cs
      else if c = backslash then csv_loop (part @ [c]) inQuotes True cs
      else if c = dquote then csv_loop (part @ [c]) (\<not> inQuotes) False cs
      else if c = CHR '','' \<and> \<not> inQuotes then csv_emit part (csv_loop [] inQuotes False cs)
      else csv_loop (part @ [c]) inQuotes False cs)"

definition TrimmedCSV :: "string \<Rightarrow> string list" where
  "TrimmedCSV s = csv_loop [] False False s"

definition TrimmedCSVCanonical :: "string \<Rightarrow> string list" where
  "TrimmedCSVCanonical s = map CanonicalHeaderKey (TrimmedCSV s)"

definition hasToken :: "('k \<times> 'v) list \<Rightarrow> 'k \<Rightarrow> bool" where
  "hasToken m token = (case map_of m token of None \<Rightarrow> False | Some _ \<Rightarrow> True)"

subsection \<open>Quoted strings\<close>

datatype quoted_error = ErrInvalidQuotedString | ErrUnfinishedEscape | ErrInvalidCharacter char nat

definition validQDTextByte :: "char \<Rightarrow> bool" where
  "validQDTextByte b \<longleftrightarrow>
     (ord b = 9 \<or> ord b = 32) \<or> ord b = 0x21 \<or> (0x23 \<le> ord b \<and> ord b \<le> 0x5B) \<or>
     (0x5D \<le> ord b \<and> ord b \<le> 0x7E) \<or> 0x80 \<le> ord b"

fun unquote_loop :: "nat \<Rightarrow> string \<Rightarrow> string \<Rightarrow> quoted_error + string" where
  "unquote_loop i b [] = Inr b"
| "unquote_loop i b (c # cs) =
     (if c = backslash then
        (case cs of [] \<Rightarrow> Inl ErrUnfinishedEscape | d # ds \<Rightarrow> unquote_loop (i + 2) (b @ [d]) ds)
      else if validQDTextByte c then unquote_loop (i + 1) (b @ [c]) cs
      else Inl (ErrInvalidCharacter c (i + 1)))"

definition ParseQuotedStringE :: "string \<Rightarrow> quoted_error + string" where
  "ParseQuotedStringE s =
     (if length s < 2 \<or> hd s \<noteq> dquote \<or> last s \<noteq> dquote then Inl ErrInvalidQuotedString
      else unquote_loop 0 [] (butlast (tl s)))"

definition ParseQuotedString :: "string \<Rightarrow> string" where
  "ParseQuotedString s = (case ParseQuotedStringE s of Inl _ \<Rightarrow> s | Inr r \<Rightarrow> r)"

subsection \<open>What the two scanners promise\<close>

text \<open>
  \<open>csv_split\<close> is the reference splitting of a list without quoting: split at every comma, trim,
  drop the empty parts. \<open>csv_state\<close> is the scanner's state after a text, \<open>None\<close> once it has
  passed a comma outside quotes. \<open>quote_string\<close> writes a quoted string that escapes every
  byte that is not allowed as it is.
\<close>

definition csv_split :: "string \<Rightarrow> string list" where
  "csv_split s = filter (\<lambda>p. p \<noteq> []) (map TrimString (Split s CHR '',''))"

fun csv_state :: "bool \<Rightarrow> bool \<Rightarrow> string \<Rightarrow> (bool \<times> bool) option" where
  "csv_state inQuotes escape [] = Some (inQuotes, escape)"
| "csv_state inQuotes escape (c # cs) =
     (if escape then csv_state inQuotes False cs
      else if c = backslash then csv_state inQuotes True cs
      else if c = dquote then csv_state (\<not> inQuotes) False cs
      else if c = CHR '','' \<and> \<not> inQuotes then None
      else csv_state inQuotes False cs)"

definition csv_part :: "string \<Rightarrow> bool" where
  "csv_part p \<longleftrightarrow> p \<noteq> [] \<and> TrimString p = p \<and> csv_state False False p = Some (False, False)"

definition quote_byte :: "char \<Rightarrow> string" where
  "quote_byte c = (if validQDTextByte c then [c] else [backslash, c])"

definition quote_string :: "string \<Rightarrow> string" where
  "quote_string s = dquote # concat (map quote_byte s) @ [dquote]"

subsection \<open>Lemmas on TrimmedCSV\<close>

lemma csv_emit_parts:
  "p \<in> set (csv_emit part rest) \<Longrightarrow> p \<noteq> [] \<and> TrimString p = p \<or> p \<in> set rest"
  by (auto simp: csv_emit_def Let_def split: if_splits)

lemma csv_loop_parts: "p \<in> set (csv_loop part q e s) \<Longrightarrow> p \<noteq> [] \<and> TrimString p = p"
  by (induction part q e s rule: csv_loop.induct) (auto split: if_splits dest: csv_emit_parts)

lemma csv_loop_plain:
  assumes "backslash \<notin> set s" "dquote \<notin> set s"
  shows "csv_loop part False False s =
    (case Split s CHR '','' of [] \<Rightarrow> [] | p # ps \<Rightarrow>
       filter (\<lambda>p. p \<noteq> []) (map TrimString ((part @ p) # ps)))"
  using assms
proof (induction s arbitrary: part)
  case (Cons c s)
  obtain p ps where split: "Split s CHR '','' = p # ps"
    by (cases "Split s CHR '',''") simp_all
  show ?case using Cons by (auto simp: split csv_emit_def Let_def)
qed (simp add: csv_emit_def Let_def)

lemma TrimmedCSV_plain:
  "backslash \<notin> set s \<Longrightarrow> dquote \<notin> set s \<Longrightarrow> TrimmedCSV s = csv_split s"
  by (simp add: TrimmedCSV_def csv_loop_plain csv_split_def split: list.splits)

lemma csv_loop_state:
  "csv_state q e p = Some (q', e') \<Longrightarrow> csv_loop part q e (p @ s) = csv_loop (part @ p) q' e' s"
  by (induction q e p arbitrary: part rule: csv_state.induct) (auto split: if_splits)

lemma csv_loop_part:
  assumes "csv_part p"
  shows "csv_loop [] False False p = [p]"
    and "csv_loop [] False False (p @ CHR '','' # s) = p # csv_loop [] False False s"
  using assms csv_loop_state [of False False p False False "[]" "[]"]
    csv_loop_state [of False False p False False "[]" "CHR '','' # s"]
  by (auto simp: csv_part_def csv_emit_def backslash_def dquote_def)

lemma TrimmedCSV_Join: "\<forall>p \<in> set ps. csv_part p \<Longrightarrow> TrimmedCSV (Join ps '','') = ps"
  unfolding TrimmedCSV_def
  by (induction ps rule: induct_list012) (auto simp: csv_loop_part)

lemma csv_state_plain:
  "backslash \<notin> set p \<Longrightarrow> dquote \<notin> set p \<Longrightarrow> CHR '','' \<notin> set p \<Longrightarrow>
   csv_state False False p = Some (False, False)"
  by (induction p) auto

lemma csv_part_plain:
  "p \<noteq> [] \<Longrightarrow> TrimString p = p \<Longrightarrow> backslash \<notin> set p \<Longrightarrow> dquote \<notin> set p \<Longrightarrow> CHR '','' \<notin> set p \<Longrightarrow>
   csv_part p"
  by (simp add: csv_part_def csv_state_plain)

subsection \<open>Lemmas on quoted strings\<close>

lemma unquote_loop_quote: "unquote_loop i b (concat (map quote_byte s)) = Inr (b @ s)"
proof (induction s arbitrary: i b)
  case (Cons c s)
  have "validQDTextByte c \<Longrightarrow> c \<noteq> backslash"
    by (auto simp: validQDTextByte_def backslash_def)
  with Cons show ?case by (simp add: quote_byte_def)
qed simp

lemma ParseQuotedStringE_quote: "ParseQuotedStringE (quote_string s) = Inr s"
  by (simp add: ParseQuotedStringE_def quote_string_def butlast_append unquote_loop_quote)

lemma unquote_loop_length: "unquote_loop i b s = Inr r \<Longrightarrow> length r \<le> length b + length s"
  by (induction i b s rule: unquote_loop.induct) (auto split: if_splits list.splits)

subsection \<open>Properties\<close>

text \<open>
  Any byte string, written as a quoted string with every byte escaped that may not stand by
  itself, is read back unchanged.
\<close>

theorem quoted_string_roundtrip:
  "ParseQuotedStringE (quote_string s) = Inr s \<and> ParseQuotedString (quote_string s) = s"
  by (simp add: ParseQuotedStringE_quote ParseQuotedString_def)

end
