(* ===== verification/CCDirectives.thy ===== *)
theory CCDirectives
  imports HeaderSyntax
begin

text \<open>
  \<open>internal/ccdirectives.go\<close>: the raw value types, the parser of a \<open>Cache-Control\<close> value into a
  map from directive names to arguments, and the accessors of the request and response
  directives. A nil map reads like an empty one, so both are \<open>[]\<close>. An accessor that returns
  a value and a validity flag is an \<open>option\<close>.
\<close>

type_synonym directive_map = "(string \<times> string) list"

definition RawTime_Value :: "golib \<Rightarrow> string \<Rightarrow> time option" where
  "RawTime_Value lib r = (if r = [] then None else lib_ParseTime lib r)"

definition RawDeltaSeconds_Value :: "string \<Rightarrow> duration option" where
  "RawDeltaSeconds_Value r =
     (if length r = 0 \<or> hd r = CHR ''-'' then None
      else case ParseInt r of
             (seconds, Some _) \<Rightarrow> None
           | (seconds, None) \<Rightarrow> Some (dur_of_seconds seconds))"

definition RawCSV_Value :: "string \<Rightarrow> string list option" where
  "RawCSV_Value s = (if length s = 0 then None else Some (TrimmedCSV s))"

definition directive :: "string \<Rightarrow> (string \<times> string) option" where
  "directive part =
     (let (key, value, found) = Cut part CHR ''='';
          (key, value) = (if \<not> found then (TrimString part, []) else (key, TrimString value))
      in if length key = 0 then None else Some (key, value))"

definition directives :: "string \<Rightarrow> (string \<times> string) list" where
  "directives s = List.map_filter directive (TrimmedCSV s)"

definition parseDirectives :: "string \<Rightarrow> directive_map" where
  "parseDirectives s = fold (\<lambda>(k, v) m. AList.update k v m) (directives s) []"

definition getDurationDirective :: "directive_map \<Rightarrow> string \<Rightarrow> duration option" where
  "getDurationDirective d token =
     (case map_of d token of Some v \<Rightarrow> RawDeltaSeconds_Value v | None \<Rightarrow> None)"

subsection \<open>Request directives\<close>

definition ParseCCRequestDirectives :: "header \<Rightarrow> directive_map" where
  "ParseCCRequestDirectives h =
     (let value = Header_Get h ''Cache-Control'' in
      if value = [] then [] else parseDirectives value)"

definition Req_MaxAge :: "directive_map \<Rightarrow> duration option" where
  "Req_MaxAge d = getDurationDirective d ''max-age''"

definition Req_MaxStale :: "directive_map \<Rightarrow> string option" where
  "Req_MaxStale d = map_of d ''max-stale''"

definition Req_MinFresh :: "directive_map \<Rightarrow> duration option" where
  "Req_MinFresh d = getDurationDirective d ''min-fresh''"

definition Req_NoCache :: "directive_map \<Rightarrow> bool" where
  "Req_NoCache d = hasToken d ''no-cache''"

definition Req_NoStore :: "directive_map \<Rightarrow> bool" where
  "Req_NoStore d = hasToken d ''no-store''"

definition Req_OnlyIfCached :: "directive_map \<Rightarrow> bool" where
  "Req_OnlyIfCached d = hasToken d ''only-if-cached''"

definition Req_StaleIfError :: "directive_map \<Rightarrow> duration option" where
  "Req_StaleIfError d = getDurationDirective d ''stale-if-error''"

subsection \<open>Response directives\<close>

definition ParseCCResponseDirectives :: "header \<Rightarrow> directive_map" where
  "ParseCCResponseDirectives h =
     (let value = Header_Get h ''Cache-Control'' in
      if value = [] then [] else parseDirectives value)"

definition Resp_MaxAge :: "directive_map \<Rightarrow> duration option" where
  "Resp_MaxAge d = getDurationDirective d ''max-age''"

definition Resp_MaxAgePresent :: "directive_map \<Rightarrow> bool" where
  "Resp_MaxAgePresent d = hasToken d ''max-age''"

definition Resp_MustRevalidate :: "directive_map \<Rightarrow> bool" where
  "Resp_MustRevalidate d = hasToken d ''must-revalidate''"

definition Resp_MustUnderstand :: "directive_map \<Rightarrow> bool" where
  "Resp_MustUnderstand d = hasToken d ''must-understand''"

definition Resp_NoCache :: "directive_map \<Rightarrow> string option" where
  "Resp_NoCache d = (case map_of d ''no-cache'' of None \<Rightarrow> None | Some v \<Rightarrow> Some (ParseQuotedString v))"

definition Resp_NoStore :: "directive_map \<Rightarrow> bool" where
  "Resp_NoStore d = hasToken d ''no-store''"

definition Resp_Public :: "directive_map \<Rightarrow> bool" where
  "Resp_Public d = hasToken d ''public''"

definition Resp_StaleIfError :: "directive_map \<Rightarrow> duration option" where
  "Resp_StaleIfError d = getDurationDirective d ''stale-if-error''"

definition Resp_StaleWhileRevalidate :: "directive_map \<Rightarrow> duration option" where
  "Resp_StaleWhileRevalidate d = getDurationDirective d ''stale-while-revalidate''"

definition Resp_Immutable :: "directive_map \<Rightarrow> bool" where
  "Resp_Immutable d = hasToken d ''immutable''"

subsection \<open>What the parser promises\<close>

text \<open>
  A directive in canonical writing: a name and an argument that need no quoting. \<open>render\<close>
  writes one, and a \<open>Cache-Control\<close> value is their comma-separated list.
\<close>

definition plain_text :: "string \<Rightarrow> bool" where
  "plain_text s \<longleftrightarrow> (\<forall>c \<in> set s. c \<noteq> backslash \<and> c \<noteq> dquote \<and> c \<noteq> CHR '','' \<and> \<not> is_ascii_space c)"

definition plain_directive :: "string \<times> string \<Rightarrow> bool" where
  "plain_directive d \<longleftrightarrow>
     fst d \<noteq> [] \<and> plain_text (fst d) \<and> CHR ''='' \<notin> set (fst d) \<and> plain_text (snd d)"

definition render_directive :: "string \<times> string \<Rightarrow> string" where
  "render_directive d = (if snd d = [] then fst d else fst d @ ''='' @ snd d)"

definition render_directives :: "(string \<times> string) list \<Rightarrow> string" where
  "render_directives ds = Join (map render_directive ds) '',''"

subsection \<open>Lemmas\<close>

lemmas request_accessors =
  Req_MaxAge_def Req_MaxStale_def Req_MinFresh_def Req_NoCache_def Req_NoStore_def
  Req_OnlyIfCached_def Req_StaleIfError_def

lemmas response_accessors =
  Resp_MaxAge_def Resp_MaxAgePresent_def Resp_MustRevalidate_def Resp_MustUnderstand_def
  Resp_NoCache_def Resp_NoStore_def Resp_Public_def Resp_StaleIfError_def
  Resp_StaleWhileRevalidate_def Resp_Immutable_def

lemma hasToken_iff: "hasToken m k \<longleftrightarrow> k \<in> fst ` set m"
  using map_of_eq_None_iff [of m k] by (auto simp: hasToken_def simp del: map_of_eq_None_iff split: option.split)

lemma Cut_absent: "sep \<notin> set s \<Longrightarrow> Cut s sep = (s, [], False)"
  by (induction s) (auto simp: Cut_def)

lemma Cut_present: "sep \<notin> set s \<Longrightarrow> Cut (s @ sep # t) sep = (s, t, True)"
  by (induction s) (auto simp: Cut_def)

lemma Cut_join:
  "Cut s sep = (before, after, found) \<Longrightarrow> s = (if found then before @ sep # after else before)"
proof -
  assume cut: "Cut s sep = (before, after, found)"
  show ?thesis
  proof (cases "sep \<in> set s")
    case True
    then obtain pre post where "s = pre @ sep # post" "sep \<notin> set pre" by (meson split_list_first)
    with cut show ?thesis by (auto simp: Cut_present)
  next
    case False
    with cut show ?thesis by (simp add: Cut_absent)
  qed
qed

lemma directive_key: "directive p = Some (k, v) \<Longrightarrow> k \<noteq> []"
  by (auto simp: directive_def Let_def split: prod.splits if_splits)

lemma directives_keys: "(k, v) \<in> set (directives s) \<Longrightarrow> k \<noteq> []"
  unfolding directives_def List.map_filter_def by (auto dest: directive_key)

lemma map_of_parseDirectives: "map_of (parseDirectives s) = map_of (rev (directives s))"
  by (simp add: parseDirectives_def map_of_fold_update)

lemma distinct_parseDirectives: "distinct (map fst (parseDirectives s))"
  by (simp add: parseDirectives_def distinct_fold_update)

lemma plain_text_trim: "plain_text s \<Longrightarrow> TrimString s = s"
  by (rule TrimString_no_space) (simp add: plain_text_def)

lemma plain_text_append [simp]: "plain_text (s @ t) \<longleftrightarrow> plain_text s \<and> plain_text t"
  by (auto simp: plain_text_def)

lemma plain_text_render: "plain_directive d \<Longrightarrow> plain_text (render_directive d)"
  by (auto simp: plain_directive_def render_directive_def)
    (simp add: plain_text_def backslash_def dquote_def is_ascii_space_def)

lemma csv_part_render: "plain_directive d \<Longrightarrow> csv_part (render_directive d)"
proof -
  assume d: "plain_directive d"
  then have plain: "plain_text (render_directive d)" by (rule plain_text_render)
  have "render_directive d \<noteq> []"
    using d by (simp add: render_directive_def plain_directive_def)
  with plain show ?thesis
    by (intro csv_part_plain plain_text_trim) (auto simp: plain_text_def)
qed

lemma directive_render:
  assumes "plain_directive d"
  shows "directive (render_directive d) = Some d"
proof -
  have d: "fst d \<noteq> []" "CHR ''='' \<notin> set (fst d)"
    and trim: "TrimString (fst d) = fst d" "TrimString (snd d) = snd d"
    using assms by (simp_all add: plain_directive_def plain_text_trim)
  show ?thesis
  proof (cases "snd d = []")
    case True
    with d trim show ?thesis
      by (simp add: directive_def render_directive_def Cut_absent prod_eq_iff)
  next
    case False
    with d trim show ?thesis
      by (cases d) (simp add: directive_def render_directive_def Cut_present)
  qed
qed

lemma directives_render:
  assumes "\<forall>d \<in> set ds. plain_directive d"
  shows "directives (render_directives ds) = ds"
proof -
  have "TrimmedCSV (render_directives ds) = map render_directive ds"
    unfolding render_directives_def using assms by (intro TrimmedCSV_Join) (auto simp: csv_part_render)
  moreover have "List.map_filter directive (map render_directive ds) = ds"
    using assms by (induction ds) (auto simp: map_filter_simps directive_render)
  ultimately show ?thesis by (simp add: directives_def)
qed

subsection \<open>Lemmas on delta-seconds\<close>

lemma parse_uint_loop_append:
  "parse_uint_loop n (s @ t) =
     (case parse_uint_loop n s of Inl e \<Rightarrow> Inl e | Inr m \<Rightarrow> parse_uint_loop m t)"
  by (induction n s rule: parse_uint_loop.induct) (auto simp: Let_def)

lemma parse_uint_loop_digits:
  "int n \<le> max_uint64 \<Longrightarrow> parse_uint_loop 0 (nat_digits n) = Inr (int n)"
proof (induction n rule: nat_digits.induct)
  case (1 n)
  show ?case
  proof (cases "n < 10")
    case True
    then show ?thesis
      by (simp add: nat_digits.simps [of n] is_digit_def)
  next
    case False
    have d: "n mod 10 < 10" by simp
    have "int (n div 10) \<le> max_uint64" using "1.prems" by linarith
    with 1 False have IH: "parse_uint_loop 0 (nat_digits (n div 10)) = Inr (int (n div 10))" by simp
    have "10 * (n div 10) + n mod 10 = n" by simp
    then have n: "10 * int (n div 10) + int (n mod 10) = int n" by linarith
    from False d IH n "1.prems" show ?thesis
      by (simp add: nat_digits.simps [of n] parse_uint_loop_append is_digit_def)
  qed
qed

lemma ParseUint_FormatUint: "int n \<le> max_uint64 \<Longrightarrow> ParseUint (FormatUint n) = Inr (int n)"
  by (simp add: ParseUint_def FormatUint_def parse_uint_loop_digits)

lemma hd_nat_digits: "is_digit (hd (nat_digits n))"
  by (rule nat_digits_range [of _ n]) (rule hd_in_set, simp)

lemma ParseInt_FormatUint: "int n \<le> max_int64 \<Longrightarrow> ParseInt (FormatUint n) = (int n, None)"
proof -
  assume n: "int n \<le> max_int64"
  obtain c cs where s: "FormatUint n = c # cs" "is_digit c"
    using hd_nat_digits [of n] by (cases "nat_digits n") (auto simp: FormatUint_def)
  then have "c \<noteq> CHR ''+''" "c \<noteq> CHR ''-''" by (auto simp: is_digit_def)
  with n s ParseUint_FormatUint [of n] show ?thesis
    by (simp add: ParseInt_def parse_magnitude_def)
qed

lemma RawDeltaSeconds_FormatUint:
  assumes "int n \<le> max_int64"
  shows "RawDeltaSeconds_Value (FormatUint n) = Some (wrap64 (int n * second))"
proof -
  have "hd (FormatUint n) \<noteq> CHR ''-''" "FormatUint n \<noteq> []"
    using hd_nat_digits [of n] by (auto simp: FormatUint_def is_digit_def)
  with assms show ?thesis
    by (simp add: RawDeltaSeconds_Value_def ParseInt_FormatUint dur_of_seconds_def)
qed

lemma RawDeltaSeconds_range: "RawDeltaSeconds_Value r = Some d \<Longrightarrow> in_int64 d"
  using wrap64_range
  by (auto simp: RawDeltaSeconds_Value_def dur_of_seconds_def split: if_splits prod.splits option.splits)

subsection \<open>Properties\<close>

text \<open>
  C34: A Cache-Control value written from plain directives parses to exactly these directives in
  order, and the last of several directives with the same name is the one the cache obeys.
\<close>

theorem directives_roundtrip:
  assumes "\<forall>d \<in> set ds. plain_directive d"
  shows "directives (render_directives ds) = ds \<and>
    map_of (parseDirectives (render_directives ds)) = map_of (rev ds)"
  using directives_render [OF assms] by (simp add: map_of_parseDirectives)

theorem directives_roundtrip_witness:
  "directives ''max-age=60,no-cache,max-age=5'' = [(''max-age'', ''60''), (''no-cache'', []), (''max-age'', ''5'')] \<and>
   map_of (parseDirectives ''max-age=60,no-cache,max-age=5'') ''max-age'' = Some ''5''"
proof -
  let ?ds = "[(''max-age'', ''60''), (''no-cache'', []), (''max-age'', ''5'')]"
  have "\<forall>d \<in> set ?ds. plain_directive d"
    by (simp add: plain_directive_def plain_text_def is_ascii_space_def backslash_def dquote_def)
  from directives_roundtrip [OF this] show ?thesis by (simp add: render_directives_def render_directive_def)
qed

text \<open>
  C33: A decimal number of seconds up to 2^63-1 is read as that many nanoseconds wrapped to 64 bits;
  the value is exact precisely up to 9223372036 seconds.
\<close>

theorem delta_seconds_exact_or_wrapped:
  assumes "int n \<le> max_int64"
  shows "RawDeltaSeconds_Value (FormatUint n) = Some (wrap64 (int n * second)) \<and>
    (n \<le> 9223372036 \<longleftrightarrow> wrap64 (int n * second) = int n * second)"
proof -
  have "n \<le> 9223372036 \<longleftrightarrow> int n * second \<le> max_int64" by linarith
  then have "n \<le> 9223372036 \<longleftrightarrow> in_int64 (int n * second)" by simp
  then show ?thesis using RawDeltaSeconds_FormatUint [OF assms] wrap64_range [of "int n * second"] by (metis wrap64_id)
qed

theorem delta_seconds_exact_or_wrapped_witness:
  "RawDeltaSeconds_Value (FormatUint 9223372037) = Some (wrap64 9223372037000000000) \<and>
   wrap64 9223372037000000000 \<noteq> 9223372037000000000"
  using delta_seconds_exact_or_wrapped [of 9223372037] by simp

end
