(* ===== verification/Http.thy ===== *)
theory Http
  imports CCDirectives
begin

text \<open>
  Requests and responses of \<open>net/http\<close> as far as the cache reads or writes them, the cache
  status headers of \<open>internal/header.go\<close>, the header surgery of \<open>internal/helpers.go\<close>
  (hop-by-hop fields, the merge of a 304 response) and its method, status and origin checks, the
  port rules of \<open>internal/urlutil\<close>, the request method check, the conditional headers of
  \<open>helpers.go\<close> and \<open>FixDateHeader\<close> of \<open>internal/clock.go\<close>.
\<close>

record http_request =
  req_Method :: string
  req_URL :: url
  req_Header :: header

record http_response =
  resp_StatusCode :: int
  resp_Header :: header
  resp_Body :: bytes

subsection \<open>Cache status headers\<close>

record CacheStatus =
  cs_Value :: string
  cs_Legacy :: string

definition CacheStatusHeader :: string where
  "CacheStatusHeader = ''X-Httpcache-Status''"

definition FromCacheHeader :: string where
  "FromCacheHeader = ''X-From-Cache''"

definition FromCache :: string where
  "FromCache = ''1''"

definition NotFromCache :: string where
  "NotFromCache = []"

definition CacheStatusHit :: CacheStatus where
  "CacheStatusHit = \<lparr>cs_Value = ''HIT'', cs_Legacy = FromCache\<rparr>"

definition CacheStatusMiss :: CacheStatus where
  "CacheStatusMiss = \<lparr>cs_Value = ''MISS'', cs_Legacy = NotFromCache\<rparr>"

definition CacheStatusStale :: CacheStatus where
  "CacheStatusStale = \<lparr>cs_Value = ''STALE'', cs_Legacy = FromCache\<rparr>"

definition CacheStatusRevalidated :: CacheStatus where
  "CacheStatusRevalidated = \<lparr>cs_Value = ''REVALIDATED'', cs_Legacy = FromCache\<rparr>"

definition CacheStatusBypass :: CacheStatus where
  "CacheStatusBypass = \<lparr>cs_Value = ''BYPASS'', cs_Legacy = NotFromCache\<rparr>"

definition ApplyTo :: "CacheStatus \<Rightarrow> header \<Rightarrow> header" where
  "ApplyTo s h =
     (let h = Header_Set h CacheStatusHeader (cs_Value s) in
      if cs_Legacy s \<noteq> [] then Header_Set h FromCacheHeader (cs_Legacy s) else h)"

definition apply_status :: "CacheStatus \<Rightarrow> http_response \<Rightarrow> http_response" where
  "apply_status s r = r\<lparr>resp_Header := ApplyTo s (resp_Header r)\<rparr>"

subsection \<open>Hop-by-hop headers and the merge of a 304 response\<close>

definition static_hop_by_hop :: "string list" where
  "static_hop_by_hop =
     [''Connection'', ''Proxy-Connection'', ''Keep-Alive'', ''TE'', ''Transfer-Encoding'', ''Upgrade'',
      ''Proxy-Authenticate'', ''Proxy-Authentication-Info'', ''Proxy-Authorization'']"

text \<open>The set of header names, as the list of its elements.\<close>

definition hopByHopHeaders :: "header \<Rightarrow> string list" where
  "hopByHopHeaders h = static_hop_by_hop @ TrimmedCSVCanonical (Header_Get h ''Connection'')"

definition removeHopByHopHeaders :: "http_response \<Rightarrow> http_response" where
  "removeHopByHopHeaders r =
     r\<lparr>resp_Header := fold AList.delete (hopByHopHeaders (resp_Header r)) (resp_Header r)\<rparr>"

fun merge_loop :: "string list \<Rightarrow> header \<Rightarrow> header \<Rightarrow> header" where
  "merge_loop skip target [] = target"
| "merge_loop skip target ((hdr, val) # rest) =
     (if hdr \<in> set skip then merge_loop skip target rest
      else merge_loop skip (AList.update hdr val target) rest)"

definition mergeResponseHeaders :: "http_response \<Rightarrow> header \<Rightarrow> http_response" where
  "mergeResponseHeaders targetResp srcHdrs =
     (let nonCacheHdrs = hopByHopHeaders srcHdrs @ [''Content-Length'']
      in targetResp\<lparr>resp_Header := merge_loop nonCacheHdrs (resp_Header targetResp) srcHdrs\<rparr>)"

subsection \<open>Methods and status codes\<close>

definition isStaleErrorAllowed :: "int \<Rightarrow> bool" where
  "isStaleErrorAllowed code \<longleftrightarrow> code \<in> {500, 502, 503, 504}"

definition IsUnsafeMethod :: "string \<Rightarrow> bool" where
  "IsUnsafeMethod m \<longleftrightarrow> m \<in> {''POST'', ''PUT'', ''DELETE'', ''PATCH''}"

definition IsNonErrorStatus :: "int \<Rightarrow> bool" where
  "IsNonErrorStatus status \<longleftrightarrow> 200 \<le> status \<and> status < 400"

definition isRequestMethodUnderstood :: "http_request \<Rightarrow> bool" where
  "isRequestMethodUnderstood req \<longleftrightarrow>
     req_Method req = ''GET'' \<and> Header_Get (req_Header req) ''Range'' = []"

subsection \<open>Hosts, ports and origins\<close>

definition DefaultPort :: "string \<Rightarrow> string" where
  "DefaultPort scheme =
     (if scheme = ''http'' then ''80'' else if scheme = ''https'' then ''443'' else [])"

fun validOptionalPort :: "string \<Rightarrow> bool" where
  "validOptionalPort [] = True"
| "validOptionalPort (c # cs) = (c = CHR '':'' \<and> list_all is_digit cs)"

definition has_brackets :: "string \<Rightarrow> bool" where
  "has_brackets h \<longleftrightarrow> h \<noteq> [] \<and> hd h = CHR ''['' \<and> last h = CHR '']''"

definition SplitHostPort :: "string \<Rightarrow> string \<times> string" where
  "SplitHostPort hostPort =
     (let (host, port) =
        (case LastIndexByte hostPort CHR '':'' of
           None \<Rightarrow> (hostPort, [])
         | Some colon \<Rightarrow>
             if validOptionalPort (drop colon hostPort)
             then (take colon hostPort, drop (Suc colon) hostPort) else (hostPort, []))
      in (if has_brackets host then butlast (tl host) else host, port))"

text \<open>\<open>URL.Hostname\<close> and \<open>URL.Port\<close>; \<open>net/url\<close> splits the host with the same function.\<close>

definition url_Hostname :: "url \<Rightarrow> string" where
  "url_Hostname u = fst (SplitHostPort (url_Host u))"

definition url_Port :: "url \<Rightarrow> string" where
  "url_Port u = snd (SplitHostPort (url_Host u))"

definition effective_port :: "url \<Rightarrow> string" where
  "effective_port u = (if url_Port u = [] then DefaultPort (url_Scheme u) else url_Port u)"

definition sameOrigin :: "golib \<Rightarrow> url \<Rightarrow> url \<Rightarrow> bool" where
  "sameOrigin lib a b \<longleftrightarrow>
     EqualFold lib (url_Scheme a) (url_Scheme b) \<and>
     EqualFold lib (url_Hostname a) (url_Hostname b) \<and>
     effective_port a = effective_port b"

subsection \<open>Conditional headers and the Date header\<close>

definition withConditionalHeaders :: "http_request \<Rightarrow> header \<Rightarrow> http_request" where
  "withConditionalHeaders req storedHdr =
     (let etag = Header_Get storedHdr ''ETag'';
          lastModified = Header_Get storedHdr ''Last-Modified'';
          req = (if etag \<noteq> []
                 then req\<lparr>req_Header := Header_Set (req_Header req) ''If-None-Match'' etag\<rparr> else req)
      in if lastModified \<noteq> []
         then req\<lparr>req_Header := Header_Set (req_Header req) ''If-Modified-Since'' lastModified\<rparr>
         else req)"

definition FixDateHeader :: "golib \<Rightarrow> header \<Rightarrow> time \<Rightarrow> header \<times> bool" where
  "FixDateHeader lib h receivedAt =
     (case RawTime_Value lib (Header_Get h ''Date'') of
        Some date \<Rightarrow>
          if date = 0 then (Header_Set h ''Date'' (lib_FormatTime lib receivedAt), True) else (h, False)
      | None \<Rightarrow> (Header_Set h ''Date'' (lib_FormatTime lib receivedAt), True))"

subsection \<open>Lemmas on the status headers\<close>

lemma canonical_names [simp, hdr_simps]:
  "CanonicalHeaderKey ''X-Httpcache-Status'' = ''X-Httpcache-Status''"
  "CanonicalHeaderKey ''X-From-Cache'' = ''X-From-Cache''"
  "CanonicalHeaderKey ''Cache-Control'' = ''Cache-Control''"
  "CanonicalHeaderKey ''ETag'' = ''Etag''"
  "CanonicalHeaderKey ''Last-Modified'' = ''Last-Modified''"
  "CanonicalHeaderKey ''If-None-Match'' = ''If-None-Match''"
  "CanonicalHeaderKey ''If-Modified-Since'' = ''If-Modified-Since''"
  "CanonicalHeaderKey ''Date'' = ''Date''"
  "CanonicalHeaderKey ''Age'' = ''Age''"
  "CanonicalHeaderKey ''Expires'' = ''Expires''"
  "CanonicalHeaderKey ''Vary'' = ''Vary''"
  "CanonicalHeaderKey ''Range'' = ''Range''"
  "CanonicalHeaderKey ''Connection'' = ''Connection''"
  "CanonicalHeaderKey ''Location'' = ''Location''"
  "CanonicalHeaderKey ''Content-Location'' = ''Content-Location''"
  "CanonicalHeaderKey ''Content-Length'' = ''Content-Length''"
  "CanonicalHeaderKey ''TE'' = ''Te''"
  by code_simp+

lemmas status_defs = CacheStatusHeader_def FromCacheHeader_def FromCache_def NotFromCache_def
  CacheStatusHit_def CacheStatusMiss_def CacheStatusStale_def CacheStatusRevalidated_def
  CacheStatusBypass_def

lemma Header_Get_ApplyTo [hdr_simps]:
  "Header_Get (ApplyTo s h) k =
     (if CanonicalHeaderKey k = CacheStatusHeader then cs_Value s
      else if CanonicalHeaderKey k = FromCacheHeader \<and> cs_Legacy s \<noteq> [] then cs_Legacy s
      else Header_Get h k)"
  by (auto simp: ApplyTo_def Let_def Header_Get_Set status_defs)

lemma apply_status_simps [simp]:
  "resp_StatusCode (apply_status s r) = resp_StatusCode r"
  "resp_Body (apply_status s r) = resp_Body r"
  "resp_Header (apply_status s r) = ApplyTo s (resp_Header r)"
  by (simp_all add: apply_status_def)

subsection \<open>Lemmas on hop-by-hop headers\<close>

lemma map_of_removeHopByHop:
  "map_of (resp_Header (removeHopByHopHeaders r)) k =
     (if k \<in> set (hopByHopHeaders (resp_Header r)) then None else map_of (resp_Header r) k)"
  by (simp add: removeHopByHopHeaders_def map_of_fold_delete)

lemma removeHopByHop_simps [simp]:
  "resp_StatusCode (removeHopByHopHeaders r) = resp_StatusCode r"
  "resp_Body (removeHopByHopHeaders r) = resp_Body r"
  by (simp_all add: removeHopByHopHeaders_def)

lemma map_of_merge_loop:
  "distinct (map fst src) \<Longrightarrow>
   map_of (merge_loop skip target src) k =
     (if k \<in> set skip then map_of target k
      else case map_of src k of Some v \<Rightarrow> Some v | None \<Rightarrow> map_of target k)"
  by (induction skip target src rule: merge_loop.induct)
    (auto split: option.splits dest: map_of_SomeD simp: image_iff)

lemma mergeResponseHeaders_simps [simp]:
  "resp_StatusCode (mergeResponseHeaders r h) = resp_StatusCode r"
  "resp_Body (mergeResponseHeaders r h) = resp_Body r"
  by (simp_all add: mergeResponseHeaders_def Let_def)

lemma map_of_mergeResponseHeaders:
  assumes "distinct (map fst src)"
  shows "map_of (resp_Header (mergeResponseHeaders r src)) k =
     (if k \<in> set (hopByHopHeaders src) \<or> k = ''Content-Length'' then map_of (resp_Header r) k
      else case map_of src k of Some v \<Rightarrow> Some v | None \<Rightarrow> map_of (resp_Header r) k)"
  by (simp add: mergeResponseHeaders_def Let_def map_of_merge_loop [OF assms] split: option.splits)

subsection \<open>Lemmas on conditional requests and the Date header\<close>

lemma withConditionalHeaders_simps [simp]:
  "req_Method (withConditionalHeaders req h) = req_Method req"
  "req_URL (withConditionalHeaders req h) = req_URL req"
  by (simp_all add: withConditionalHeaders_def Let_def)

lemma FixDateHeader_get:
  "Header_Get (fst (FixDateHeader lib h t)) k =
     (if CanonicalHeaderKey k = ''Date'' \<and> snd (FixDateHeader lib h t) then lib_FormatTime lib t
      else Header_Get h k)"
  by (auto simp: FixDateHeader_def Header_Get_Set split: option.splits)

lemma FixDateHeader_changed:
  "snd (FixDateHeader lib h t) \<longleftrightarrow>
     (\<forall>d. RawTime_Value lib (Header_Get h ''Date'') = Some d \<longrightarrow> d = 0)"
  by (auto simp: FixDateHeader_def split: option.splits)

end
