(* ===== verification/Float64.thy ===== *)
theory Float64
  imports Complex_Main Prelude
begin

text \<open>
  IEEE 754 double precision arithmetic on positive rational numbers in the normal range: the
  rounding to 53 significant bits, ties to even, that Go's \<open>float64\<close> operations perform. A
  \<open>float64\<close> is the rational it stands for, and an operation is the exact operation followed by
  \<open>fl64\<close>. The clients are \<open>heuristicFreshness\<close> (a \<open>float64\<close> multiplication by 0.1) and
  \<open>SetAgeHeader\<close> (\<open>Duration.Seconds\<close>).
\<close>

fun bitlen :: "nat \<Rightarrow> nat" where
  "bitlen n = (if n = 0 then 0 else Suc (bitlen (n div 2)))"

declare bitlen.simps [simp del]

definition two_pow :: "int \<Rightarrow> rat" where
  "two_pow e = (if 0 \<le> e then 2 ^ nat e else 1 / 2 ^ nat (- e))"

text \<open>The exponent of a positive rational: \<open>two_pow (ilog2 x) \<le> x < two_pow (ilog2 x + 1)\<close>.\<close>

definition ilog2 :: "rat \<Rightarrow> int" where
  "ilog2 x =
     (let (p, q) = quotient_of x; e = int (bitlen (nat p)) - int (bitlen (nat q))
      in if two_pow e \<le> x then e else e - 1)"

definition round_half_even :: "rat \<Rightarrow> int" where
  "round_half_even x =
     (let n = \<lfloor>x\<rfloor>; r = x - of_int n in
      if r < 1 / 2 then n else if 1 / 2 < r then n + 1 else if even n then n else n + 1)"

definition fl64 :: "rat \<Rightarrow> rat" where
  "fl64 x =
     (if x = 0 then 0
      else let e = ilog2 x - 52 in of_int (round_half_even (x / two_pow e)) * two_pow e)"

subsection \<open>The exponent\<close>

lemma bitlen_bounds: "0 < n \<Longrightarrow> 2 ^ (bitlen n - 1) \<le> n \<and> n < 2 ^ bitlen n \<and> 0 < bitlen n"
proof (induction n rule: bitlen.induct)
  case (1 n)
  show ?case
  proof (cases "n = 1")
    case True
    then show ?thesis by (simp add: bitlen.simps)
  next
    case False
    with 1 have IH: "2 ^ (bitlen (n div 2) - 1) \<le> n div 2" "n div 2 < 2 ^ bitlen (n div 2)"
      "0 < bitlen (n div 2)" by auto
    then have "bitlen n = Suc (bitlen (n div 2))" using 1 by (simp add: bitlen.simps [of n])
    moreover have "2 ^ bitlen (n div 2) \<le> n" using IH(1,3)
      by (cases "bitlen (n div 2)") auto
    ultimately show ?thesis using IH by auto
  qed
qed

lemma two_pow_pos [simp]: "0 < two_pow e"
  by (simp add: two_pow_def)

lemma two_pow_nonzero [simp]: "two_pow e \<noteq> 0"
  using two_pow_pos [of e] by (simp del: two_pow_pos)

lemma two_pow_powi: "two_pow e = 2 powi e"
  by (simp add: two_pow_def power_int_def inverse_eq_divide power_one_over)

lemma two_pow_add: "two_pow (a + b) = two_pow a * two_pow b"
  by (simp add: two_pow_powi power_int_add)

lemma two_pow_Suc: "two_pow (e + 1) = 2 * two_pow e"
  by (simp add: two_pow_powi power_int_add)

lemma two_pow_nat: "two_pow (int n) = 2 ^ n"
  by (simp add: two_pow_def)

lemma two_pow_mono: "a \<le> b \<Longrightarrow> two_pow a \<le> two_pow b"
  by (simp add: two_pow_powi power_int_increasing)

lemma ilog2_bounds:
  assumes "0 < x"
  shows "two_pow (ilog2 x) \<le> x" and "x < two_pow (ilog2 x + 1)"
proof -
  obtain p q where pq: "quotient_of x = (p, q)" by (cases "quotient_of x")
  then have q: "0 < q" and x: "x = of_int p / of_int q"
    by (simp_all add: quotient_of_denom_pos quotient_of_div)
  with assms have p: "0 < p" by (simp add: zero_less_divide_iff)
  define e where "e = int (bitlen (nat p)) - int (bitlen (nat q))"
  have bp: "2 ^ (bitlen (nat p) - 1) \<le> nat p" "nat p < 2 ^ bitlen (nat p)" "0 < bitlen (nat p)"
    and bq: "2 ^ (bitlen (nat q) - 1) \<le> nat q" "nat q < 2 ^ bitlen (nat q)" "0 < bitlen (nat q)"
    using bitlen_bounds [of "nat p"] bitlen_bounds [of "nat q"] p q by auto
  have rp: "of_int p = (of_nat (nat p) :: rat)" and rq: "of_int q = (of_nat (nat q) :: rat)"
    using p q by simp_all
  have lp: "2 ^ (bitlen (nat p) - 1) \<le> (of_int p :: rat)" and up: "of_int p < (2 ^ bitlen (nat p) :: rat)"
    unfolding rp using bp(1,2) by (metis of_nat_le_iff of_nat_numeral of_nat_power)
      (metis bp(2) of_nat_less_iff of_nat_numeral of_nat_power)
  have lq: "2 ^ (bitlen (nat q) - 1) \<le> (of_int q :: rat)" and uq: "of_int q < (2 ^ bitlen (nat q) :: rat)"
    unfolding rq using bq(1,2) by (metis of_nat_le_iff of_nat_numeral of_nat_power)
      (metis bq(2) of_nat_less_iff of_nat_numeral of_nat_power)
  have Sp: "(2::rat) ^ bitlen (nat p) = 2 * 2 ^ (bitlen (nat p) - 1)"
    and Sq: "(2::rat) ^ bitlen (nat q) = 2 * 2 ^ (bitlen (nat q) - 1)"
    using bp(3) bq(3) by (simp_all flip: power_Suc)
  have te: "two_pow e * 2 ^ bitlen (nat q) = 2 ^ bitlen (nat p)"
    by (simp add: e_def two_pow_powi power_int_diff)
  have q0: "(0::rat) < of_int q" using q by simp
  have upper: "x < two_pow (e + 1)"
  proof -
    have "of_int p < two_pow e * 2 * 2 ^ (bitlen (nat q) - 1)" using up te Sq by (simp add: mult.assoc)
    also have "\<dots> \<le> two_pow e * 2 * of_int q" using lq by (simp add: mult_left_mono)
    finally have "of_int p < two_pow (e + 1) * of_int q" by (simp add: two_pow_Suc mult_ac)
    with q0 show ?thesis by (simp add: x pos_divide_less_eq)
  qed
  have lower: "two_pow (e - 1) \<le> x"
  proof -
    have half: "two_pow e = 2 * two_pow (e - 1)" using two_pow_Suc [of "e - 1"] by simp
    have "two_pow (e - 1) * of_int q \<le> two_pow (e - 1) * 2 ^ bitlen (nat q)"
      using uq by (simp add: mult_left_mono)
    also have "\<dots> = 2 ^ (bitlen (nat p) - 1)" using te Sp half by simp
    also have "\<dots> \<le> of_int p" by (rule lp)
    finally show ?thesis using q0 by (simp add: x pos_le_divide_eq)
  qed
  have il: "ilog2 x = (if two_pow e \<le> x then e else e - 1)"
    by (simp add: ilog2_def pq e_def Let_def)
  show "two_pow (ilog2 x) \<le> x" "x < two_pow (ilog2 x + 1)"
    using upper lower by (auto simp: il)
qed

subsection \<open>The rounding\<close>

lemma round_half_even_error: "\<bar>of_int (round_half_even x) - x\<bar> \<le> 1 / 2"
proof -
  have "of_int \<lfloor>x\<rfloor> \<le> x" "x < of_int \<lfloor>x\<rfloor> + 1" by linarith+
  then show ?thesis by (simp add: round_half_even_def Let_def abs_le_iff)
qed

lemma round_half_even_int [simp]: "round_half_even (of_int n) = n"
  by (simp add: round_half_even_def)

lemma fl64_error:
  assumes "0 \<le> x"
  shows "\<bar>fl64 x - x\<bar> \<le> x / 2 ^ 53"
proof (cases "x = 0")
  case False
  with assms have x: "0 < x" by simp
  define e where "e = ilog2 x - 52"
  have "\<bar>fl64 x - x\<bar> = \<bar>of_int (round_half_even (x / two_pow e)) - x / two_pow e\<bar> * two_pow e"
  proof -
    have "fl64 x - x = (of_int (round_half_even (x / two_pow e)) - x / two_pow e) * two_pow e"
      using False by (simp add: fl64_def e_def Let_def left_diff_distrib)
    then show ?thesis by (simp add: abs_mult less_imp_le)
  qed
  also have "\<dots> \<le> 1 / 2 * two_pow e"
    by (rule mult_right_mono [OF round_half_even_error]) (simp add: less_imp_le)
  also have "\<dots> \<le> x / 2 ^ 53"
  proof -
    have "two_pow e * 2 ^ 52 = two_pow (ilog2 x)"
      using two_pow_add [of e 52] two_pow_nat [of 52] by (simp add: e_def)
    then show ?thesis using ilog2_bounds(1) [OF x] by simp
  qed
  finally show ?thesis .
qed (simp add: fl64_def)

lemma fl64_nonneg: "0 \<le> x \<Longrightarrow> 0 \<le> fl64 x"
proof -
  assume "0 \<le> x"
  with fl64_error [of x] have "x - x / 2 ^ 53 \<le> fl64 x" by linarith
  moreover have "0 \<le> x - x / 2 ^ 53" using \<open>0 \<le> x\<close> by simp
  ultimately show ?thesis by linarith
qed

text \<open>Integers of at most 53 bits are represented exactly.\<close>

lemma fl64_int:
  assumes "0 \<le> n" "n < 2 ^ 53"
  shows "fl64 (of_int n) = of_int n"
proof (cases "n = 0")
  case False
  with assms have n: "0 < (of_int n :: rat)" by simp
  define e where "e = ilog2 (of_int n) - 52"
  have "two_pow (ilog2 (of_int n)) < two_pow 53"
  proof -
    have "two_pow (ilog2 (of_int n)) \<le> of_int n" by (rule ilog2_bounds(1) [OF n])
    also have "(of_int n :: rat) < of_int (2 ^ 53)" using assms(2) by (simp only: of_int_less_iff)
    finally show ?thesis by (simp add: two_pow_def)
  qed
  then have "\<not> 53 \<le> ilog2 (of_int n)" using two_pow_mono [of 53 "ilog2 (of_int n)"] by linarith
  then have "e \<le> 0" by (simp add: e_def)
  then have "of_int n / two_pow e = (of_int (n * 2 ^ nat (- e)) :: rat)"
    by (cases "e = 0") (simp_all add: two_pow_def)
  then have "round_half_even (of_int n / two_pow e) = n * 2 ^ nat (- e)"
    by (simp only: round_half_even_int)
  moreover have "two_pow e * 2 ^ nat (- e) = 1"
    using \<open>e \<le> 0\<close> by (cases "e = 0") (simp_all add: two_pow_def)
  ultimately show ?thesis
    using False by (simp add: fl64_def e_def Let_def mult.assoc mult.commute)
qed (simp add: fl64_def)

end
