(* ===== verification/Freshness.thy ===== *)
theory Freshness
  imports Http Float64
begin

text \<open>
  \<open>internal/freshness.go\<close>, \<open>internal/cacheabilityevaluator.go\<close>, the date accessors of
  \<open>internal/entry.go\<close> and \<open>SetAgeHeader\<close>: when a stored response is fresh, when a response may
  be stored, when a stale one may be served after an error.

  The clock is the sequence of its readings: \<open>clk n\<close> is what the reading number \<open>n\<close> returns. An
  operation that reads the clock takes the number of the next reading and returns the number
  after its own, so time may pass between any two readings.
\<close>

type_synonym clock = "nat \<Rightarrow> time"

definition clock_since :: "clock \<Rightarrow> nat \<Rightarrow> time \<Rightarrow> duration" where
  "clock_since clk n t = time_sub (clk n) t"

subsection \<open>Stored responses and their dates\<close>

record entry =
  ent_ID :: string
  ent_Data :: http_response
  ent_RequestedAt :: time
  ent_ReceivedAt :: time

definition DateHeader :: "golib \<Rightarrow> entry \<Rightarrow> time" where
  "DateHeader lib r =
     (case RawTime_Value lib (Header_Get (resp_Header (ent_Data r)) ''Date'') of
        Some date \<Rightarrow> date | None \<Rightarrow> 0)"

definition parseHTTPDateCompat :: "golib \<Rightarrow> string \<Rightarrow> time option" where
  "parseHTTPDateCompat lib dateStr =
     (if lib_Getenv lib ''HTTPCACHE_ALLOW_UTC_DATETIMEFORMAT'' = ''1''
      then lib_ParseRFC1123 lib dateStr else Some 0)"

text \<open>The result: the time, whether the header is present, whether it is valid.\<close>

definition ExpiresHeader :: "golib \<Rightarrow> entry \<Rightarrow> time \<times> bool \<times> bool" where
  "ExpiresHeader lib r =
     (let expiresStr = Header_Get (resp_Header (ent_Data r)) ''Expires'' in
      if expiresStr = [] then (0, False, False)
      else case RawTime_Value lib expiresStr of
             Some t \<Rightarrow> (t, True, True)
           | None \<Rightarrow>
               (case parseHTTPDateCompat lib expiresStr of
                  None \<Rightarrow> (0, True, False)
                | Some expires \<Rightarrow>
                    if expires = 0 then (0, True, False) else (expires, True, True)))"

subsection \<open>Age\<close>

record Age =
  age_Value :: duration
  age_Timestamp :: time

record Freshness =
  fr_IsStale :: bool
  fr_Age :: Age
  fr_UsefulLife :: duration

definition age_header_value :: "header \<Rightarrow> int" where
  "age_header_value h =
     (let ageStr = Header_Get h ''Age'' in if ageStr \<noteq> [] then fst (Atoi ageStr) else 0)"

definition calculateCurrentAge ::
  "clock \<Rightarrow> nat \<Rightarrow> header \<Rightarrow> time \<Rightarrow> time \<Rightarrow> time \<Rightarrow> Age \<times> nat" where
  "calculateCurrentAge clk n h date requestTime responseTime =
     (let ageVal = age_header_value h;
          apparentAge = max (time_sub responseTime date) 0;
          responseDelay = max (time_sub responseTime requestTime) 0;
          correctedAgeValue = dur_add (dur_of_seconds ageVal) responseDelay;
          correctedInitialAge = max apparentAge correctedAgeValue;
          residentTime = max (clock_since clk n responseTime) 0
      in (\<lparr>age_Value = dur_add correctedInitialAge residentTime, age_Timestamp = clk (Suc n)\<rparr>,
          Suc (Suc n)))"

text \<open>
  \<open>int(d.Seconds())\<close>: the whole seconds and the remaining nanoseconds are added as floats.
\<close>

definition dur_seconds_int :: "duration \<Rightarrow> int" where
  "dur_seconds_int d =
     \<lfloor>fl64 (of_int (d div second) + fl64 (of_int (d mod second) / 1000000000))\<rfloor>"

definition SetAgeHeader :: "clock \<Rightarrow> nat \<Rightarrow> http_response \<Rightarrow> Age \<Rightarrow> http_response \<times> nat" where
  "SetAgeHeader clk n resp age =
     (let adjusted = max (dur_add (age_Value age) (clock_since clk n (age_Timestamp age))) 0
      in (resp\<lparr>resp_Header := Header_Set (resp_Header resp) ''Age'' (Itoa (dur_seconds_int adjusted))\<rparr>,
          Suc n))"

subsection \<open>Status codes\<close>

definition isStatusUnderstood :: "int \<Rightarrow> bool" where
  "isStatusUnderstood code \<longleftrightarrow> code \<in> {200, 203, 301, 304, 404, 405, 410, 414, 501, 308}"

definition isHeuristicallyCacheableCode :: "int \<Rightarrow> bool" where
  "isHeuristicallyCacheableCode code \<longleftrightarrow>
     code \<in> {200, 203, 206, 301, 304, 404, 405, 410, 414, 501, 308}"

subsection \<open>Freshness lifetime\<close>

text \<open>The double nearest to 0.1.\<close>

definition float_tenth :: rat where
  "float_tenth = 3602879701896397 / 36028797018963968"

definition heuristicFreshness :: "golib \<Rightarrow> header \<Rightarrow> time \<Rightarrow> duration" where
  "heuristicFreshness lib h date =
     (case RawTime_Value lib (Header_Get h ''Last-Modified'') of
        None \<Rightarrow> 0
      | Some lastMod \<Rightarrow>
          if \<not> lastMod < date then 0
          else let delta = time_sub date lastMod
               in dur_round \<lfloor>fl64 (fl64 (of_int delta) * float_tenth)\<rfloor> second)"

text \<open>The response's own freshness lifetime: \<open>max-age\<close>, \<open>Expires\<close>, the heuristic.\<close>

definition response_lifetime :: "golib \<Rightarrow> entry \<Rightarrow> directive_map \<Rightarrow> duration" where
  "response_lifetime lib e resCC =
     (let date = DateHeader lib e;
          usefulLife = (case Resp_MaxAge resCC of
                          Some maxAge \<Rightarrow> if 0 \<le> maxAge then maxAge else 0
                        | None \<Rightarrow> 0)
      in if usefulLife = 0 then
           (let (expires, found, valid) = ExpiresHeader lib e in
            if valid \<and> date < expires then time_sub expires date
            else if \<not> found \<and>
              (isHeuristicallyCacheableCode (resp_StatusCode (ent_Data e)) \<or> Resp_Public resCC)
            then heuristicFreshness lib (resp_Header (ent_Data e)) date
            else usefulLife)
         else usefulLife)"

definition client_lifetime :: "duration \<Rightarrow> directive_map \<Rightarrow> duration" where
  "client_lifetime usefulLife reqCC =
     (case Req_MaxAge reqCC of
        Some reqMaxAge \<Rightarrow> if 0 < reqMaxAge then min usefulLife reqMaxAge else usefulLife
      | None \<Rightarrow> usefulLife)"

definition max_stale :: "directive_map \<Rightarrow> duration" where
  "max_stale reqCC =
     (case Req_MaxStale reqCC of
        None \<Rightarrow> 0
      | Some s \<Rightarrow>
          if s = [] then max_int64
          else case RawDeltaSeconds_Value s of
                 Some d \<Rightarrow> if 0 \<le> d then d else 0
               | None \<Rightarrow> 0)"

definition CalculateFreshness ::
  "golib \<Rightarrow> clock \<Rightarrow> nat \<Rightarrow> entry \<Rightarrow> directive_map \<Rightarrow> directive_map \<Rightarrow> Freshness \<times> nat" where
  "CalculateFreshness lib clk n e reqCC resCC =
     (if Req_MaxAge reqCC = Some 0 then
        (\<lparr>fr_IsStale = True, fr_Age = \<lparr>age_Value = 0, age_Timestamp = clk n\<rparr>, fr_UsefulLife = 0\<rparr>, Suc n)
      else
        let (currentAge, n') =
              calculateCurrentAge clk n (resp_Header (ent_Data e)) (DateHeader lib e)
                (ent_RequestedAt e) (ent_ReceivedAt e);
            age = age_Value currentAge;
            usefulLife = client_lifetime (response_lifetime lib e resCC) reqCC
        in if (case Req_MinFresh reqCC of
                 Some m \<Rightarrow> 0 < m \<and> dur_sub usefulLife age < m
               | None \<Rightarrow> False)
           then (\<lparr>fr_IsStale = True, fr_Age = currentAge, fr_UsefulLife = usefulLife\<rparr>, n')
           else
             let maxStale = max_stale reqCC;
                 isStale = (usefulLife \<le> age \<and>
                   \<not> (0 < maxStale \<and> age < max (dur_add usefulLife maxStale) maxStale))
             in (\<lparr>fr_IsStale = isStale, fr_Age = currentAge, fr_UsefulLife = usefulLife\<rparr>, n'))"

subsection \<open>Storing and serving stale\<close>

definition canStoreResponse :: "http_response \<Rightarrow> directive_map \<Rightarrow> directive_map \<Rightarrow> bool" where
  "canStoreResponse resp reqCC resCC =
     (if resp_StatusCode resp < 200 \<or> resp_StatusCode resp = 102 \<or> 600 \<le> resp_StatusCode resp then False
      else if (resp_StatusCode resp = 206 \<or> resp_StatusCode resp = 304 \<or> Resp_MustUnderstand resCC) \<and>
        \<not> isStatusUnderstood (resp_StatusCode resp) then False
      else if Resp_NoStore resCC \<or> Req_NoStore reqCC then False
      else Resp_Public resCC \<or> Header_Get (resp_Header resp) ''Expires'' \<noteq> [] \<or>
        Resp_MaxAgePresent resCC \<or> isHeuristicallyCacheableCode (resp_StatusCode resp))"

text \<open>
  The arguments are the results of \<open>StaleIfError()\<close>. Each valid one costs a reading of the
  clock until one allows the stale response.
\<close>

fun CanStaleOnError :: "clock \<Rightarrow> nat \<Rightarrow> Freshness \<Rightarrow> duration option list \<Rightarrow> bool \<times> nat" where
  "CanStaleOnError clk n f [] = (False, n)"
| "CanStaleOnError clk n f (None # sies) = CanStaleOnError clk n f sies"
| "CanStaleOnError clk n f (Some dur # sies) =
     (let age = dur_add (age_Value (fr_Age f)) (clock_since clk n (age_Timestamp (fr_Age f))) in
      if age \<le> dur_add (fr_UsefulLife f) dur then (True, Suc n)
      else CanStaleOnError clk (Suc n) f sies)"

subsection \<open>Lemmas on the current age\<close>

text \<open>
  The readings of one age computation are sane when the \<open>Age\<close> header and every difference of
  two times fit in \<open>2 ^ 60\<close> nanoseconds (about 36 years): then no operation overflows.
\<close>

abbreviation small_diff :: "time \<Rightarrow> time \<Rightarrow> bool" where
  "small_diff t u \<equiv> \<bar>t - u\<bar> \<le> 2 ^ 60"

definition sane_times :: "header \<Rightarrow> time \<Rightarrow> time \<Rightarrow> time \<Rightarrow> time \<Rightarrow> bool" where
  "sane_times h now date requestTime responseTime \<longleftrightarrow>
     0 \<le> age_header_value h \<and> age_header_value h * second \<le> 2 ^ 60 \<and>
     small_diff responseTime date \<and> small_diff responseTime requestTime \<and> small_diff now responseTime"

text \<open>The current age of RFC 9111, section 4.2.3, in unbounded arithmetic.\<close>

definition rfc_current_age :: "int \<Rightarrow> time \<Rightarrow> time \<Rightarrow> time \<Rightarrow> time \<Rightarrow> int" where
  "rfc_current_age age_seconds now date requestTime responseTime =
     max (max (responseTime - date) 0) (age_seconds * second + max (responseTime - requestTime) 0)
     + max (now - responseTime) 0"

lemma calculateCurrentAge_next [simp]: "snd (calculateCurrentAge clk n h d rq rs) = Suc (Suc n)"
  by (simp add: calculateCurrentAge_def Let_def)

lemma calculateCurrentAge_timestamp [simp]:
  "age_Timestamp (fst (calculateCurrentAge clk n h d rq rs)) = clk (Suc n)"
  by (simp add: calculateCurrentAge_def Let_def)

lemma time_sub_small: "small_diff t u \<Longrightarrow> time_sub t u = t - u"
  unfolding time_sub_def by (rule sat64_id) (simp add: abs_le_iff)

lemma current_age_exact:
  assumes "sane_times h (clk n) d rq rs"
  shows "age_Value (fst (calculateCurrentAge clk n h d rq rs))
    = rfc_current_age (age_header_value h) (clk n) d rq rs"
proof -
  let ?a = "age_header_value h * second" and ?delay = "max (rs - rq) 0"
  have a: "0 \<le> ?a" "?a \<le> 2 ^ 60" "dur_of_seconds (age_header_value h) = ?a"
    and d: "\<bar>rs - d\<bar> \<le> 2 ^ 60" "\<bar>rs - rq\<bar> \<le> 2 ^ 60" "\<bar>clk n - rs\<bar> \<le> 2 ^ 60"
    using assms by (simp_all add: sane_times_def dur_of_seconds_def)
  have "dur_add ?a ?delay = ?a + ?delay"
    unfolding dur_add_def by (rule wrap64_id) (use a d in \<open>simp add: max_def abs_le_iff\<close>)
  moreover have "dur_add (max (max (rs - d) 0) (?a + ?delay)) (max (clk n - rs) 0)
      = max (max (rs - d) 0) (?a + ?delay) + max (clk n - rs) 0"
    unfolding dur_add_def by (rule wrap64_id) (use a d in \<open>simp add: max_def abs_le_iff\<close>)
  ultimately show ?thesis
    using a d by (simp add: calculateCurrentAge_def Let_def clock_since_def time_sub_small
        rfc_current_age_def)
qed

lemma rfc_current_age_mono:
  "now \<le> now' \<Longrightarrow> rfc_current_age a now d rq rs \<le> rfc_current_age a now' d rq rs"
  by (simp add: rfc_current_age_def)

lemma rfc_current_age_bounds:
  assumes "sane_times h now d rq rs"
  shows "0 \<le> rfc_current_age (age_header_value h) now d rq rs"
    and "rfc_current_age (age_header_value h) now d rq rs \<le> 3 * 2 ^ 60"
  using assms by (auto simp: rfc_current_age_def sane_times_def max_def)

subsection \<open>Lemmas on the freshness lifetime\<close>

lemma float_tenth_error: "\<bar>float_tenth - 1 / 10\<bar> \<le> 1 / 2 ^ 57"
  by (simp add: float_tenth_def abs_if field_simps)

lemma go_rem_nonneg: "0 \<le> d \<Longrightarrow> go_rem d second = d mod second"
  by (cases "d = 0") (simp_all add: go_rem_def)

lemma dur_round_second:
  assumes "0 \<le> d" "d \<le> 2 ^ 62"
  shows "\<bar>dur_round d second - d\<bar> * 2 \<le> second" and "0 \<le> dur_round d second"
    and "dur_round d second \<le> 2 ^ 62 + second"
proof -
  let ?r = "d mod second"
  have r: "0 \<le> ?r" "?r < second" "?r \<le> d" using assms(1) by (simp_all add: zmod_le_nonneg_dividend)
  have "dur_round d second = (if ?r + ?r < second then d - ?r else d + second - ?r)"
    using assms r by (simp add: dur_round_def go_rem_nonneg Let_def)
  then show "\<bar>dur_round d second - d\<bar> * 2 \<le> second" "0 \<le> dur_round d second"
    "dur_round d second \<le> 2 ^ 62 + second"
    using r assms by (simp_all split: if_splits)
qed

text \<open>The float product is within 400 nanoseconds of a tenth of the difference.\<close>

lemma float_product_error:
  assumes "0 \<le> delta" "delta \<le> max_int64"
  shows "\<bar>fl64 (fl64 (of_int delta) * float_tenth) - of_int delta / 10\<bar> \<le> 399"
proof -
  define x where "x = (of_int delta :: rat)"
  have x: "0 \<le> x" "x \<le> 2 ^ 63"
    using assms by (simp_all add: x_def)
  have tenth: "0 \<le> float_tenth" "float_tenth \<le> 1 / 10 + 1 / 2 ^ 57" "1 / 10 - 1 / 2 ^ 57 \<le> float_tenth"
    using float_tenth_error by (simp_all add: float_tenth_def)
  have e1: "\<bar>fl64 x - x\<bar> \<le> 2 ^ 10" and n1: "0 \<le> fl64 x"
    using fl64_error [OF x(1)] x fl64_nonneg [OF x(1)] by simp_all
  define y where "y = fl64 x * float_tenth"
  have y0: "0 \<le> y" using n1 tenth by (simp add: y_def)
  have "\<bar>y - x / 10\<bar> = \<bar>(fl64 x - x) * float_tenth + x * (float_tenth - 1 / 10)\<bar>"
    by (simp add: y_def algebra_simps)
  also have "\<dots> \<le> \<bar>fl64 x - x\<bar> * float_tenth + x * \<bar>float_tenth - 1 / 10\<bar>"
    using x(1) tenth(1) by (intro order_trans [OF abs_triangle_ineq]) (simp add: abs_mult)
  also have "\<dots> \<le> 2 ^ 10 * (1 / 10 + 1 / 2 ^ 57) + 2 ^ 63 * (1 / 2 ^ 57)"
    using e1 tenth float_tenth_error x by (intro add_mono mult_mono) auto
  finally have e2: "\<bar>y - x / 10\<bar> \<le> 167" by simp
  have "\<bar>fl64 y - y\<bar> \<le> y / 2 ^ 53" by (rule fl64_error [OF y0])
  also have "\<dots> \<le> 103" using e2 x by (simp add: abs_le_iff)
  finally show ?thesis using e2 by (simp add: y_def x_def abs_le_iff)
qed

lemma heuristic_tenth:
  assumes "0 \<le> delta" "delta \<le> max_int64"
  defines "h \<equiv> dur_round \<lfloor>fl64 (fl64 (of_int delta) * float_tenth)\<rfloor> second"
  shows "\<bar>10 * h - delta\<bar> \<le> 5 * second + 4000" and "0 \<le> h"
proof -
  define p where "p = fl64 (fl64 (of_int delta) * float_tenth)"
  have p0: "0 \<le> p"
    unfolding p_def using assms(1) by (intro fl64_nonneg mult_nonneg_nonneg) (simp_all add: float_tenth_def)
  have e: "\<bar>p - of_int delta / 10\<bar> \<le> 399"
    using float_product_error [OF assms(1,2)] by (simp add: p_def)
  have f: "of_int \<lfloor>p\<rfloor> \<le> p" "p < of_int \<lfloor>p\<rfloor> + 1" by linarith+
  have "p \<le> of_int delta / 10 + 399" "of_int delta / 10 - 399 \<le> p" using e by linarith+
  with f have near: "\<bar>10 * (of_int \<lfloor>p\<rfloor> :: rat) - of_int delta\<bar> \<le> 4000"
    unfolding abs_le_iff by linarith
  then have "(of_int \<bar>10 * \<lfloor>p\<rfloor> - delta\<bar> :: rat) \<le> of_int 4000" by simp
  then have near_int: "\<bar>10 * \<lfloor>p\<rfloor> - delta\<bar> \<le> 4000" by (simp only: of_int_le_iff)
  have "10 * \<lfloor>p\<rfloor> \<le> delta + 4000" using near_int by linarith
  then have "\<lfloor>p\<rfloor> \<le> 4611686018427387904" using assms(2) by linarith
  then have q: "0 \<le> \<lfloor>p\<rfloor>" "\<lfloor>p\<rfloor> \<le> 2 ^ 62" using p0 by (simp_all del: floor_le_numeral)
  from dur_round_second [OF q] near_int
  show "\<bar>10 * h - delta\<bar> \<le> 5 * second + 4000" "0 \<le> h"
    by (simp_all add: h_def p_def abs_le_iff)
qed

lemma response_lifetime_nonneg: "0 \<le> response_lifetime lib e resCC"
proof -
  have h: "0 \<le> heuristicFreshness lib hd date" for hd date
  proof (cases "RawTime_Value lib (Header_Get hd ''Last-Modified'')")
    case (Some m)
    have "m < date \<Longrightarrow> 0 \<le> time_sub date m \<and> time_sub date m \<le> max_int64"
      by (simp add: time_sub_def sat64_def)
    with Some heuristic_tenth(2) [of "time_sub date m"] show ?thesis
      by (simp add: heuristicFreshness_def Let_def)
  qed (simp add: heuristicFreshness_def)
  have s: "d < t \<Longrightarrow> 0 \<le> time_sub t d" for t d
    by (simp add: time_sub_def sat64_def)
  obtain t found valid where x: "ExpiresHeader lib e = (t, found, valid)"
    by (cases "ExpiresHeader lib e")
  show ?thesis
    unfolding response_lifetime_def Let_def x
    by (cases "Resp_MaxAge resCC") (simp_all add: h s)
qed

subsection \<open>Lemmas on staleness\<close>

lemma max_stale_nonneg: "0 \<le> max_stale reqCC"
  by (auto simp: max_stale_def split: option.splits)

lemma client_lifetime_nonneg: "0 \<le> u \<Longrightarrow> 0 \<le> client_lifetime u reqCC"
  by (simp add: client_lifetime_def split: option.split)

lemma client_lifetime_le: "client_lifetime u reqCC \<le> u"
  by (simp add: client_lifetime_def split: option.split)

text \<open>The verdict, apart from the readings it is computed from.\<close>

definition stale_verdict :: "duration \<Rightarrow> duration \<Rightarrow> directive_map \<Rightarrow> bool" where
  "stale_verdict usefulLife age reqCC \<longleftrightarrow>
     (\<exists>m. Req_MinFresh reqCC = Some m \<and> 0 < m \<and> dur_sub usefulLife age < m) \<or>
     usefulLife \<le> age \<and>
     \<not> (0 < max_stale reqCC \<and> age < max (dur_add usefulLife (max_stale reqCC)) (max_stale reqCC))"

definition entry_age :: "golib \<Rightarrow> clock \<Rightarrow> nat \<Rightarrow> entry \<Rightarrow> Age" where
  "entry_age lib clk n e =
     fst (calculateCurrentAge clk n (resp_Header (ent_Data e)) (DateHeader lib e)
       (ent_RequestedAt e) (ent_ReceivedAt e))"

definition entry_lifetime :: "golib \<Rightarrow> entry \<Rightarrow> directive_map \<Rightarrow> directive_map \<Rightarrow> duration" where
  "entry_lifetime lib e reqCC resCC = client_lifetime (response_lifetime lib e resCC) reqCC"

lemma CalculateFreshness_verdict:
  assumes "Req_MaxAge reqCC \<noteq> Some 0"
  shows "CalculateFreshness lib clk n e reqCC resCC =
    (\<lparr>fr_IsStale = stale_verdict (entry_lifetime lib e reqCC resCC) (age_Value (entry_age lib clk n e)) reqCC,
      fr_Age = entry_age lib clk n e, fr_UsefulLife = entry_lifetime lib e reqCC resCC\<rparr>, Suc (Suc n))"
proof -
  obtain a n' where a: "calculateCurrentAge clk n (resp_Header (ent_Data e)) (DateHeader lib e)
      (ent_RequestedAt e) (ent_ReceivedAt e) = (a, n')"
    by (cases "calculateCurrentAge clk n (resp_Header (ent_Data e)) (DateHeader lib e)
      (ent_RequestedAt e) (ent_ReceivedAt e)")
  then have n': "n' = Suc (Suc n)" by (metis calculateCurrentAge_next snd_conv)
  show ?thesis
    using assms n'
    by (cases "Req_MinFresh reqCC")
      (auto simp: CalculateFreshness_def a Let_def stale_verdict_def entry_age_def entry_lifetime_def)
qed

lemma CalculateFreshness_max_age_0:
  "Req_MaxAge reqCC = Some 0 \<Longrightarrow> fr_IsStale (fst (CalculateFreshness lib clk n e reqCC resCC))"
  by (simp add: CalculateFreshness_def)

lemma fresh_not_max_age_0:
  "\<not> fr_IsStale (fst (CalculateFreshness lib clk n e reqCC resCC)) \<Longrightarrow> Req_MaxAge reqCC \<noteq> Some 0"
  using CalculateFreshness_max_age_0 by blast

lemma stale_verdict_mono:
  assumes "stale_verdict u a reqCC" "a \<le> a'" "0 \<le> u" "u \<le> max_int64" "0 \<le> a" "a' \<le> max_int64"
  shows "stale_verdict u a' reqCC"
proof -
  have "dur_sub u a = u - a" "dur_sub u a' = u - a'"
    unfolding dur_sub_def using assms by (simp_all add: wrap64_id)
  with assms show ?thesis by (auto simp: stale_verdict_def)
qed

lemma response_lifetime_le: "response_lifetime lib e resCC \<le> max_int64"
proof -
  have h: "heuristicFreshness lib hd date \<le> max_int64" for hd date
  proof (cases "RawTime_Value lib (Header_Get hd ''Last-Modified'')")
    case (Some m)
    let ?d = "time_sub date m"
    let ?r = "dur_round \<lfloor>fl64 (fl64 (of_int ?d) * float_tenth)\<rfloor> second"
    show ?thesis
    proof (cases "m < date")
      case True
      then have d: "0 \<le> ?d" "?d \<le> max_int64" by (simp_all add: time_sub_def sat64_def)
      then have "?r \<le> max_int64" using heuristic_tenth(1) [of ?d] by linarith
      with Some True show ?thesis by (simp add: heuristicFreshness_def)
    qed (simp add: heuristicFreshness_def Some)
  qed (simp add: heuristicFreshness_def)
  have s: "time_sub t d \<le> max_int64" for t d by (simp add: time_sub_def sat64_def)
  have m: "Resp_MaxAge resCC = Some a \<Longrightarrow> a \<le> max_int64" for a
    using RawDeltaSeconds_range [of _ a]
    by (auto simp: Resp_MaxAge_def getDurationDirective_def split: option.splits)
  obtain t found valid where x: "ExpiresHeader lib e = (t, found, valid)"
    by (cases "ExpiresHeader lib e")
  show ?thesis
    unfolding response_lifetime_def Let_def x
    by (cases "Resp_MaxAge resCC") (simp_all add: h s m)
qed

lemma entry_lifetime_range:
  "0 \<le> entry_lifetime lib e reqCC resCC \<and> entry_lifetime lib e reqCC resCC \<le> max_int64"
  unfolding entry_lifetime_def
  using response_lifetime_nonneg [of lib e resCC] response_lifetime_le [of lib e resCC]
    client_lifetime_nonneg [of "response_lifetime lib e resCC" reqCC]
    client_lifetime_le [of "response_lifetime lib e resCC" reqCC]
  by linarith

text \<open>The readings of the clock an entry's age is computed from are sane.\<close>

definition sane_entry :: "golib \<Rightarrow> time \<Rightarrow> entry \<Rightarrow> bool" where
  "sane_entry lib now e \<longleftrightarrow>
     sane_times (resp_Header (ent_Data e)) now (DateHeader lib e) (ent_RequestedAt e) (ent_ReceivedAt e)"

definition entry_rfc_age :: "golib \<Rightarrow> time \<Rightarrow> entry \<Rightarrow> int" where
  "entry_rfc_age lib now e =
     rfc_current_age (age_header_value (resp_Header (ent_Data e))) now (DateHeader lib e)
       (ent_RequestedAt e) (ent_ReceivedAt e)"

lemma entry_age_exact: "sane_entry lib (clk n) e \<Longrightarrow> age_Value (entry_age lib clk n e) = entry_rfc_age lib (clk n) e"
  unfolding entry_age_def entry_rfc_age_def sane_entry_def by (rule current_age_exact)

lemma entry_rfc_age_range:
  "sane_entry lib now e \<Longrightarrow> 0 \<le> entry_rfc_age lib now e \<and> entry_rfc_age lib now e \<le> max_int64"
  unfolding entry_rfc_age_def sane_entry_def using rfc_current_age_bounds by fastforce

lemma age_sum_exact:
  assumes "sane_entry lib (clk n) e" "0 \<le> clk (n + 2) - clk (n + 1)" "clk (n + 2) - clk (n + 1) \<le> 2 ^ 60"
  shows "max (dur_add (age_Value (entry_age lib clk n e)) (clock_since clk (n + 2) (age_Timestamp (entry_age lib clk n e)))) 0
    = entry_rfc_age lib (clk n) e + (clk (n + 2) - clk (n + 1))"
proof -
  have a: "0 \<le> entry_rfc_age lib (clk n) e" "entry_rfc_age lib (clk n) e \<le> 3 * 2 ^ 60"
    using rfc_current_age_bounds assms(1) by (simp_all add: sane_entry_def entry_rfc_age_def)
  have t: "age_Timestamp (entry_age lib clk n e) = clk (n + 1)" by (simp add: entry_age_def)
  have "clock_since clk (n + 2) (clk (n + 1)) = clk (n + 2) - clk (n + 1)"
    using assms(2,3) by (simp add: clock_since_def time_sub_def)
  with a t assms(2,3) show ?thesis
    by (simp add: entry_age_exact [of lib clk n e, OF assms(1)] dur_add_def)
qed

text \<open>The verdict in terms of the age of RFC 9111.\<close>

lemma stale_rfc:
  assumes "sane_entry lib (clk n) e" "max_stale reqCC = 0"
    "entry_lifetime lib e reqCC resCC \<le> entry_rfc_age lib (clk n) e"
  shows "fr_IsStale (fst (CalculateFreshness lib clk n e reqCC resCC))"
proof (cases "Req_MaxAge reqCC = Some 0")
  case True
  then show ?thesis by (rule CalculateFreshness_max_age_0)
next
  case False
  then show ?thesis using assms by (simp add: CalculateFreshness_verdict stale_verdict_def entry_age_exact)
qed

lemma fresh_rfc:
  assumes "sane_entry lib (clk n) e" "Req_MaxAge reqCC \<noteq> Some 0" "Req_MinFresh reqCC = None"
    "entry_rfc_age lib (clk n) e < entry_lifetime lib e reqCC resCC"
  shows "\<not> fr_IsStale (fst (CalculateFreshness lib clk n e reqCC resCC))"
  using assms by (simp add: CalculateFreshness_verdict stale_verdict_def entry_age_exact)

subsection \<open>Lemmas on storing and serving stale\<close>

lemma CanStaleOnError_iff:
  "fst (CanStaleOnError clk n f sies) \<Longrightarrow> \<exists>dur k. Some dur \<in> set sies \<and> n \<le> k \<and>
     dur_add (age_Value (fr_Age f)) (clock_since clk k (age_Timestamp (fr_Age f)))
       \<le> dur_add (fr_UsefulLife f) dur"
proof (induction clk n f sies rule: CanStaleOnError.induct)
  case (3 clk n f dur sies)
  then show ?case
    by (cases "dur_add (age_Value (fr_Age f)) (clock_since clk n (age_Timestamp (fr_Age f)))
       \<le> dur_add (fr_UsefulLife f) dur") (auto simp: Let_def intro: Suc_leD)
qed auto

lemma CanStaleOnError_le: "n \<le> snd (CanStaleOnError clk n f sies)"
  by (induction clk n f sies rule: CanStaleOnError.induct) (auto simp: Let_def)

subsection \<open>Properties\<close>

text \<open>
  C31: The computed current age equals the one of RFC 9111, section 4.2.3, in unbounded arithmetic,
  and is stamped with the time it was computed, as long as the Age header and every time difference
  stay below 2^60 nanoseconds.
\<close>

theorem current_age_is_rfc:
  assumes "sane_times h (clk n) date requestTime responseTime"
  shows "fst (calculateCurrentAge clk n h date requestTime responseTime) =
    \<lparr>age_Value = rfc_current_age (age_header_value h) (clk n) date requestTime responseTime,
     age_Timestamp = clk (Suc n)\<rparr>"
  using current_age_exact [of h clk n, OF assms] calculateCurrentAge_timestamp [of clk n h date requestTime responseTime]
  by (simp del: calculateCurrentAge_timestamp)

theorem current_age_is_rfc_witness:
  "age_Value (fst (calculateCurrentAge (\<lambda>n. (100 + int n) * second) 2 [(''Age'', [''7''])] (99 * second) (100 * second) (101 * second)))
   = 9 * second"
proof -
  have a: "age_header_value [(''Age'', [''7''])] = 7"
    by (simp add: age_header_value_def Header_Get_def Header_Values_def header_values_def Atoi_def ParseInt_def
        parse_magnitude_def ParseUint_def is_digit_def)
  have s: "sane_times [(''Age'', [''7''])] (102 * second) (99 * second) (100 * second) (101 * second)"
    by (simp add: sane_times_def a)
  show ?thesis
    using current_age_is_rfc [of "[(''Age'', [''7''])]" "\<lambda>n. (100 + int n) * second" 2] s
    by (simp add: rfc_current_age_def a)
qed

end
