(* ===== verification/ResponseCache.thy ===== *)
theory ResponseCache
  imports Conn Freshness
begin

text \<open>
  \<open>internal/responsecache.go\<close> and the codec of \<open>internal/entry.go\<close>: cached responses and their
  references over a backend. An entry is written as a line with its ID and its two times, followed
  by the dumped response; the references of a URL are one JSON document.

  The formats of the standard library (\<open>httputil.DumpResponse\<close>, \<open>http.ReadResponse\<close>, RFC 3339
  times, \<open>encoding/json\<close>) are the parameters of the record \<open>codec\<close>; the framing around them is
  written out. A nil slice of references reads like an empty one, so both are \<open>[]\<close>.
\<close>

record ResponseRef =
  ref_ResponseID :: string
  ref_Vary :: string
  ref_VaryResolved :: "(string \<times> string) list"
  ref_ReceivedAt :: time

type_synonym ResponseRefs = "ResponseRef list"

record codec =
  cd_DumpResponse :: "http_response \<Rightarrow> bytes option"
  cd_ReadResponse :: "bytes \<Rightarrow> http_request \<Rightarrow> http_response option"
  cd_FormatNano :: "time \<Rightarrow> string"
  cd_ParseNano :: "string \<Rightarrow> time option"
  cd_MarshalRefs :: "ResponseRefs \<Rightarrow> bytes option"
  cd_UnmarshalRefs :: "bytes \<Rightarrow> ResponseRefs option"

abbreviation tab :: char where
  "tab \<equiv> CHR 0x09"

abbreviation newline :: char where
  "newline \<equiv> CHR 0x0A"

subsection \<open>Entries\<close>

definition WriteTo :: "codec \<Rightarrow> entry \<Rightarrow> bytes" where
  "WriteTo cd r =
     ent_ID r @ [tab] @ cd_FormatNano cd (ent_RequestedAt r) @ [tab] @
     cd_FormatNano cd (ent_ReceivedAt r) @ [newline]"

definition MarshalBinary :: "codec \<Rightarrow> entry \<Rightarrow> bytes option" where
  "MarshalBinary cd r =
     (case cd_DumpResponse cd (ent_Data r) of
        None \<Rightarrow> None | Some respBytes \<Rightarrow> Some (WriteTo cd r @ respBytes))"

datatype entry_error = errReadBytes | errInvalidMetaLine nat | errInvalidResponse

definition parse_nano :: "codec \<Rightarrow> string \<Rightarrow> time" where
  "parse_nano cd s = (case cd_ParseNano cd s of Some t \<Rightarrow> t | None \<Rightarrow> 0)"

definition ParseResponse :: "codec \<Rightarrow> bytes \<Rightarrow> http_request \<Rightarrow> entry_error + entry" where
  "ParseResponse cd data req =
     (if newline \<notin> set data then Inl errReadBytes
      else
        let (line, rest, _) = Cut data newline;
            metaLine = TrimSpace (line @ [newline]);
            parts = Split metaLine tab
        in if length parts \<noteq> 3 then Inl (errInvalidMetaLine (length parts))
           else case cd_ReadResponse cd rest req of
                  None \<Rightarrow> Inl errInvalidResponse
                | Some r \<Rightarrow>
                    Inr \<lparr>ent_ID = parts ! 0, ent_Data = r,
                      ent_RequestedAt = parse_nano cd (parts ! 1),
                      ent_ReceivedAt = parse_nano cd (parts ! 2)\<rparr>)"

definition ResponseIDs :: "ResponseRefs \<Rightarrow> string list" where
  "ResponseIDs refs = map ref_ResponseID refs"

subsection \<open>The response cache over a backend\<close>

text \<open>A \<open>CacheError op key\<close>: the operation and the key its message quotes.\<close>

definition rc_Get ::
  "codec \<Rightarrow> 's conn \<Rightarrow> 's \<Rightarrow> string \<Rightarrow> http_request \<Rightarrow> (cache_error + entry) \<times> 's" where
  "rc_Get cd conn s responseKey req =
     (case conn_Get conn s responseKey of
        (Inl err, s) \<Rightarrow> (Inl err, s)
      | (Inr data, s) \<Rightarrow>
          (case ParseResponse cd data req of
             Inl _ \<Rightarrow> (Inl (CacheError ''Get'' responseKey), s)
           | Inr entry \<Rightarrow> (Inr entry, s)))"

definition rc_Set ::
  "codec \<Rightarrow> 's conn \<Rightarrow> 's \<Rightarrow> string \<Rightarrow> entry \<Rightarrow> cache_error option \<times> 's" where
  "rc_Set cd conn s responseKey entry =
     (case MarshalBinary cd entry of
        None \<Rightarrow> (Some (CacheError ''Set'' responseKey), s)
      | Some data \<Rightarrow> conn_Set conn s responseKey data)"

definition rc_Delete :: "'s conn \<Rightarrow> 's \<Rightarrow> string \<Rightarrow> cache_error option \<times> 's" where
  "rc_Delete conn s key = conn_Delete conn s key"

definition rc_GetRefs ::
  "codec \<Rightarrow> 's conn \<Rightarrow> 's \<Rightarrow> string \<Rightarrow> (cache_error + ResponseRefs) \<times> 's" where
  "rc_GetRefs cd conn s urlKey =
     (case conn_Get conn s urlKey of
        (Inl err, s) \<Rightarrow> (Inl err, s)
      | (Inr data, s) \<Rightarrow>
          (case cd_UnmarshalRefs cd data of
             None \<Rightarrow> (Inl (CacheError ''GetRefs'' urlKey), s)
           | Some refs \<Rightarrow> (Inr refs, s)))"

definition rc_SetRefs ::
  "codec \<Rightarrow> 's conn \<Rightarrow> 's \<Rightarrow> string \<Rightarrow> ResponseRefs \<Rightarrow> cache_error option \<times> 's" where
  "rc_SetRefs cd conn s urlKey refs =
     (case cd_MarshalRefs cd refs of
        None \<Rightarrow> (Some (CacheError ''SetRefs'' urlKey), s)
      | Some data \<Rightarrow> conn_Set conn s urlKey data)"

text \<open>\<open>refs, _ := cache.GetRefs(urlKey)\<close>: an error leaves the nil slice.\<close>

definition refs_or_nil :: "cache_error + ResponseRefs \<Rightarrow> ResponseRefs" where
  "refs_or_nil r = (case r of Inl _ \<Rightarrow> [] | Inr refs \<Rightarrow> refs)"

subsection \<open>What survives storing\<close>

text \<open>
  An entry, or a list of references, that the codec reads back as it was written. What the
  standard library promises about its formats enters the properties through these two.
\<close>

definition storable :: "codec \<Rightarrow> http_request \<Rightarrow> entry \<Rightarrow> bool" where
  "storable cd req e \<longleftrightarrow>
     (case MarshalBinary cd e of None \<Rightarrow> False | Some d \<Rightarrow> ParseResponse cd d req = Inr e)"

definition storable_refs :: "codec \<Rightarrow> ResponseRefs \<Rightarrow> bool" where
  "storable_refs cd refs \<longleftrightarrow>
     (case cd_MarshalRefs cd refs of None \<Rightarrow> False | Some d \<Rightarrow> cd_UnmarshalRefs cd d = Some refs)"

text \<open>The entry and the references that a backend's contents hold under a key.\<close>

definition stored_entry :: "codec \<Rightarrow> (string \<rightharpoonup> bytes) \<Rightarrow> string \<Rightarrow> http_request \<Rightarrow> entry option" where
  "stored_entry cd m k req =
     (case m k of
        None \<Rightarrow> None
      | Some d \<Rightarrow> (case ParseResponse cd d req of Inl _ \<Rightarrow> None | Inr e \<Rightarrow> Some e))"

definition stored_refs :: "codec \<Rightarrow> (string \<rightharpoonup> bytes) \<Rightarrow> string \<Rightarrow> ResponseRefs" where
  "stored_refs cd m k =
     (case m k of
        None \<Rightarrow> []
      | Some d \<Rightarrow> (case cd_UnmarshalRefs cd d of None \<Rightarrow> [] | Some refs \<Rightarrow> refs))"

subsection \<open>Lemmas on the framing\<close>

text \<open>
  The metadata line: the ID begins with a byte that is no space, the last time ends with one, and
  no field holds a separator.
\<close>

definition meta_field :: "string \<Rightarrow> bool" where
  "meta_field s \<longleftrightarrow> s \<noteq> [] \<and> (\<forall>c \<in> set s. 33 \<le> ord c \<and> ord c < 127)"

lemma has_prefix_head: "has_prefix w s \<Longrightarrow> w \<noteq> [] \<Longrightarrow> s \<noteq> [] \<and> hd s = hd w"
  by (cases w; cases s) auto

lemma seq_len_zero:
  "\<forall>w \<in> set ws. w \<noteq> [] \<and> hd w \<noteq> c \<Longrightarrow> seq_len ws (c # s) = 0"
  by (induction ws) (auto dest: has_prefix_head)

lemma seq_len_one:
  "\<forall>w \<in> set ws. w = [c] \<or> w \<noteq> [] \<and> hd w \<noteq> c \<Longrightarrow> [c] \<in> set ws \<Longrightarrow> seq_len ws (c # s) = 1"
  by (induction ws) (auto dest: has_prefix_head)

lemma utf8_space_ends:
  "list_all (\<lambda>w. w \<noteq> [] \<and> (ord (hd w) < 33 \<or> 127 \<le> ord (hd w)) \<and>
     (ord (last w) < 33 \<or> 127 \<le> ord (last w))) utf8_spaces"
  by (simp add: utf8_spaces_def)

lemma newline_space:
  "list_all (\<lambda>w. w = [char_of (10 :: nat)] \<or> w \<noteq> [] \<and> ord (hd w) \<noteq> 10) (map rev utf8_spaces)"
  "list_ex (\<lambda>w. w = [char_of (10 :: nat)]) (map rev utf8_spaces)"
  by (simp_all add: utf8_spaces_def)

lemma trim_seqs_stop:
  assumes "33 \<le> ord c" "ord c < 127"
  shows "trim_seqs utf8_spaces (c # s) = c # s" "trim_seqs (map rev utf8_spaces) (c # s) = c # s"
proof -
  have "\<forall>w \<in> set utf8_spaces. w \<noteq> [] \<and> hd w \<noteq> c" using utf8_space_ends assms by (fastforce simp: list_all_iff)
  moreover have "\<forall>w \<in> set (map rev utf8_spaces). w \<noteq> [] \<and> hd w \<noteq> c"
    using utf8_space_ends assms by (fastforce simp: hd_rev list_all_iff)
  ultimately show "trim_seqs utf8_spaces (c # s) = c # s" "trim_seqs (map rev utf8_spaces) (c # s) = c # s"
    using seq_len_zero by (simp_all add: trim_seqs.simps)
qed

lemma trim_newline: "trim_seqs (map rev utf8_spaces) (newline # s) = trim_seqs (map rev utf8_spaces) s"
proof -
  have nl: "newline = char_of (10 :: nat)" by code_simp
  have "seq_len (map rev utf8_spaces) (newline # s) = 1"
  proof (rule seq_len_one)
    show "\<forall>w \<in> set (map rev utf8_spaces). w = [newline] \<or> w \<noteq> [] \<and> hd w \<noteq> newline"
      using newline_space(1) unfolding list_all_iff nl by fastforce
    show "[newline] \<in> set (map rev utf8_spaces)"
      using newline_space(2) unfolding list_ex_iff nl by blast
  qed
  then show ?thesis by (subst trim_seqs.simps) simp
qed

lemma TrimSpace_line:
  assumes "meta_field s" "meta_field t"
  shows "TrimSpace (s @ u @ t @ [newline]) = s @ u @ t"
proof -
  obtain c s' where s: "s = c # s'" "33 \<le> ord c" "ord c < 127"
    using assms(1) by (cases s) (auto simp: meta_field_def)
  obtain d t' where t: "rev t = d # t'" "33 \<le> ord d" "ord d < 127"
    using assms(2) by (cases "rev t") (auto simp: meta_field_def)
  have front: "trim_seqs utf8_spaces (s @ u @ t @ [newline]) = s @ u @ t @ [newline]"
    using trim_seqs_stop(1) s by simp
  have "trim_seqs (map rev utf8_spaces) (rev (s @ u @ t)) = rev (s @ u @ t)"
    using trim_seqs_stop(2) [OF t(2,3), of "t' @ rev u @ rev s"] t(1) by simp
  with trim_newline [of "rev (s @ u @ t)"] show ?thesis
    by (simp add: TrimSpace_def front)
qed

lemma meta_field_plain: "meta_field s \<Longrightarrow> tab \<notin> set s \<and> newline \<notin> set s"
  by (auto simp: meta_field_def)

lemma Cut_line: "newline \<notin> set s \<Longrightarrow> Cut (s @ newline # t) newline = (s, t, True)"
  by (rule Cut_present)

text \<open>The codec laws of one entry: its ID and times are plain fields that parse back.\<close>

definition codec_entry :: "codec \<Rightarrow> http_request \<Rightarrow> entry \<Rightarrow> bool" where
  "codec_entry cd req e \<longleftrightarrow>
     meta_field (ent_ID e) \<and>
     (\<forall>t \<in> {ent_RequestedAt e, ent_ReceivedAt e}.
        meta_field (cd_FormatNano cd t) \<and> cd_ParseNano cd (cd_FormatNano cd t) = Some t) \<and>
     (case cd_DumpResponse cd (ent_Data e) of
        None \<Rightarrow> False | Some d \<Rightarrow> cd_ReadResponse cd d req = Some (ent_Data e))"

lemma codec_entry_storable:
  assumes "codec_entry cd req e"
  shows "storable cd req e"
proof -
  let ?a = "ent_ID e" and ?b = "cd_FormatNano cd (ent_RequestedAt e)" and ?c = "cd_FormatNano cd (ent_ReceivedAt e)"
  have fields: "meta_field ?a" "meta_field ?b" "meta_field ?c"
    and times: "parse_nano cd ?b = ent_RequestedAt e" "parse_nano cd ?c = ent_ReceivedAt e"
    using assms by (simp_all add: codec_entry_def parse_nano_def)
  obtain d where d: "cd_DumpResponse cd (ent_Data e) = Some d" "cd_ReadResponse cd d req = Some (ent_Data e)"
    using assms by (auto simp: codec_entry_def split: option.splits)
  let ?line = "?a @ (tab # ?b @ [tab]) @ ?c"
  have data: "WriteTo cd e @ d = ?line @ newline # d" by (simp add: WriteTo_def)
  have "newline \<notin> set ?line" using fields by (auto dest: meta_field_plain)
  then have cut: "Cut (?line @ newline # d) newline = (?line, d, True)" by (rule Cut_line)
  have trim: "TrimSpace (?line @ [newline]) = ?line"
    using TrimSpace_line [OF fields(1,3), of "tab # ?b @ [tab]"] by simp
  have "?line = Join [?a, ?b, ?c] [tab]" by simp
  moreover have "Split (Join [?a, ?b, ?c] [tab]) tab = [?a, ?b, ?c]"
    using fields by (intro Split_Join) (auto dest: meta_field_plain)
  ultimately have split: "Split ?line tab = [?a, ?b, ?c]" by simp
  show ?thesis
    using d by (simp add: storable_def MarshalBinary_def data ParseResponse_def cut trim split times
        del: append_assoc append_Cons)
qed

subsection \<open>The response cache keeps the contract of its backend\<close>

context driver_conn
begin

lemma rc_Get_result:
  assumes "invar s" "good k"
  shows "(case fst (rc_Get cd cache s k req) of Inl _ \<Rightarrow> None | Inr e \<Rightarrow> Some e)
      = stored_entry cd (contents s) k req"
    and "contents (snd (rc_Get cd cache s k req)) = contents s"
    and "invar (snd (rc_Get cd cache s k req))"
  using get_result [OF assms] get_contents [OF assms] get_invar [OF assms]
  by (cases "conn_Get cache s k";
      auto simp: rc_Get_def stored_entry_def split: sum.splits option.splits)+

lemma rc_GetRefs_result:
  assumes "invar s" "good k"
  shows "refs_or_nil (fst (rc_GetRefs cd cache s k)) = stored_refs cd (contents s) k"
    and "contents (snd (rc_GetRefs cd cache s k)) = contents s"
    and "invar (snd (rc_GetRefs cd cache s k))"
  using get_result [OF assms] get_contents [OF assms] get_invar [OF assms]
  by (cases "conn_Get cache s k";
      auto simp: rc_GetRefs_def stored_refs_def refs_or_nil_def split: sum.splits option.splits)+

lemma rc_Set_result:
  assumes "invar s" "good k"
  shows "contents (snd (rc_Set cd cache s k e)) =
      (case MarshalBinary cd e of None \<Rightarrow> contents s | Some d \<Rightarrow> (contents s)(k \<mapsto> d))"
    and "invar (snd (rc_Set cd cache s k e))"
  using set_contents [OF assms] set_invar [OF assms] assms
  by (simp_all add: rc_Set_def split: option.split)

lemma rc_SetRefs_result:
  assumes "invar s" "good k"
  shows "contents (snd (rc_SetRefs cd cache s k refs)) =
      (case cd_MarshalRefs cd refs of None \<Rightarrow> contents s | Some d \<Rightarrow> (contents s)(k \<mapsto> d))"
    and "invar (snd (rc_SetRefs cd cache s k refs))"
  using set_contents [OF assms] set_invar [OF assms] assms
  by (simp_all add: rc_SetRefs_def split: option.split)

lemma rc_Delete_result:
  assumes "invar s" "good k"
  shows "contents (snd (rc_Delete cache s k)) = (contents s)(k := None)"
    and "invar (snd (rc_Delete cache s k))"
  using assms by (simp_all add: rc_Delete_def conn_specs)

lemmas rc_specs = rc_Get_result(2,3) rc_GetRefs_result rc_Set_result rc_SetRefs_result rc_Delete_result

lemma rc_Get_after_Set:
  assumes "invar s" "good k" "storable cd req e"
  shows "fst (rc_Get cd cache (snd (rc_Set cd cache s k e)) k req) = Inr e"
proof -
  let ?s = "snd (rc_Set cd cache s k e)"
  have "stored_entry cd (contents ?s) k req = Some e"
    using assms by (auto simp: rc_Set_result stored_entry_def storable_def split: option.splits)
  moreover have "invar ?s" using assms by (simp add: rc_Set_result)
  ultimately show ?thesis
    using rc_Get_result(1) [OF _ assms(2), of ?s cd req] by (simp split: sum.splits)
qed

end

lemma stored_entry_cong: "m k = m' k \<Longrightarrow> stored_entry cd m k req = stored_entry cd m' k req"
  by (simp add: stored_entry_def)

lemma stored_refs_cong: "m k = m' k \<Longrightarrow> stored_refs cd m k = stored_refs cd m' k"
  by (simp add: stored_refs_def)

end
