(* ===== verification/Normalization.thy ===== *)
theory Normalization
  imports Http Float64
begin

text \<open>
  \<open>internal/normalization.go\<close>: the normal form of a request header value, by which two requests
  are compared when a response varies, the resolution of a \<open>Vary\<close> value against a request, and
  the key under which a variant is stored.
\<close>

subsection \<open>Header classes\<close>

definition byQValue :: "string list" where
  "byQValue = [''Accept'', ''Accept-Charset'', ''Accept-Language'']"

definition byEncoding :: "string list" where
  "byEncoding = [''Content-Encoding'', ''Accept-Encoding'', ''TE'']"

definition byTimeInsensitive :: "string list" where
  "byTimeInsensitive = [''If-Modified-Since'', ''If-Unmodified-Since'', ''Date'']"

definition byOrderInsensitive :: "string list" where
  "byOrderInsensitive =
     [''Cache-Control'', ''Connection'', ''Content-Language'', ''Expect'', ''Pragma'', ''Upgrade'', ''Vary'', ''Via'']"

definition byCaseInsensitive :: "string list" where
  "byCaseInsensitive =
     [''Content-Type'', ''Content-Disposition'', ''Host'', ''Referer'', ''User-Agent'', ''Server'', ''Origin'']"

subsection \<open>Lists without quality values\<close>

definition normalizeOrderInsensitive :: "string \<Rightarrow> string" where
  "normalizeOrderInsensitive value = Join (sort (TrimmedCSV value)) '',''"

text \<open>\<open>encodingReplacer\<close>: at each position the first old string that matches is replaced.\<close>

function encoding_replace :: "string \<Rightarrow> string" where
  "encoding_replace s =
     (if has_prefix ''x-gzip'' s then ''gzip'' @ encoding_replace (drop 6 s)
      else if has_prefix ''x-compress'' s then ''compress'' @ encoding_replace (drop 10 s)
      else case s of [] \<Rightarrow> [] | c # cs \<Rightarrow> c # encoding_replace cs)"
  by pat_completeness auto
termination
  by (relation "measure length") (auto simp: neq_Nil_conv elim: has_prefix.elims)

declare encoding_replace.simps [simp del]

definition normalizeEncodingHeader :: "string \<Rightarrow> string" where
  "normalizeEncodingHeader value = normalizeOrderInsensitive (encoding_replace value)"

subsection \<open>Lists with quality values\<close>

text \<open>The doubles nearest to 0.001 and 1.0.\<close>

definition min_q :: rat where
  "min_q = 1152921504606847 / 1152921504606846976"

definition maxQValue :: float64 where
  "maxQValue = FFin 1"

definition clamp_q :: "float64 \<Rightarrow> float64" where
  "clamp_q f =
     (case f of
        FNaN \<Rightarrow> FNaN | FNegInf \<Rightarrow> FFin min_q | FPosInf \<Rightarrow> FFin 1
      | FFin r \<Rightarrow> FFin (min (max r min_q) 1))"

record qualityValue =
  qv_main :: string
  qv_q :: float64
  qv_params :: "string list"

text \<open>The parameters of one list member; \<open>None\<close> when a zero weight drops the member.\<close>

fun param_loop ::
  "golib \<Rightarrow> float64 \<Rightarrow> string list \<Rightarrow> string list \<Rightarrow> (float64 \<times> string list) option" where
  "param_loop lib q params [] = Some (q, params)"
| "param_loop lib q params (p # ps) =
     (let param = TrimSpace p in
      if 2 < length param \<and> EqualFold lib (take 2 param) ''q='' then
        (let qRaw = drop 2 param in
         if qRaw = ''0'' \<or> qRaw = ''0.0'' then None
         else case lib_ParseFloat lib qRaw of
                Some qVal \<Rightarrow> param_loop lib (clamp_q qVal) params ps
              | None \<Rightarrow> param_loop lib q params ps)
      else if param \<noteq> [] then param_loop lib q (params @ [param]) ps
      else param_loop lib q params ps)"

definition quality_part :: "golib \<Rightarrow> string \<Rightarrow> qualityValue option" where
  "quality_part lib part =
     (let (main, allParamsRaw, found) = Cut part CHR '';'' in
      if \<not> found then Some \<lparr>qv_main = main, qv_q = maxQValue, qv_params = []\<rparr>
      else case param_loop lib maxQValue [] (Split allParamsRaw CHR '';'') of
             None \<Rightarrow> None
           | Some (q, params) \<Rightarrow> Some \<lparr>qv_main = main, qv_q = q, qv_params = sort params\<rparr>)"

text \<open>\<open>cmp.Compare\<close> on floats: NaN is equal to itself and below every other value.\<close>

fun float_rank :: "float64 \<Rightarrow> int \<times> rat" where
  "float_rank FNaN = (0, 0)"
| "float_rank FNegInf = (1, 0)"
| "float_rank (FFin r) = (2, r)"
| "float_rank FPosInf = (3, 0)"

definition cmp_float :: "float64 \<Rightarrow> float64 \<Rightarrow> int" where
  "cmp_float a b =
     cmp_Or (cmp_Compare (fst (float_rank a)) (fst (float_rank b)))
       (cmp_Compare (snd (float_rank a)) (snd (float_rank b)))"

definition star_count :: "string \<Rightarrow> nat" where
  "star_count s = length (filter (\<lambda>c. c = CHR ''*'') s)"

definition cmp_quality :: "qualityValue \<Rightarrow> qualityValue \<Rightarrow> int" where
  "cmp_quality a b =
     cmp_Or (cmp_float (qv_q b) (qv_q a))
    (cmp_Or (cmp_Compare (star_count (qv_main a)) (star_count (qv_main b)))
    (cmp_Or (cmp_Compare (qv_main a) (qv_main b))
    (cmp_Or (cmp_Compare (length (qv_params b)) (length (qv_params a)))
            (cmp_Compare (qv_params a) (qv_params b)))))"

text \<open>\<open>slices.CompactFunc\<close>: an element goes when its neighbour to the left has its main value.\<close>

fun compact_loop :: "qualityValue \<Rightarrow> qualityValue list \<Rightarrow> qualityValue list" where
  "compact_loop prev [] = []"
| "compact_loop prev (x # xs) =
     (if qv_main x = qv_main prev then compact_loop x xs else x # compact_loop x xs)"

fun compact_quality :: "qualityValue list \<Rightarrow> qualityValue list" where
  "compact_quality [] = []"
| "compact_quality (x # xs) = x # compact_loop x xs"

definition trim_right_zeros :: "string \<Rightarrow> string" where
  "trim_right_zeros s = rev (dropWhile (\<lambda>c. c = CHR ''0'') (rev s))"

definition trim_suffix_dot :: "string \<Rightarrow> string" where
  "trim_suffix_dot s = (if s \<noteq> [] \<and> last s = CHR ''.'' then butlast s else s)"

text \<open>\<open>strconv.FormatFloat(q, 'f', 3, 64)\<close> for the values a quality can have.\<close>

definition format_3 :: "float64 \<Rightarrow> string" where
  "format_3 q =
     (case q of
        FNaN \<Rightarrow> ''NaN'' | FNegInf \<Rightarrow> ''-Inf'' | FPosInf \<Rightarrow> ''+Inf''
      | FFin r \<Rightarrow>
          let m = round_half_even (\<bar>r\<bar> * 1000); k = nat (m mod 1000)
          in (if r < 0 then ''-'' else []) @ nat_digits (nat (m div 1000)) @ ''.'' @
             [char_of (48 + k div 100), char_of (48 + k div 10 mod 10), char_of (48 + k mod 10)])"

definition formatQValue :: "float64 \<Rightarrow> string" where
  "formatQValue q = trim_suffix_dot (trim_right_zeros (format_3 q))"

definition render_quality :: "qualityValue \<Rightarrow> string" where
  "render_quality qp =
     qv_main qp @ concat (map (\<lambda>p. '';'' @ p) (qv_params qp)) @
     (if qv_q qp \<noteq> maxQValue then '';q='' @ formatQValue (qv_q qp) else [])"

definition normalizeOrderInsensitiveWithQValues :: "golib \<Rightarrow> string \<Rightarrow> string" where
  "normalizeOrderInsensitiveWithQValues lib value =
     (let qualityParts = List.map_filter (quality_part lib) (TrimmedCSV value);
          qualityParts = SortFunc cmp_quality qualityParts;
          qualityParts = compact_quality qualityParts
      in Join (map render_quality qualityParts) '','')"

subsection \<open>The normal form of a value\<close>

definition normalizeHeaderValue :: "golib \<Rightarrow> string \<Rightarrow> string \<Rightarrow> string" where
  "normalizeHeaderValue lib field value =
     (if value = [] then []
      else if field \<in> set byEncoding then
        (let value = normalizeEncodingHeader value in
         if field = ''Content-Encoding'' then value
         else normalizeOrderInsensitiveWithQValues lib value)
      else if field \<in> set byQValue then normalizeOrderInsensitiveWithQValues lib value
      else if field \<in> set byOrderInsensitive then normalizeOrderInsensitive value
      else if field \<in> set byCaseInsensitive then ToLower lib value
      else if field \<in> set byTimeInsensitive then TrimSpace value
      else if field = ''Authorization'' then
        (let (before, after, found) = Cut value CHR '' '' in
         if found then ToLower lib before @ '' '' @ after else value)
      else value)"

subsection \<open>Vary\<close>

text \<open>
  \<open>nominated_value\<close> is the value a request has for a header a response varies on: the normal
  form of its first line, the empty string when it has none.
\<close>

definition nominated_value :: "golib \<Rightarrow> header \<Rightarrow> string \<Rightarrow> string" where
  "nominated_value lib reqHeader name =
     (case header_values reqHeader name of [] \<Rightarrow> [] | v # _ \<Rightarrow> normalizeHeaderValue lib name v)"

definition normalizedVaryHeader :: "golib \<Rightarrow> string \<Rightarrow> header \<Rightarrow> (string \<times> string) list" where
  "normalizedVaryHeader lib vary reqHeader =
     map (\<lambda>name. (name, nominated_value lib reqHeader name)) (TrimmedCSVCanonical vary)"

definition vary_resolved :: "golib \<Rightarrow> string \<Rightarrow> header \<Rightarrow> (string \<times> string) list" where
  "vary_resolved lib vary reqHeader =
     fold (\<lambda>(k, v) m. AList.update k v m) (normalizedVaryHeader lib vary reqHeader) []"

definition vary_bytes :: "(string \<times> string) list \<Rightarrow> string" where
  "vary_bytes vary =
     concat (map (\<lambda>k. k @ (case map_of vary k of Some v \<Rightarrow> v | None \<Rightarrow> [])) (sort (map fst vary)))"

definition makeVaryHash :: "(string \<times> string) list \<Rightarrow> nat" where
  "makeVaryHash vary = unat (fnv_write fnv_offset (vary_bytes vary))"

definition noVaryHash :: string where
  "noVaryHash = ''0''"

definition makeVaryKey :: "string \<Rightarrow> (string \<times> string) list \<Rightarrow> string" where
  "makeVaryKey urlKey varyHeaders =
     (if length varyHeaders = 0 then urlKey @ ''#'' @ noVaryHash
      else urlKey @ ''#'' @ FormatUint (makeVaryHash varyHeaders))"

subsection \<open>Lemmas on lists\<close>

text \<open>Two header values with the same list members in any order have the same normal form.\<close>

lemma normalizeOrderInsensitive_mset:
  "mset (TrimmedCSV a) = mset (TrimmedCSV b) \<Longrightarrow>
   normalizeOrderInsensitive a = normalizeOrderInsensitive b"
  unfolding normalizeOrderInsensitive_def
  by (metis mset_sort properties_for_sort sorted_sort)

lemma normalizeOrderInsensitive_members:
  assumes "\<forall>p \<in> set (TrimmedCSV a). csv_part p"
  shows "TrimmedCSV (normalizeOrderInsensitive a) = sort (TrimmedCSV a)"
  unfolding normalizeOrderInsensitive_def using assms by (intro TrimmedCSV_Join) simp

lemma normalizeOrderInsensitive_idem:
  "\<forall>p \<in> set (TrimmedCSV a). csv_part p \<Longrightarrow>
   normalizeOrderInsensitive (normalizeOrderInsensitive a) = normalizeOrderInsensitive a"
  by (subst (1) normalizeOrderInsensitive_def)
    (simp add: normalizeOrderInsensitive_members, simp add: normalizeOrderInsensitive_def sorted_sort_id)

subsection \<open>Lemmas on quality values\<close>

lemma go_cmp_compare: "go_cmp (\<lambda>x y. cmp_Compare (h x) (h y))"
  using go_cmp_image [OF compare.go_cmp_axioms, of h] .

lemma go_cmp_float: "go_cmp cmp_float"
proof -
  have "go_cmp (\<lambda>a b. cmp_Or (cmp_Compare (fst (float_rank a)) (fst (float_rank b)))
       (cmp_Compare (snd (float_rank a)) (snd (float_rank b))))"
    by (intro go_cmp_Or go_cmp_compare)
  then show ?thesis by (simp add: cmp_float_def [abs_def])
qed

lemma go_cmp_quality: "go_cmp cmp_quality"
proof -
  have "go_cmp (\<lambda>a b. cmp_Or (cmp_float (qv_q b) (qv_q a))
    (cmp_Or (cmp_Compare (star_count (qv_main a)) (star_count (qv_main b)))
    (cmp_Or (cmp_Compare (qv_main a) (qv_main b))
    (cmp_Or (cmp_Compare (length (qv_params b)) (length (qv_params a)))
            (cmp_Compare (qv_params a) (qv_params b))))))"
    by (intro go_cmp_Or go_cmp_compare go_cmp_flip [OF go_cmp_compare]
        go_cmp_flip [OF go_cmp_image [OF go_cmp_float]])
  then show ?thesis by (simp add: cmp_quality_def [abs_def])
qed

lemma cmp_Or_zero: "cmp_Or a b = 0 \<longleftrightarrow> a = 0 \<and> b = 0"
  by (simp add: cmp_Or_def)

lemma float_rank_inject: "float_rank a = float_rank b \<Longrightarrow> a = b"
  by (cases a; cases b) simp_all

lemma cmp_float_zero: "cmp_float a b = 0 \<Longrightarrow> a = b"
  by (auto simp: cmp_float_def cmp_Or_zero cmp_Compare_sign intro!: float_rank_inject prod_eqI)

lemma cmp_quality_zero: "cmp_quality a b = 0 \<Longrightarrow> a = b"
  by (auto simp: cmp_quality_def cmp_Or_zero cmp_Compare_sign dest!: cmp_float_zero)

interpretation quality: go_total_cmp cmp_quality
  by (intro go_total_cmp.intro go_cmp_quality go_total_cmp_axioms.intro cmp_quality_zero)

lemma mset_map_filter_cong:
  "mset xs = mset ys \<Longrightarrow> mset (List.map_filter f xs) = mset (List.map_filter f ys)"
  unfolding List.map_filter_def by (simp only: mset_map mset_filter)

lemma normalize_quality_mset:
  assumes "mset (TrimmedCSV a) = mset (TrimmedCSV b)"
  shows "normalizeOrderInsensitiveWithQValues lib a = normalizeOrderInsensitiveWithQValues lib b"
  using quality.SortFunc_mset [OF mset_map_filter_cong [OF assms, of "quality_part lib"]]
  by (simp add: normalizeOrderInsensitiveWithQValues_def)

subsection \<open>Lemmas on Vary\<close>

lemma map_of_vary_resolved:
  "map_of (vary_resolved lib vary h) = map_of (rev (normalizedVaryHeader lib vary h))"
  by (simp add: vary_resolved_def map_of_fold_update)

lemma distinct_vary_resolved: "distinct (map fst (vary_resolved lib vary h))"
  by (simp add: vary_resolved_def distinct_fold_update)

lemma vary_resolved_value:
  "map_of (vary_resolved lib vary h) k =
     (if k \<in> set (TrimmedCSVCanonical vary) then Some (nominated_value lib h k) else None)"
proof -
  have "map_of (map (\<lambda>n. (n, f n)) ns) k = (if k \<in> set ns then Some (f k) else None)"
    for ns :: "string list" and f :: "string \<Rightarrow> string" and k
    by (induction ns) auto
  then show ?thesis
    by (simp add: map_of_vary_resolved normalizedVaryHeader_def rev_map)
qed

lemma set_vary_resolved:
  "(k, v) \<in> set (vary_resolved lib vary h) \<Longrightarrow>
   k \<in> set (TrimmedCSVCanonical vary) \<and> v = nominated_value lib h k"
  using map_of_is_SomeI [OF distinct_vary_resolved, of k v lib vary h]
  by (auto simp: vary_resolved_value split: if_splits)

text \<open>The hash depends on the map only, not on the order its entries are listed in.\<close>

lemma vary_bytes_map_of:
  assumes "distinct (map fst a)" "distinct (map fst b)" "map_of a = map_of b"
  shows "vary_bytes a = vary_bytes b"
proof -
  have "set (map fst a) = set (map fst b)"
    using assms(3) by (metis dom_map_of_conv_image_fst set_map)
  with assms have "sort (map fst a) = sort (map fst b)"
    by (metis distinct_sort set_sort sorted_distinct_set_unique sorted_sort)
  with assms(3) show ?thesis by (simp add: vary_bytes_def)
qed

lemma makeVaryKey_map_of:
  assumes "distinct (map fst a)" "distinct (map fst b)" "map_of a = map_of b"
  shows "makeVaryKey u a = makeVaryKey u b"
proof -
  have "a = [] \<longleftrightarrow> b = []" using assms(3) by (metis map_of_eq_empty_iff)
  with vary_bytes_map_of [OF assms] show ?thesis by (simp add: makeVaryKey_def makeVaryHash_def)
qed

lemma no_hash_suffix:
  "CHR ''#'' \<notin> set a \<Longrightarrow> CHR ''#'' \<notin> set b \<Longrightarrow> a @ CHR ''#'' # s = b @ CHR ''#'' # t \<Longrightarrow> a = b \<and> s = t"
  by (induction a arbitrary: b) (auto simp: append_eq_Cons_conv Cons_eq_append_conv)

lemma makeVaryKey_split:
  "\<exists>h. makeVaryKey u v = u @ CHR ''#'' # h \<and> CHR ''#'' \<notin> set h"
  by (auto simp: makeVaryKey_def noVaryHash_def FormatUint_def no_hash_nat_digits)

lemma makeVaryKey_hash: "CHR ''#'' \<in> set (makeVaryKey u v)"
  using makeVaryKey_split [of u v] by auto

lemma makeVaryKey_url_inject:
  "CHR ''#'' \<notin> set u \<Longrightarrow> CHR ''#'' \<notin> set u' \<Longrightarrow> makeVaryKey u v = makeVaryKey u' v' \<Longrightarrow> u = u'"
  using makeVaryKey_split [of u v] makeVaryKey_split [of u' v'] no_hash_suffix by metis

subsection \<open>Properties\<close>

text \<open>
  Two header values with the same list members in any order have the same normal form, with
  quality values or without.
\<close>

theorem member_order_is_irrelevant:
  assumes "mset (TrimmedCSV a) = mset (TrimmedCSV b)"
  shows "normalizeOrderInsensitive a = normalizeOrderInsensitive b \<and>
    normalizeOrderInsensitiveWithQValues lib a = normalizeOrderInsensitiveWithQValues lib b"
  using normalizeOrderInsensitive_mset normalize_quality_mset assms by blast

theorem member_order_is_irrelevant_witness:
  "\<forall>lib. normalizeOrderInsensitiveWithQValues lib ''gzip, br'' = normalizeOrderInsensitiveWithQValues lib ''br,gzip''"
proof -
  have "mset (TrimmedCSV ''gzip, br'') = mset (TrimmedCSV ''br,gzip'')"
    by (simp add: TrimmedCSV_def csv_emit_def TrimString_def is_ascii_space_def backslash_def dquote_def)
  from member_order_is_irrelevant [OF this] show ?thesis by blast
qed

end
