(* ===== verification/VaryMatcher.thy ===== *)
theory VaryMatcher
  imports ResponseCache Normalization
begin

text \<open>
  \<open>internal/varymatcher.go\<close>: the stored response that a request selects. The references are
  sorted in place, those with a \<open>Vary\<close> value first and \<open>Vary: *\<close> last, and the first reference
  whose nominated header values are the request's is selected.
\<close>

definition cmp_ref :: "ResponseRef \<Rightarrow> ResponseRef \<Rightarrow> int" where
  "cmp_ref a b =
     (let aVary = TrimSpace (ref_Vary a); bVary = TrimSpace (ref_Vary b);
          aIsStar = (aVary = ''*''); bIsStar = (bVary = ''*'');
          aHasVary = (aVary \<noteq> []); bHasVary = (bVary \<noteq> [])
      in if aIsStar \<and> \<not> bIsStar then 1
         else if bIsStar \<and> \<not> aIsStar then -1
         else if aHasVary \<and> \<not> bHasVary then -1
         else if \<not> aHasVary \<and> bHasVary then 1
         else cmp_Compare (ref_ReceivedAt a) (ref_ReceivedAt b))"

definition varyHeadersMatchOne :: "golib \<Rightarrow> ResponseRef \<Rightarrow> header \<Rightarrow> bool" where
  "varyHeadersMatchOne lib entry reqHeader =
     (if ref_Vary entry = ''*'' then False
      else list_all
        (\<lambda>(field, value).
          let reqValues = header_values reqHeader field;
              reqValue = (if 0 < length reqValues then normalizeHeaderValue lib field (hd reqValues) else [])
          in reqValue = value)
        (ref_VaryResolved entry))"

fun first_match :: "golib \<Rightarrow> nat \<Rightarrow> ResponseRefs \<Rightarrow> header \<Rightarrow> nat option" where
  "first_match lib i [] reqHdr = None"
| "first_match lib i (entry # entries) reqHdr =
     (if varyHeadersMatchOne lib entry reqHdr then Some i
      else first_match lib (Suc i) entries reqHdr)"

text \<open>The sorted references, which the caller's slice holds afterwards, and the index.\<close>

definition VaryHeadersMatch :: "golib \<Rightarrow> ResponseRefs \<Rightarrow> header \<Rightarrow> ResponseRefs \<times> nat option" where
  "VaryHeadersMatch lib entries reqHdr =
     (let entries = SortFunc cmp_ref entries in (entries, first_match lib 0 entries reqHdr))"

subsection \<open>The order of references\<close>

definition star_rank :: "ResponseRef \<Rightarrow> nat" where
  "star_rank r = (if TrimSpace (ref_Vary r) = ''*'' then 1 else 0)"

definition bare_rank :: "ResponseRef \<Rightarrow> nat" where
  "bare_rank r = (if TrimSpace (ref_Vary r) = [] then 1 else 0)"

lemma cmp_ref_Or:
  "cmp_ref = (\<lambda>a b. cmp_Or (cmp_Compare (star_rank a) (star_rank b))
     (cmp_Or (cmp_Compare (bare_rank a) (bare_rank b))
       (cmp_Compare (ref_ReceivedAt a) (ref_ReceivedAt b))))"
  by (auto simp: fun_eq_iff cmp_ref_def Let_def star_rank_def bare_rank_def cmp_Or_def
      cmp_Compare_def)

interpretation vm: go_cmp cmp_ref
  unfolding cmp_ref_Or by (intro go_cmp_Or go_cmp_compare)

lemma cmp_ref_le:
  "cmp_ref a b \<le> 0 \<longleftrightarrow>
     star_rank a < star_rank b \<or> star_rank a = star_rank b \<and>
       (bare_rank a < bare_rank b \<or> bare_rank a = bare_rank b \<and> ref_ReceivedAt a \<le> ref_ReceivedAt b)"
  by (auto simp: cmp_ref_Or cmp_Or_def cmp_Compare_def)

subsection \<open>The selected reference\<close>

lemma varyHeadersMatchOne_iff:
  "varyHeadersMatchOne lib r h \<longleftrightarrow>
     ref_Vary r \<noteq> ''*'' \<and> (\<forall>(k, v) \<in> set (ref_VaryResolved r). nominated_value lib h k = v)"
  by (auto simp: varyHeadersMatchOne_def list_all_iff nominated_value_def Let_def split: list.splits)

lemma first_match_Some:
  "first_match lib i rs h = Some j \<Longrightarrow>
   i \<le> j \<and> j - i < length rs \<and> varyHeadersMatchOne lib (rs ! (j - i)) h \<and>
     (\<forall>n < j - i. \<not> varyHeadersMatchOne lib (rs ! n) h)"
proof (induction lib i rs h rule: first_match.induct)
  case (2 lib i r rs h)
  show ?case
  proof (cases "varyHeadersMatchOne lib r h")
    case True
    with 2 show ?thesis by auto
  next
    case False
    with 2 have IH: "Suc i \<le> j" "j - Suc i < length rs" "varyHeadersMatchOne lib (rs ! (j - Suc i)) h"
      "\<forall>n < j - Suc i. \<not> varyHeadersMatchOne lib (rs ! n) h" by auto
    then have d: "j - i = Suc (j - Suc i)" by simp
    with IH False show ?thesis by (auto simp: nth_Cons split: nat.split)
  qed
qed simp

lemma first_match_None:
  "first_match lib i rs h = None \<longleftrightarrow> (\<forall>r \<in> set rs. \<not> varyHeadersMatchOne lib r h)"
  by (induction lib i rs h rule: first_match.induct) auto

lemma VaryHeadersMatch_sorted:
  "fst (VaryHeadersMatch lib rs h) = SortFunc cmp_ref rs"
  by (simp add: VaryHeadersMatch_def Let_def)

lemma VaryHeadersMatch_found:
  assumes "VaryHeadersMatch lib rs h = (rs', Some i)"
  shows "i < length rs'" "rs' ! i \<in> set rs" "varyHeadersMatchOne lib (rs' ! i) h"
    "\<forall>n < i. \<not> varyHeadersMatchOne lib (rs' ! n) h"
    "\<forall>r \<in> set rs. varyHeadersMatchOne lib r h \<longrightarrow> cmp_ref (rs' ! i) r \<le> 0"
proof -
  have rs': "rs' = SortFunc cmp_ref rs" and m: "first_match lib 0 rs' h = Some i"
    using assms by (auto simp: VaryHeadersMatch_def Let_def)
  show i: "i < length rs'" and "varyHeadersMatchOne lib (rs' ! i) h"
    and before: "\<forall>n < i. \<not> varyHeadersMatchOne lib (rs' ! n) h"
    using first_match_Some [OF m] by simp_all
  show "rs' ! i \<in> set rs" using i nth_mem rs' vm.set_SortFunc by metis
  show "\<forall>r \<in> set rs. varyHeadersMatchOne lib r h \<longrightarrow> cmp_ref (rs' ! i) r \<le> 0"
  proof (intro ballI impI)
    fix r
    assume r: "r \<in> set rs" "varyHeadersMatchOne lib r h"
    then obtain j where j: "j < length rs'" "rs' ! j = r"
      by (metis in_set_conv_nth rs' vm.set_SortFunc)
    with before r(2) have "i \<le> j" by (metis not_less)
    then show "cmp_ref (rs' ! i) r \<le> 0"
      using vm.SortFunc_before [of i j rs] j rs' vm.cmp_refl
      by (cases "i = j") (auto simp: vm.length_SortFunc)
  qed
qed

lemma VaryHeadersMatch_none:
  "snd (VaryHeadersMatch lib rs h) = None \<longleftrightarrow> (\<forall>r \<in> set rs. \<not> varyHeadersMatchOne lib r h)"
  by (simp add: VaryHeadersMatch_def Let_def first_match_None vm.set_SortFunc)

lemma VaryHeadersMatch_single:
  "VaryHeadersMatch lib [r] h = ([r], if varyHeadersMatchOne lib r h then Some 0 else None)"
  by (simp add: VaryHeadersMatch_def SortFunc_def)

end
