(* ===== verification/Storer.thy ===== *)
theory Storer
  imports VaryMatcher
begin

text \<open>
  \<open>internal/responsestorerer.go\<close>: storing a response under the key of its variant and recording
  it in the references of its URL.
\<close>

text \<open>
  The result: the error of \<open>SetRefs\<close>, the response as the caller finds it afterwards (its
  hop-by-hop headers are gone), the backend. A reference index below zero or past the end appends.
\<close>

definition StoreResponse ::
  "golib \<Rightarrow> codec \<Rightarrow> 's conn \<Rightarrow> 's \<Rightarrow> http_request \<Rightarrow> http_response \<Rightarrow> string \<Rightarrow> ResponseRefs \<Rightarrow>
   time \<Rightarrow> time \<Rightarrow> int \<Rightarrow> cache_error option \<times> http_response \<times> 's" where
  "StoreResponse lib cd conn s req resp urlKey refs reqTime respTime refIndex =
     (let resp = removeHopByHopHeaders resp;
          vary = Join (Header_Values (resp_Header resp) ''Vary'') '','';
          varyResolved = vary_resolved lib vary (req_Header req);
          responseID = makeVaryKey urlKey varyResolved;
          respEntry = \<lparr>ent_ID = responseID, ent_Data = resp, ent_RequestedAt = reqTime,
            ent_ReceivedAt = respTime\<rparr>;
          (_, s) = rc_Set cd conn s responseID respEntry;
          refEntry = \<lparr>ref_ResponseID = responseID, ref_Vary = vary, ref_VaryResolved = varyResolved,
            ref_ReceivedAt = DateHeader lib respEntry\<rparr>;
          refs = (if refIndex < 0 \<or> int (length refs) \<le> refIndex then refs @ [refEntry]
                  else refs[nat refIndex := refEntry]);
          (err, s) = rc_SetRefs cd conn s urlKey refs
      in (err, resp, s))"

subsection \<open>The pieces of a stored response\<close>

definition response_vary :: "http_response \<Rightarrow> string" where
  "response_vary resp = Join (Header_Values (resp_Header (removeHopByHopHeaders resp)) ''Vary'') '',''"

definition response_variant :: "golib \<Rightarrow> http_request \<Rightarrow> http_response \<Rightarrow> (string \<times> string) list" where
  "response_variant lib req resp = vary_resolved lib (response_vary resp) (req_Header req)"

definition new_entry ::
  "golib \<Rightarrow> http_request \<Rightarrow> http_response \<Rightarrow> string \<Rightarrow> time \<Rightarrow> time \<Rightarrow> entry" where
  "new_entry lib req resp urlKey reqTime respTime =
     \<lparr>ent_ID = makeVaryKey urlKey (response_variant lib req resp), ent_Data = removeHopByHopHeaders resp,
      ent_RequestedAt = reqTime, ent_ReceivedAt = respTime\<rparr>"

definition new_ref ::
  "golib \<Rightarrow> http_request \<Rightarrow> http_response \<Rightarrow> string \<Rightarrow> time \<Rightarrow> time \<Rightarrow> ResponseRef" where
  "new_ref lib req resp urlKey reqTime respTime =
     \<lparr>ref_ResponseID = makeVaryKey urlKey (response_variant lib req resp), ref_Vary = response_vary resp,
      ref_VaryResolved = response_variant lib req resp,
      ref_ReceivedAt = DateHeader lib (new_entry lib req resp urlKey reqTime respTime)\<rparr>"

definition place_ref :: "ResponseRefs \<Rightarrow> int \<Rightarrow> ResponseRef \<Rightarrow> ResponseRefs" where
  "place_ref refs i r =
     (if i < 0 \<or> int (length refs) \<le> i then refs @ [r] else refs[nat i := r])"

lemma StoreResponse_alt:
  "StoreResponse lib cd conn s req resp urlKey refs rq rs i =
     (let e = new_entry lib req resp urlKey rq rs;
          s1 = snd (rc_Set cd conn s (ent_ID e) e);
          w = rc_SetRefs cd conn s1 urlKey (place_ref refs i (new_ref lib req resp urlKey rq rs))
      in (fst w, removeHopByHopHeaders resp, snd w))"
  by (simp add: StoreResponse_def Let_def new_entry_def new_ref_def place_ref_def
      response_variant_def response_vary_def case_prod_beta)

lemma StoreResponse_response [simp]:
  "fst (snd (StoreResponse lib cd conn s req resp urlKey refs rq rs i)) = removeHopByHopHeaders resp"
  by (simp add: StoreResponse_alt Let_def)

lemma length_place_ref:
  "length (place_ref refs i r) = (if 0 \<le> i \<and> i < int (length refs) then length refs else Suc (length refs))"
  by (auto simp: place_ref_def)

lemma place_ref_mem: "r \<in> set (place_ref refs i r)"
  by (auto simp: place_ref_def set_update_memI)

lemma set_place_ref: "set (place_ref refs i r) \<subseteq> insert r (set refs)"
  by (auto simp: place_ref_def dest: set_update_subset_insert [THEN subsetD])

text \<open>A reference of its own variant selects every request with the same nominated values.\<close>

lemma new_ref_match:
  "varyHeadersMatchOne lib (new_ref lib req resp urlKey rq rs) h \<longleftrightarrow>
     response_vary resp \<noteq> ''*'' \<and>
     (\<forall>k \<in> set (TrimmedCSVCanonical (response_vary resp)).
        nominated_value lib h k = nominated_value lib (req_Header req) k)"
proof -
  have fwd: "k \<in> set (TrimmedCSVCanonical (response_vary resp)) \<and> v = nominated_value lib (req_Header req) k"
    if "(k, v) \<in> set (response_variant lib req resp)" for k v
    using set_vary_resolved that unfolding response_variant_def by blast
  have bwd: "(k, nominated_value lib (req_Header req) k) \<in> set (response_variant lib req resp)"
    if "k \<in> set (TrimmedCSVCanonical (response_vary resp))" for k
    unfolding response_variant_def using that by (intro map_of_SomeD) (simp add: vary_resolved_value)
  have "(\<forall>(k, v) \<in> set (response_variant lib req resp). nominated_value lib h k = v) \<longleftrightarrow>
      (\<forall>k \<in> set (TrimmedCSVCanonical (response_vary resp)).
        nominated_value lib h k = nominated_value lib (req_Header req) k)" (is "?L \<longleftrightarrow> ?R")
  proof
    assume L: ?L
    show ?R
    proof
      fix k
      assume "k \<in> set (TrimmedCSVCanonical (response_vary resp))"
      from bspec [OF L bwd [OF this]]
      show "nominated_value lib h k = nominated_value lib (req_Header req) k" by simp
    qed
  next
    assume ?R
    with fwd show ?L by (auto simp: split_def)
  qed
  then show ?thesis by (simp add: varyHeadersMatchOne_iff new_ref_def)
qed

subsection \<open>What storing leaves in the backend\<close>

context driver_conn
begin

lemma StoreResponse_contents:
  assumes "invar s" "good urlKey" "good (ent_ID e)"
    and e: "e = new_entry lib req resp urlKey rq rs" "MarshalBinary cd e = Some d"
    and refs: "cd_MarshalRefs cd (place_ref refs i (new_ref lib req resp urlKey rq rs)) = Some dr"
  shows "contents (snd (snd (StoreResponse lib cd cache s req resp urlKey refs rq rs i)))
      = (contents s)(ent_ID e \<mapsto> d, urlKey \<mapsto> dr)"
  using assms by (simp add: StoreResponse_alt Let_def rc_specs)

text \<open>With an entry that cannot be dumped only the references are written.\<close>

lemma StoreResponse_contents_any:
  assumes "invar s" "good urlKey" "good (ent_ID e)" "e = new_entry lib req resp urlKey rq rs"
    and "cd_MarshalRefs cd (place_ref refs i (new_ref lib req resp urlKey rq rs)) = Some dr"
  shows "contents (snd (snd (StoreResponse lib cd cache s req resp urlKey refs rq rs i)))
      = (case MarshalBinary cd e of None \<Rightarrow> contents s | Some d \<Rightarrow> (contents s)(ent_ID e \<mapsto> d))(urlKey \<mapsto> dr)"
  using assms by (simp add: StoreResponse_alt Let_def rc_specs split: option.split)

lemma StoreResponse_invar:
  assumes "invar s" "good urlKey" "good (makeVaryKey urlKey (response_variant lib req resp))"
  shows "invar (snd (snd (StoreResponse lib cd cache s req resp urlKey refs rq rs i)))"
  using assms by (simp add: StoreResponse_alt Let_def rc_specs new_entry_def)

text \<open>A stored response and its references read back; the other keys are untouched.\<close>

lemma StoreResponse_stored:
  assumes "invar s" "good urlKey" "good (ent_ID e)"
    and e: "e = new_entry lib req resp urlKey rq rs" "storable cd req' e"
    and refs: "refs' = place_ref refs i (new_ref lib req resp urlKey rq rs)" "storable_refs cd refs'"
  defines "m \<equiv> contents (snd (snd (StoreResponse lib cd cache s req resp urlKey refs rq rs i)))"
  shows "stored_entry cd m (ent_ID e) req' = Some e" and "stored_refs cd m urlKey = refs'"
    and "k \<noteq> urlKey \<Longrightarrow> k \<noteq> ent_ID e \<Longrightarrow> m k = contents s k"
proof -
  obtain d where d: "MarshalBinary cd e = Some d" "ParseResponse cd d req' = Inr e"
    using e(2) by (auto simp: storable_def split: option.splits)
  obtain dr where dr: "cd_MarshalRefs cd refs' = Some dr" "cd_UnmarshalRefs cd dr = Some refs'"
    using refs(2) by (auto simp: storable_refs_def split: option.splits)
  have m: "m = (contents s)(ent_ID e \<mapsto> d, urlKey \<mapsto> dr)"
    unfolding m_def using StoreResponse_contents assms d dr refs by blast
  have "urlKey \<noteq> ent_ID e"
    using makeVaryKey_split [of urlKey "response_variant lib req resp"] by (auto simp: e new_entry_def)
  then show "stored_entry cd m (ent_ID e) req' = Some e" "stored_refs cd m urlKey = refs'"
    "k \<noteq> urlKey \<Longrightarrow> k \<noteq> ent_ID e \<Longrightarrow> m k = contents s k"
    using d dr by (auto simp: m stored_entry_def stored_refs_def)
qed

end

end
