(* ===== verification/UrlKey.thy ===== *)
theory UrlKey
  imports Http
begin

text \<open>
  \<open>pkg/urlkey\<close>: the cache key of a URL. \<open>Normalize\<close> resolves the dot segments of the path,
  lowers the host, drops a default port and the fragment, and normalises the percent-encoding of
  path and query. It returns \<open>None\<close> where the code panics: a URL without scheme does not
  resolve against the nil base that \<open>url.Parse\<close> leaves.
\<close>

definition isHexDigit :: "char \<Rightarrow> bool" where
  "isHexDigit c \<longleftrightarrow> (48 \<le> ord c \<and> ord c \<le> 57) \<or> (65 \<le> ord c \<and> ord c \<le> 70) \<or> (97 \<le> ord c \<and> ord c \<le> 102)"

definition fromHex :: "char \<Rightarrow> nat" where
  "fromHex c =
     (if 48 \<le> ord c \<and> ord c \<le> 57 then ord c - 48
      else if 97 \<le> ord c \<and> ord c \<le> 102 then ord c - 97 + 10
      else if 65 \<le> ord c \<and> ord c \<le> 70 then ord c - 65 + 10
      else 0)"

text \<open>\<open>unicode.IsLetter\<close> on the runes up to U+00FF.\<close>

definition latin1_letter :: "nat \<Rightarrow> bool" where
  "latin1_letter r \<longleftrightarrow>
     (65 \<le> r \<and> r \<le> 90) \<or> (97 \<le> r \<and> r \<le> 122) \<or> r \<in> {0xAA, 0xB5, 0xBA} \<or>
     (0xC0 \<le> r \<and> r \<le> 0xD6) \<or> (0xD8 \<le> r \<and> r \<le> 0xF6) \<or> (0xF8 \<le> r \<and> r \<le> 0xFF)"

definition isUnreserved :: "nat \<Rightarrow> bool" where
  "isUnreserved r \<longleftrightarrow> latin1_letter r \<or> (48 \<le> r \<and> r \<le> 57) \<or> r = 45 \<or> r = 46 \<or> r = 95 \<or> r = 126"

definition hex_digits :: string where
  "hex_digits = ''0123456789ABCDEF''"

definition percentEncodeUpper :: "nat \<Rightarrow> string" where
  "percentEncodeUpper b = ''%'' @ [hex_digits ! (b div 16)] @ [hex_digits ! (b mod 16)]"

text \<open>\<open>strings.Builder.WriteRune\<close> on the runes up to U+00FF: UTF-8.\<close>

definition write_rune :: "nat \<Rightarrow> string" where
  "write_rune r = (if r < 128 then [char_of r] else [char_of (0xC0 + r div 64), char_of (0x80 + r mod 64)])"

definition percent_unit :: "char \<Rightarrow> char \<Rightarrow> string" where
  "percent_unit d e =
     (let hexVal = 16 * fromHex d + fromHex e
      in if isUnreserved hexVal then write_rune hexVal else percentEncodeUpper hexVal)"

fun normalizePercentEncoding :: "string \<Rightarrow> string" where
  "normalizePercentEncoding [] = []"
| "normalizePercentEncoding [c] = [c]"
| "normalizePercentEncoding [c, d] = [c, d]"
| "normalizePercentEncoding (c # d # e # s) =
     (if c = CHR ''%'' \<and> isHexDigit d \<and> isHexDigit e then percent_unit d e @ normalizePercentEncoding s
      else c # normalizePercentEncoding (d # e # s))"

definition host_key :: "golib \<Rightarrow> string \<Rightarrow> string \<Rightarrow> string" where
  "host_key lib scheme hostport =
     (let (host, port) = SplitHostPort hostport;
          defaultP = DefaultPort scheme;
          port = (if port = [] then defaultP else port);
          hostPort = ToLower lib host
      in if port \<noteq> [] \<and> port \<noteq> defaultP then hostPort @ '':'' @ port else hostPort)"

definition Normalize :: "golib \<Rightarrow> url \<Rightarrow> string option" where
  "Normalize lib u =
     (if url_Opaque u \<noteq> [] then Some (url_Opaque u)
      else
        let base = (if url_Scheme u = [] then None
                    else lib_url_Parse lib (url_Scheme u @ ''://'' @ url_Host u))
        in if base = None \<and> url_Scheme u = [] then None
           else
             let normalized =
                   (case base of
                      Some b \<Rightarrow> ResolveReference b u
                    | None \<Rightarrow> u\<lparr>url_Path := resolvePath (url_Path u) []\<rparr>);
                 scheme = url_Scheme normalized;
                 hostPort = host_key lib scheme (url_Host normalized);
                 path = url_Path normalized;
                 path = (if path = [] \<and> (scheme = ''http'' \<or> scheme = ''https'') then ''/'' else path);
                 path = normalizePercentEncoding path;
                 result = scheme @ ''://'' @ hostPort @ path
             in Some (if url_RawQuery normalized \<noteq> []
                      then result @ ''?'' @ normalizePercentEncoding (url_RawQuery normalized)
                      else result))"

subsection \<open>Well-formed percent-encoding\<close>

text \<open>Every percent sign is followed by two hexadecimal digits.\<close>

fun wf_percent :: "string \<Rightarrow> bool" where
  "wf_percent [] = True"
| "wf_percent [c] = (c \<noteq> CHR ''%'')"
| "wf_percent [c, d] = (c \<noteq> CHR ''%'' \<and> d \<noteq> CHR ''%'')"
| "wf_percent (c # d # e # s) =
     (if c = CHR ''%'' then isHexDigit d \<and> isHexDigit e \<and> wf_percent s else wf_percent (d # e # s))"

text \<open>The canonical key of a URL with scheme, written without the detour over the base.\<close>

definition url_key :: "golib \<Rightarrow> url \<Rightarrow> string" where
  "url_key lib u =
     url_Scheme u @ ''://'' @ host_key lib (url_Scheme u) (url_Host u) @
     normalizePercentEncoding
       (let p = resolvePath (url_Path u) [] in
        if p = [] \<and> (url_Scheme u = ''http'' \<or> url_Scheme u = ''https'') then ''/'' else p) @
     (if url_RawQuery u \<noteq> [] then ''?'' @ normalizePercentEncoding (url_RawQuery u) else [])"

subsection \<open>Lemmas\<close>

lemma Normalize_scheme:
  "url_Opaque u = [] \<Longrightarrow> url_Scheme u \<noteq> [] \<Longrightarrow> Normalize lib u = Some (url_key lib u)"
  by (auto simp: Normalize_def Let_def ResolveReference_def url_key_def split: option.split)

lemma Normalize_None_iff: "Normalize lib u = None \<longleftrightarrow> url_Opaque u = [] \<and> url_Scheme u = []"
proof -
  have "url_Opaque u = [] \<Longrightarrow> url_Scheme u = [] \<Longrightarrow> Normalize lib u = None"
    by (simp add: Normalize_def)
  moreover have "url_Opaque u \<noteq> [] \<Longrightarrow> Normalize lib u \<noteq> None"
    by (simp add: Normalize_def)
  ultimately show ?thesis using Normalize_scheme [of u lib]
    by (cases "url_Opaque u = []"; cases "url_Scheme u = []") auto
qed

lemma hex_digit_upper: "n < 16 \<Longrightarrow> isHexDigit (hex_digits ! n) \<and> fromHex (hex_digits ! n) = n"
proof -
  have "\<forall>n < 16. isHexDigit (hex_digits ! n) \<and> fromHex (hex_digits ! n) = n"
    by code_simp
  then show "n < 16 \<Longrightarrow> ?thesis" by blast
qed

lemma fromHex_less: "fromHex c < 16"
  unfolding fromHex_def by auto

lemma percent_unit_reserved:
  "\<not> isUnreserved (16 * fromHex d + fromHex e) \<Longrightarrow>
   \<exists>d' e'. percent_unit d e = [CHR ''%'', d', e'] \<and> isHexDigit d' \<and> isHexDigit e' \<and>
     fromHex d' = fromHex d \<and> fromHex e' = fromHex e"
  using fromHex_less [of d] fromHex_less [of e]
  by (simp add: percent_unit_def percentEncodeUpper_def hex_digit_upper)

lemma percent_unit_cong:
  "fromHex d' = fromHex d \<Longrightarrow> fromHex e' = fromHex e \<Longrightarrow> percent_unit d' e' = percent_unit d e"
  by (simp add: percent_unit_def)

lemma write_rune_no_percent:
  assumes "isUnreserved n" "n < 256" "c \<in> set (write_rune n)"
  shows "c \<noteq> CHR ''%'' \<and> c \<noteq> CHR ''#''"
proof -
  have "n \<noteq> 37" "n \<noteq> 35" using assms(1) by (auto simp: isUnreserved_def latin1_letter_def)
  moreover have "ord c = n \<or> 128 \<le> ord c"
    using assms(2,3) by (auto simp: write_rune_def split: if_splits)
  ultimately show ?thesis by auto
qed

lemma normalizePercentEncoding_cons:
  "c \<noteq> CHR ''%'' \<Longrightarrow> normalizePercentEncoding (c # s) = c # normalizePercentEncoding s"
  by (cases s rule: normalizePercentEncoding.cases) auto

lemma normalizePercentEncoding_plain:
  "CHR ''%'' \<notin> set p \<Longrightarrow> normalizePercentEncoding (p @ s) = p @ normalizePercentEncoding s"
  by (induction p) (auto simp: normalizePercentEncoding_cons)

lemma wf_percent_plain: "CHR ''%'' \<notin> set p \<Longrightarrow> wf_percent (p @ s) = wf_percent s"
proof (induction p)
  case (Cons c p)
  then show ?case by (cases "p @ s" rule: wf_percent.cases) auto
qed simp

lemma hex_not_percent: "isHexDigit c \<Longrightarrow> c \<noteq> CHR ''%''"
  by (auto simp: isHexDigit_def)

lemma percent_unit_normal:
  assumes "isHexDigit d" "isHexDigit e"
  shows "normalizePercentEncoding (percent_unit d e @ s) = percent_unit d e @ normalizePercentEncoding s"
    and "wf_percent (percent_unit d e @ s) = wf_percent s"
proof -
  let ?n = "16 * fromHex d + fromHex e"
  have n: "?n < 256" using fromHex_less [of d] fromHex_less [of e] by simp
  show "normalizePercentEncoding (percent_unit d e @ s) = percent_unit d e @ normalizePercentEncoding s"
    "wf_percent (percent_unit d e @ s) = wf_percent s"
  proof (atomize (full), cases "isUnreserved ?n")
    case True
    then have "CHR ''%'' \<notin> set (percent_unit d e)"
      using write_rune_no_percent [OF True n] by (auto simp: percent_unit_def Let_def)
    then show "normalizePercentEncoding (percent_unit d e @ s) = percent_unit d e @ normalizePercentEncoding s \<and>
      wf_percent (percent_unit d e @ s) = wf_percent s"
      by (simp add: normalizePercentEncoding_plain wf_percent_plain)
  next
    case False
    then obtain d' e' where "percent_unit d e = [CHR ''%'', d', e']" "isHexDigit d'" "isHexDigit e'"
      "fromHex d' = fromHex d" "fromHex e' = fromHex e"
      using percent_unit_reserved by blast
    then show "normalizePercentEncoding (percent_unit d e @ s) = percent_unit d e @ normalizePercentEncoding s \<and>
      wf_percent (percent_unit d e @ s) = wf_percent s"
      using percent_unit_cong [of d' d e' e] by simp
  qed
qed

lemma wf_percent_normal: "wf_percent s \<Longrightarrow> wf_percent (normalizePercentEncoding s)"
proof (induction s rule: normalizePercentEncoding.induct)
  case (4 c d e s)
  show ?case
  proof (cases "c = CHR ''%''")
    case True
    with 4 show ?thesis by (simp add: percent_unit_normal)
  next
    case False
    with 4 show ?thesis using wf_percent_plain [of "[c]"] by simp
  qed
qed simp_all

lemma normalizePercentEncoding_idem_wf:
  "wf_percent s \<Longrightarrow> normalizePercentEncoding (normalizePercentEncoding s) = normalizePercentEncoding s"
proof (induction s rule: normalizePercentEncoding.induct)
  case (4 c d e s)
  show ?case
  proof (cases "c = CHR ''%''")
    case True
    with 4 show ?thesis by (simp add: percent_unit_normal)
  next
    case False
    with 4 show ?thesis by (simp add: normalizePercentEncoding_cons)
  qed
qed simp_all

lemma percent_unit_no_hash: "CHR ''#'' \<notin> set (percent_unit d e)"
proof (cases "isUnreserved (16 * fromHex d + fromHex e)")
  case True
  have "16 * fromHex d + fromHex e < 256" using fromHex_less [of d] fromHex_less [of e] by simp
  with True show ?thesis
    using write_rune_no_percent by (auto simp: percent_unit_def Let_def)
next
  case False
  then obtain d' e' where "percent_unit d e = [CHR ''%'', d', e']" "isHexDigit d'" "isHexDigit e'"
    using percent_unit_reserved by blast
  then show ?thesis by (auto simp: isHexDigit_def)
qed

lemma no_hash_normalizePercentEncoding:
  "CHR ''#'' \<notin> set s \<Longrightarrow> CHR ''#'' \<notin> set (normalizePercentEncoding s)"
  by (induction s rule: normalizePercentEncoding.induct) (auto simp: percent_unit_no_hash)

subsection \<open>Properties\<close>

text \<open>
  Percent-encoding normalization maps well-formed text to well-formed text and is idempotent on
  it.
\<close>

theorem percent_normal_form:
  assumes "wf_percent s"
  shows "wf_percent (normalizePercentEncoding s) \<and>
    normalizePercentEncoding (normalizePercentEncoding s) = normalizePercentEncoding s"
  using assms wf_percent_normal normalizePercentEncoding_idem_wf by blast

theorem percent_normal_form_witness:
  "normalizePercentEncoding (normalizePercentEncoding ''/%7e%2fa'') = ''/~%2Fa''"
proof -
  have w: "wf_percent ''/%7e%2fa''" and n: "normalizePercentEncoding ''/%7e%2fa'' = ''/~%2Fa''" by code_simp+
  from percent_normal_form [OF w] show ?thesis unfolding n by (rule conjunct2)
qed

end
