(* ===== verification/Invalidator.thy ===== *)
theory Invalidator
  imports Storer UrlKey
begin

text \<open>
  \<open>internal/cacheinvalidator.go\<close>: after an unsafe request, the responses of the URL and of the
  same-origin URLs that \<open>Location\<close> and \<open>Content-Location\<close> name are deleted, each key once.
\<close>

type_synonym 's deletions = "string list \<times> 's"

definition del_once :: "'s conn \<Rightarrow> string \<Rightarrow> 's deletions \<Rightarrow> 's deletions" where
  "del_once conn k st =
     (if k \<in> set (fst st) then st else (k # fst st, snd (rc_Delete conn (snd st) k)))"

definition locationHeaders :: "string list" where
  "locationHeaders = [''Location'', ''Content-Location'']"

text \<open>Whether the URL key of a location panics, with what has been deleted by then.\<close>

fun invalidateLocationHeaders ::
  "golib \<Rightarrow> codec \<Rightarrow> 's conn \<Rightarrow> url \<Rightarrow> header \<Rightarrow> string list \<Rightarrow> 's deletions \<Rightarrow> bool \<times> 's deletions" where
  "invalidateLocationHeaders lib cd conn reqURL respHeader [] st = (False, st)"
| "invalidateLocationHeaders lib cd conn reqURL respHeader (hdr # hdrs) st =
     (let loc = Header_Get respHeader hdr in
      if loc = [] then invalidateLocationHeaders lib cd conn reqURL respHeader hdrs st
      else case lib_url_Parse lib loc of
             None \<Rightarrow> invalidateLocationHeaders lib cd conn reqURL respHeader hdrs st
           | Some locURL0 \<Rightarrow>
               let locURL = ResolveReference reqURL locURL0 in
               if sameOrigin lib reqURL locURL then
                 (case Normalize lib locURL of
                    None \<Rightarrow> (True, st)
                  | Some urlKey \<Rightarrow>
                      let (r, s) = rc_GetRefs cd conn (snd st) urlKey;
                          st = fold (del_once conn) (ResponseIDs (refs_or_nil r)) (fst st, s);
                          st = del_once conn urlKey st
                      in invalidateLocationHeaders lib cd conn reqURL respHeader hdrs st)
               else invalidateLocationHeaders lib cd conn reqURL respHeader hdrs st)"

definition InvalidateCache ::
  "golib \<Rightarrow> codec \<Rightarrow> 's conn \<Rightarrow> 's \<Rightarrow> url \<Rightarrow> header \<Rightarrow> ResponseRefs \<Rightarrow> string \<Rightarrow> bool \<times> 's" where
  "InvalidateCache lib cd conn s reqURL respHeader refs key =
     (let st = fold (del_once conn) (ResponseIDs refs) ([], s);
          (panics, st) = invalidateLocationHeaders lib cd conn reqURL respHeader locationHeaders st
      in if panics then (True, snd st) else (False, snd (del_once conn key st)))"

subsection \<open>The keys an invalidation is about\<close>

text \<open>The URL key that a location header of the response names, when it is of the same origin.\<close>

definition location_key :: "golib \<Rightarrow> url \<Rightarrow> header \<Rightarrow> string \<Rightarrow> string option" where
  "location_key lib reqURL h hdr =
     (if Header_Get h hdr = [] then None
      else case lib_url_Parse lib (Header_Get h hdr) of
             None \<Rightarrow> None
           | Some u \<Rightarrow> if sameOrigin lib reqURL (ResolveReference reqURL u)
                       then Normalize lib (ResolveReference reqURL u) else None)"

definition invalidation_keys ::
  "golib \<Rightarrow> codec \<Rightarrow> (string \<rightharpoonup> bytes) \<Rightarrow> url \<Rightarrow> header \<Rightarrow> ResponseRefs \<Rightarrow> string \<Rightarrow> string set" where
  "invalidation_keys lib cd m reqURL h refs key =
     insert key (set (ResponseIDs refs)) \<union>
     (\<Union>hdr \<in> set locationHeaders.
        case location_key lib reqURL h hdr of
          None \<Rightarrow> {} | Some k \<Rightarrow> insert k (set (ResponseIDs (stored_refs cd m k))))"

text \<open>The response IDs of a URL key, which has no hash sign, have one.\<close>

definition ids_hashed :: "codec \<Rightarrow> (string \<rightharpoonup> bytes) \<Rightarrow> bool" where
  "ids_hashed cd m \<longleftrightarrow>
     (\<forall>k. CHR ''#'' \<notin> set k \<longrightarrow> (\<forall>i \<in> set (ResponseIDs (stored_refs cd m k)). CHR ''#'' \<in> set i))"

definition closed_deletions :: "codec \<Rightarrow> (string \<rightharpoonup> bytes) \<Rightarrow> string list \<Rightarrow> bool" where
  "closed_deletions cd m ks \<longleftrightarrow>
     (\<forall>k \<in> set ks. CHR ''#'' \<notin> set k \<longrightarrow> set (ResponseIDs (stored_refs cd m k)) \<subseteq> set ks)"

text \<open>A request whose URL has a scheme never panics here.\<close>

lemma ResolveReference_scheme:
  "url_Scheme (ResolveReference u ref) = (if url_Scheme ref = [] then url_Scheme u else url_Scheme ref)"
  by (simp add: ResolveReference_def Let_def)

lemma invalidateLocationHeaders_total:
  "url_Scheme u \<noteq> [] \<Longrightarrow> \<not> fst (invalidateLocationHeaders lib cd conn u h hdrs st)"
proof (induction hdrs arbitrary: st)
  case (Cons hdr hdrs)
  have n: "Normalize lib (ResolveReference u ref) = None \<Longrightarrow> False" for ref
    using Cons.prems by (simp only: Normalize_None_iff ResolveReference_scheme) (simp split: if_splits)
  show ?case using Cons by (auto simp: Let_def split: option.splits prod.splits dest: n)
qed simp

lemma InvalidateCache_total:
  assumes "url_Scheme u \<noteq> []"
  shows "\<not> fst (InvalidateCache lib cd conn s u h refs key)"
  using invalidateLocationHeaders_total [OF assms] by (simp add: InvalidateCache_def Let_def split_beta)

lemma set_del_once [simp]: "set (fst (del_once conn k st)) = insert k (set (fst st))"
  by (auto simp: del_once_def)

lemma set_del_all [simp]: "set (fst (fold (del_once conn) ks st)) = set ks \<union> set (fst st)"
  by (induction ks arbitrary: st) auto

lemma stored_refs_restrict:
  "stored_refs cd (m |` A) k = (if k \<in> A then stored_refs cd m k else [])"
  by (simp add: stored_refs_def restrict_map_def)

text \<open>The deleted keys are exactly those gone from the contents.\<close>

definition del_state ::
  "('s \<Rightarrow> string \<rightharpoonup> bytes) \<Rightarrow> ('s \<Rightarrow> bool) \<Rightarrow> (string \<rightharpoonup> bytes) \<Rightarrow> 's deletions \<Rightarrow> bool" where
  "del_state contents invar m st \<longleftrightarrow>
     invar (snd st) \<and> contents (snd st) = m |` (- set (fst st))"

context driver_conn
begin

lemma del_once_state:
  "del_state contents invar m st \<Longrightarrow> good k \<Longrightarrow> del_state contents invar m (del_once cache k st)"
  by (auto simp: del_state_def del_once_def rc_specs fun_eq_iff restrict_map_def)

lemma del_all_state:
  "del_state contents invar m st \<Longrightarrow> \<forall>k \<in> set ks. good k \<Longrightarrow>
   del_state contents invar m (fold (del_once cache) ks st)"
  by (induction ks arbitrary: st) (auto simp: del_once_state)

lemma location_step:
  assumes st: "del_state contents invar m st" "closed_deletions cd m (fst st)" "ids_hashed cd m"
    and good: "good k" "\<forall>i \<in> set (ResponseIDs (stored_refs cd m k)). good i" "CHR ''#'' \<notin> set k"
    and r: "rc_GetRefs cd cache (snd st) k = (r, s)"
    and st': "st' = del_once cache k (fold (del_once cache) (ResponseIDs (refs_or_nil r)) (fst st, s))"
  shows "del_state contents invar m st'" "set (fst st) \<subseteq> set (fst st')" "closed_deletions cd m (fst st')"
    "set (fst st') \<subseteq> set (fst st) \<union> insert k (set (ResponseIDs (stored_refs cd m k)))"
    "k \<in> set (fst st')"
proof -
  have inv: "invar (snd st)" and m: "contents (snd st) = m |` (- set (fst st))"
    using st(1) by (simp_all add: del_state_def)
  have refs: "refs_or_nil r = (if k \<in> set (fst st) then [] else stored_refs cd m k)"
    using rc_GetRefs_result(1) [OF inv good(1), of cd] r m by (simp add: stored_refs_restrict)
  have "del_state contents invar m (fst st, s)"
    using rc_GetRefs_result(2,3) [OF inv good(1), of cd] r m by (simp add: del_state_def)
  then have "del_state contents invar m (fold (del_once cache) (ResponseIDs (refs_or_nil r)) (fst st, s))"
    using good(2) refs by (intro del_all_state) (auto simp: ResponseIDs_def)
  then show "del_state contents invar m st'" unfolding st' using good(1) by (rule del_once_state)
  have set': "set (fst st') = insert k (set (ResponseIDs (refs_or_nil r)) \<union> set (fst st))"
    by (simp add: st')
  then show "set (fst st) \<subseteq> set (fst st')" "k \<in> set (fst st')"
    "set (fst st') \<subseteq> set (fst st) \<union> insert k (set (ResponseIDs (stored_refs cd m k)))"
    using refs by (auto simp: ResponseIDs_def)
  show "closed_deletions cd m (fst st')"
    unfolding closed_deletions_def
  proof (intro ballI impI)
    fix j
    assume j: "j \<in> set (fst st')" "CHR ''#'' \<notin> set j"
    then consider "j \<in> set (fst st)" | "j = k" "k \<notin> set (fst st)" | "j \<in> set (ResponseIDs (refs_or_nil r))"
      using set' by (cases "k \<in> set (fst st)") auto
    then show "set (ResponseIDs (stored_refs cd m j)) \<subseteq> set (fst st')"
    proof cases
      case 1
      then show ?thesis using st(2) j(2) set' by (auto simp: closed_deletions_def)
    next
      case 2
      then show ?thesis using set' refs by auto
    next
      case 3
      then show ?thesis using j(2) st(3) refs good(3) by (auto simp: ids_hashed_def ResponseIDs_def split: if_splits)
    qed
  qed
qed

lemma invalidateLocationHeaders_state:
  assumes "invalidateLocationHeaders lib cd cache u h hdrs st = (False, st')" "del_state contents invar m st"
    and "\<forall>hdr \<in> set hdrs. \<forall>k. location_key lib u h hdr = Some k \<longrightarrow>
      good k \<and> (\<forall>i \<in> set (ResponseIDs (stored_refs cd m k)). good i) \<and> CHR ''#'' \<notin> set k"
    and "closed_deletions cd m (fst st)" "ids_hashed cd m"
  shows "del_state contents invar m st' \<and> set (fst st) \<subseteq> set (fst st') \<and> closed_deletions cd m (fst st') \<and>
    set (fst st') \<subseteq> set (fst st) \<union> (\<Union>hdr \<in> set hdrs. case location_key lib u h hdr of
       None \<Rightarrow> {} | Some k \<Rightarrow> insert k (set (ResponseIDs (stored_refs cd m k)))) \<and>
    (\<forall>hdr \<in> set hdrs. \<forall>k. location_key lib u h hdr = Some k \<longrightarrow> k \<in> set (fst st'))"
  using assms
proof (induction hdrs arbitrary: st)
  case (Cons hdr hdrs)
  show ?case
  proof (cases "location_key lib u h hdr")
    case None
    then have "invalidateLocationHeaders lib cd cache u h hdrs st = (False, st')"
      using Cons.prems(1)
      by (auto simp: location_key_def Let_def split: if_splits option.splits prod.splits)
    with Cons None show ?thesis by auto
  next
    case (Some k)
    obtain r s where r: "rc_GetRefs cd cache (snd st) k = (r, s)" by fastforce
    define st1 where "st1 = del_once cache k (fold (del_once cache) (ResponseIDs (refs_or_nil r)) (fst st, s))"
    have rest: "invalidateLocationHeaders lib cd cache u h hdrs st1 = (False, st')"
      using Cons.prems(1) Some r
      by (auto simp: location_key_def Let_def st1_def split: if_splits option.splits prod.splits)
    have good: "good k" "\<forall>i \<in> set (ResponseIDs (stored_refs cd m k)). good i" "CHR ''#'' \<notin> set k"
      using Cons.prems(3) Some by auto
    note step = location_step [OF Cons.prems(2,4,5) good r st1_def]
    have "del_state contents invar m st' \<and> set (fst st1) \<subseteq> set (fst st') \<and> closed_deletions cd m (fst st') \<and>
      set (fst st') \<subseteq> set (fst st1) \<union> (\<Union>hdr \<in> set hdrs. case location_key lib u h hdr of
         None \<Rightarrow> {} | Some k \<Rightarrow> insert k (set (ResponseIDs (stored_refs cd m k)))) \<and>
      (\<forall>hdr \<in> set hdrs. \<forall>k. location_key lib u h hdr = Some k \<longrightarrow> k \<in> set (fst st'))"
      using Cons.prems(3,5) by (intro Cons.IH rest step) auto
    with step(2,4,5) Some show ?thesis by auto
  qed
qed simp

text \<open>
  After an invalidation the responses of the URL, the URL itself and the URLs the location headers
  name are gone, with their responses; nothing else is.
\<close>

lemma InvalidateCache_contents:
  assumes inv: "invar s" and res: "InvalidateCache lib cd cache s u h refs key = (False, s')"
    and good: "\<forall>k \<in> invalidation_keys lib cd (contents s) u h refs key. good k"
    and hashed: "ids_hashed cd (contents s)" "\<forall>i \<in> set (ResponseIDs refs). CHR ''#'' \<in> set i"
      "\<forall>hdr \<in> set locationHeaders. \<forall>k. location_key lib u h hdr = Some k \<longrightarrow> CHR ''#'' \<notin> set k"
  shows "invar s'"
    and "k \<in> insert key (set (ResponseIDs refs)) \<Longrightarrow> contents s' k = None"
    and "hdr \<in> set locationHeaders \<Longrightarrow> location_key lib u h hdr = Some k \<Longrightarrow> contents s' k = None"
    and "hdr \<in> set locationHeaders \<Longrightarrow> location_key lib u h hdr = Some k \<Longrightarrow>
      i \<in> set (ResponseIDs (stored_refs cd (contents s) k)) \<Longrightarrow> contents s' i = None"
    and "k \<notin> invalidation_keys lib cd (contents s) u h refs key \<Longrightarrow> contents s' k = contents s k"
proof -
  let ?st = "fold (del_once cache) (ResponseIDs refs) ([], s)"
  obtain st' where st': "invalidateLocationHeaders lib cd cache u h locationHeaders ?st = (False, st')"
    and s': "s' = snd (del_once cache key st')"
    using res by (auto simp: InvalidateCache_def Let_def split: prod.splits if_splits)
  have "del_state contents invar (contents s) ([], s)"
    using inv by (simp add: del_state_def restrict_map_def)
  then have d: "del_state contents invar (contents s) ?st"
    using good by (intro del_all_state) (auto simp: invalidation_keys_def)
  have c: "closed_deletions cd (contents s) (fst ?st)"
    using hashed(2) by (auto simp: closed_deletions_def)
  have g: "\<forall>hdr \<in> set locationHeaders. \<forall>k. location_key lib u h hdr = Some k \<longrightarrow>
      good k \<and> (\<forall>i \<in> set (ResponseIDs (stored_refs cd (contents s) k)). good i) \<and> CHR ''#'' \<notin> set k"
    using good hashed(3) by (fastforce simp: invalidation_keys_def)
  note L = invalidateLocationHeaders_state [OF st' d g c hashed(1)]
  have "del_state contents invar (contents s) (del_once cache key st')"
    using L good by (intro del_once_state) (auto simp: invalidation_keys_def)
  then have fin: "invar s'" "contents s' = contents s |` (- insert key (set (fst st')))"
    by (simp_all add: del_state_def s')
  show "invar s'" by (rule fin)
  have ids: "set (ResponseIDs refs) \<subseteq> set (fst st')" using L by simp
  then show "k \<in> insert key (set (ResponseIDs refs)) \<Longrightarrow> contents s' k = None"
    by (auto simp: fin restrict_map_def)
  show gone: "hdr \<in> set locationHeaders \<Longrightarrow> location_key lib u h hdr = Some k \<Longrightarrow> contents s' k = None"
    using L by (auto simp: fin restrict_map_def)
  show "contents s' i = None"
    if hdr: "hdr \<in> set locationHeaders" "location_key lib u h hdr = Some k"
      and i: "i \<in> set (ResponseIDs (stored_refs cd (contents s) k))"
  proof -
    have "k \<in> set (fst st')" "CHR ''#'' \<notin> set k" using L hashed(3) hdr by blast+
    then have "i \<in> set (fst st')" using L i unfolding closed_deletions_def by blast
    then show ?thesis by (simp add: fin restrict_map_def)
  qed
  have "set (fst st') \<subseteq> invalidation_keys lib cd (contents s) u h refs key"
    using L by (auto simp: invalidation_keys_def)
  then show "k \<notin> invalidation_keys lib cd (contents s) u h refs key \<Longrightarrow> contents s' k = contents s k"
    by (auto simp: fin restrict_map_def invalidation_keys_def)
qed

text \<open>Over a backend that serves every key, an invalidation only ever deletes.\<close>

lemma del_once_shrinks:
  "\<forall>k. good k \<Longrightarrow> invar (snd st) \<Longrightarrow>
   invar (snd (del_once cache k st)) \<and> contents (snd (del_once cache k st)) \<subseteq>\<^sub>m contents (snd st)"
  by (auto simp: del_once_def rc_specs map_le_def)

lemma del_all_shrinks:
  assumes "\<forall>k. good k"
  shows "invar (snd st) \<Longrightarrow> invar (snd (fold (del_once cache) ks st)) \<and>
     contents (snd (fold (del_once cache) ks st)) \<subseteq>\<^sub>m contents (snd st)"
proof (induction ks arbitrary: st)
  case (Cons k ks)
  then show ?case
    using del_once_shrinks [OF assms, of st k] Cons.IH [of "del_once cache k st"] map_le_trans
    by (simp, blast)
qed simp

lemma invalidateLocationHeaders_shrinks:
  assumes good: "\<forall>k. good k"
  shows "invalidateLocationHeaders lib cd cache u h hdrs st = (b, st') \<Longrightarrow> invar (snd st) \<Longrightarrow>
    invar (snd st') \<and> contents (snd st') \<subseteq>\<^sub>m contents (snd st)"
proof (induction hdrs arbitrary: st)
  case (Cons hdr hdrs)
  show ?case
  proof (cases "location_key lib u h hdr")
    case None
    then consider "invalidateLocationHeaders lib cd cache u h hdrs st = (b, st')" | "st' = st"
      using Cons.prems(1)
      by (auto simp: location_key_def Let_def split: if_splits option.splits prod.splits)
    then show ?thesis using Cons by cases auto
  next
    case (Some k)
    obtain r s where r: "rc_GetRefs cd cache (snd st) k = (r, s)" by fastforce
    define st0 where "st0 = fold (del_once cache) (ResponseIDs (refs_or_nil r)) (fst st, s)"
    have rest: "invalidateLocationHeaders lib cd cache u h hdrs (del_once cache k st0) = (b, st')"
      using Cons.prems(1) Some r
      by (auto simp: location_key_def Let_def st0_def split: if_splits option.splits prod.splits)
    have s: "invar s" "contents s = contents (snd st)"
      using rc_GetRefs_result(2,3) [OF Cons.prems(2), of k cd] good r by simp_all
    have st0: "invar (snd st0)" "contents (snd st0) \<subseteq>\<^sub>m contents (snd st)"
      using del_all_shrinks [OF good, of "(fst st, s)"] s by (simp_all add: st0_def)
    show ?thesis
      using Cons.IH [OF rest] del_once_shrinks [OF good st0(1), of k] st0(2) map_le_trans by blast
  qed
qed simp

lemma InvalidateCache_shrinks:
  assumes "\<forall>k. good k" "invar s" "InvalidateCache lib cd cache s u h refs key = (b, s')"
  shows "invar s'" "contents s' \<subseteq>\<^sub>m contents s"
proof -
  let ?st = "fold (del_once cache) (ResponseIDs refs) ([], s)"
  obtain st' where st': "invalidateLocationHeaders lib cd cache u h locationHeaders ?st = (b, st')"
    and s': "s' = (if b then snd st' else snd (del_once cache key st'))"
    using assms(3) by (auto simp: InvalidateCache_def Let_def split: prod.splits if_splits)
  have st: "invar (snd ?st)" "contents (snd ?st) \<subseteq>\<^sub>m contents s"
    using del_all_shrinks [OF assms(1), of "([], s)"] assms(2) by simp_all
  have "invar (snd st')" "contents (snd st') \<subseteq>\<^sub>m contents s"
    using invalidateLocationHeaders_shrinks [OF assms(1) st' st(1)] st(2) map_le_trans by blast+
  then show "invar s'" "contents s' \<subseteq>\<^sub>m contents s"
    using del_once_shrinks [OF assms(1), of st' key] map_le_trans by (auto simp: s')
qed

end

end
