(* ===== verification/Validation.thy ===== *)
theory Validation
  imports Invalidator
begin

text \<open>
  \<open>internal/validationresponsehandler.go\<close>: what becomes of the origin's answer to a validation
  request. This theory also holds what a running transport works on: its environment (the library,
  the codec, the backend, the clock, the upstream) and the world it changes (the backend's state,
  the number of clock readings, the requests sent upstream, the background jobs not yet run).
\<close>

record bg_job =
  job_req :: http_request
  job_stored :: entry
  job_urlKey :: string
  job_freshness :: Freshness
  job_ccReq :: directive_map

text \<open>\<open>e_upstream n\<close> answers the request number \<open>n\<close> with an error or a response.\<close>

record 's env =
  e_lib :: golib
  e_codec :: codec
  e_conn :: "'s conn"
  e_clk :: clock
  e_upstream :: "nat \<Rightarrow> http_request \<Rightarrow> string + http_response"
  e_swrTimeout :: duration

record 's world =
  w_cache :: 's
  w_tick :: nat
  w_sent :: "http_request list"
  w_pending :: "bg_job list"

text \<open>What a round trip returns: it panics, returns an error, or returns a response.\<close>

datatype outcome = Panicked | Failed string | Responded http_response

record RevalidationContext =
  rv_URLKey :: string
  rv_Start :: time
  rv_End :: time
  rv_CCReq :: directive_map
  rv_Stored :: entry
  rv_Freshness :: Freshness
  rv_Refs :: ResponseRefs
  rv_RefIndex :: int

text \<open>\<open>storeResponse env w \<dots>\<close>: the storer on the world's backend, its error dropped.\<close>

definition store_response ::
  "'s env \<Rightarrow> 's world \<Rightarrow> http_request \<Rightarrow> http_response \<Rightarrow> string \<Rightarrow> ResponseRefs \<Rightarrow> time \<Rightarrow> time \<Rightarrow> int \<Rightarrow>
   http_response \<times> 's world" where
  "store_response env w req resp urlKey refs start fin refIndex =
     (let (_, resp, s) = StoreResponse (e_lib env) (e_codec env) (e_conn env) (w_cache w) req resp urlKey
                           refs start fin refIndex
      in (resp, w\<lparr>w_cache := s\<rparr>))"

definition HandleValidationResponse ::
  "'s env \<Rightarrow> RevalidationContext \<Rightarrow> http_request \<Rightarrow> http_response \<Rightarrow> 's world \<Rightarrow> outcome \<times> 's world" where
  "HandleValidationResponse env ctx req resp w =
     (if req_Method req = ''GET'' \<and> resp_StatusCode resp = 304 then
        (let data = mergeResponseHeaders (ent_Data (rv_Stored ctx)) (resp_Header resp);
             (data, w) = store_response env w req data (rv_URLKey ctx) (rv_Refs ctx) (rv_Start ctx)
                           (rv_End ctx) (rv_RefIndex ctx)
         in (Responded (apply_status CacheStatusRevalidated data), w))
      else
        let ccResp = ParseCCResponseDirectives (resp_Header resp);
            (staleOk, n) =
              (if isStaleErrorAllowed (resp_StatusCode resp) \<and> req_Method req = ''GET''
               then CanStaleOnError (e_clk env) (w_tick w) (rv_Freshness ctx) [Resp_StaleIfError ccResp]
               else (False, w_tick w));
            w = w\<lparr>w_tick := n\<rparr>
        in if staleOk then
             (let (data, n) = SetAgeHeader (e_clk env) (w_tick w) (ent_Data (rv_Stored ctx))
                                (fr_Age (rv_Freshness ctx))
              in (Responded (apply_status CacheStatusStale data), w\<lparr>w_tick := n\<rparr>))
           else if canStoreResponse resp (rv_CCReq ctx) ccResp then
             (let (resp, w) = store_response env w req resp (rv_URLKey ctx) (rv_Refs ctx) (rv_Start ctx)
                                (rv_End ctx) (rv_RefIndex ctx)
              in (Responded (apply_status CacheStatusMiss resp), w))
           else if IsUnsafeMethod (req_Method req) \<and> IsNonErrorStatus (resp_StatusCode resp) then
             (let (panics, s) = InvalidateCache (e_lib env) (e_codec env) (e_conn env) (w_cache w) (req_URL req)
                    (resp_Header resp) (rv_Refs ctx) (rv_URLKey ctx)
              in (if panics then Panicked else Responded (apply_status CacheStatusBypass resp), w\<lparr>w_cache := s\<rparr>))
           else (Responded (apply_status CacheStatusBypass resp), w))"

end
