(* ===== verification/Transport.thy ===== *)
theory Transport
  imports Validation
begin

text \<open>
  \<open>roundtripper.go\<close>, \<open>helpers.go\<close> and \<open>options.go\<close>: the caching round trip. A round trip runs
  from its request to its response in one step here (\<open>Concurrent\<close> divides it); the background
  revalidation that it may start is a pending job, and running it is a step of its own.
\<close>

subsection \<open>Configuration\<close>

type_synonym round_tripper = "nat \<Rightarrow> http_request \<Rightarrow> string + http_response"

record transport =
  tr_upstream :: "round_tripper option"
  tr_swrTimeout :: duration
  tr_logger :: bool

text \<open>The options of a transport; a nil round tripper is \<open>None\<close>, a logger is whether it is not nil.\<close>

datatype transport_option =
    WithUpstream "round_tripper option"
  | WithSWRTimeout duration
  | WithLogger bool

fun apply_option :: "transport_option \<Rightarrow> transport \<Rightarrow> transport" where
  "apply_option (WithUpstream u) r = r\<lparr>tr_upstream := u\<rparr>"
| "apply_option (WithSWRTimeout d) r = r\<lparr>tr_swrTimeout := d\<rparr>"
| "apply_option (WithLogger notNil) r = (if notNil then r\<lparr>tr_logger := True\<rparr> else r)"

definition DefaultSWRTimeout :: duration where
  "DefaultSWRTimeout = 5 * second"

definition newTransport ::
  "golib \<Rightarrow> codec \<Rightarrow> clock \<Rightarrow> round_tripper \<Rightarrow> 's conn \<Rightarrow> transport_option list \<Rightarrow> 's env" where
  "newTransport lib cd clk defaultTransport conn options =
     (let rt = fold apply_option options \<lparr>tr_upstream = None, tr_swrTimeout = 0, tr_logger = False\<rparr>
      in \<lparr>e_lib = lib, e_codec = cd, e_conn = conn, e_clk = clk,
          e_upstream = (case tr_upstream rt of Some u \<Rightarrow> u | None \<Rightarrow> defaultTransport),
          e_swrTimeout = (if max (tr_swrTimeout rt) 0 \<noteq> 0 then max (tr_swrTimeout rt) 0
                          else DefaultSWRTimeout)\<rparr>)"

subsection \<open>Requests to the origin\<close>

definition upstream_RoundTrip ::
  "'s env \<Rightarrow> 's world \<Rightarrow> http_request \<Rightarrow> (string + http_response) \<times> 's world" where
  "upstream_RoundTrip env w req =
     (e_upstream env (length (w_sent w)) req, w\<lparr>w_sent := w_sent w @ [req]\<rparr>)"

definition read_clock :: "'s env \<Rightarrow> 's world \<Rightarrow> time \<times> 's world" where
  "read_clock env w = (e_clk env (w_tick w), w\<lparr>w_tick := Suc (w_tick w)\<rparr>)"

definition roundTripTimed ::
  "'s env \<Rightarrow> 's world \<Rightarrow> http_request \<Rightarrow> (string + http_response) \<times> time \<times> time \<times> 's world" where
  "roundTripTimed env w req =
     (let (start, w) = read_clock env w;
          (r, w) = upstream_RoundTrip env w req;
          (fin, w) = read_clock env w
      in (case r of
            Inl err \<Rightarrow> Inl err
          | Inr resp \<Rightarrow> Inr (resp\<lparr>resp_Header := fst (FixDateHeader (e_lib env) (resp_Header resp) fin)\<rparr>),
          start, fin, w))"

text \<open>\<open>make504Response\<close>: what \<open>http.ReadResponse\<close> makes of the text the code writes.\<close>

definition make504Response :: http_response where
  "make504Response =
     \<lparr>resp_StatusCode = 504,
      resp_Header =
        [(''Cache-Control'', [''no-cache'']), (''Content-Length'', [''0'']),
         (CacheStatusHeader, [cs_Value CacheStatusBypass]), (''Connection'', [''close''])],
      resp_Body = []\<rparr>"

subsection \<open>Unrecognized methods and cache misses\<close>

definition handleUnrecognizedMethod ::
  "'s env \<Rightarrow> 's world \<Rightarrow> http_request \<Rightarrow> string \<Rightarrow> outcome \<times> 's world" where
  "handleUnrecognizedMethod env w req urlKey =
     (let (r, w) = upstream_RoundTrip env w req in
      case r of
        Inl err \<Rightarrow> (Failed err, w)
      | Inr resp \<Rightarrow>
          if \<not> IsUnsafeMethod (req_Method req) then (Responded (apply_status CacheStatusBypass resp), w)
          else if IsNonErrorStatus (resp_StatusCode resp) then
            (let (refs, s) = rc_GetRefs (e_codec env) (e_conn env) (w_cache w) urlKey;
                 (panics, s) = InvalidateCache (e_lib env) (e_codec env) (e_conn env) s (req_URL req)
                   (resp_Header resp) (refs_or_nil refs) urlKey
             in (if panics then Panicked else Responded (apply_status CacheStatusBypass resp), w\<lparr>w_cache := s\<rparr>))
          else (Responded (apply_status CacheStatusBypass resp), w))"

definition handleCacheMiss ::
  "'s env \<Rightarrow> 's world \<Rightarrow> http_request \<Rightarrow> string \<Rightarrow> ResponseRefs \<Rightarrow> int \<Rightarrow> outcome \<times> 's world" where
  "handleCacheMiss env w req urlKey refs refIndex =
     (let ccReq = ParseCCRequestDirectives (req_Header req) in
      if Req_OnlyIfCached ccReq then (Responded make504Response, w)
      else
        let (r, start, fin, w) = roundTripTimed env w req in
        case r of
          Inl err \<Rightarrow> (Failed err, w)
        | Inr resp \<Rightarrow>
            let ccResp = ParseCCResponseDirectives (resp_Header resp);
                (resp, w) =
                  (if canStoreResponse resp ccReq ccResp
                   then store_response env w req resp urlKey refs start fin refIndex else (resp, w))
            in (Responded (apply_status CacheStatusMiss resp), w))"

subsection \<open>Cache hits\<close>

definition serveFromCache ::
  "'s env \<Rightarrow> 's world \<Rightarrow> entry \<Rightarrow> Freshness \<Rightarrow> bool \<Rightarrow> string list \<Rightarrow> outcome \<times> 's world" where
  "serveFromCache env w stored freshness noCacheQualified noCacheFieldsSeq =
     (let data = ent_Data stored;
          data = (if noCacheQualified
                  then data\<lparr>resp_Header := foldl Header_Del (resp_Header data) noCacheFieldsSeq\<rparr> else data);
          (data, n) = SetAgeHeader (e_clk env) (w_tick w) data (fr_Age freshness)
      in (Responded (apply_status CacheStatusHit data), w\<lparr>w_tick := n\<rparr>))"

text \<open>
  The goroutine of the background revalidation shares the stored response with the caller: by the
  time it uses it, the status headers have been set.
\<close>

definition handleStaleWhileRevalidate ::
  "'s env \<Rightarrow> 's world \<Rightarrow> http_request \<Rightarrow> entry \<Rightarrow> string \<Rightarrow> Freshness \<Rightarrow> directive_map \<Rightarrow>
   outcome \<times> 's world" where
  "handleStaleWhileRevalidate env w req stored urlKey freshness ccReq =
     (let req2 = withConditionalHeaders req (resp_Header (ent_Data stored));
          stored = stored\<lparr>ent_Data := apply_status CacheStatusStale (ent_Data stored)\<rparr>;
          job = \<lparr>job_req = req2, job_stored = stored, job_urlKey = urlKey, job_freshness = freshness,
            job_ccReq = ccReq\<rparr>
      in (Responded (ent_Data stored), w\<lparr>w_pending := w_pending w @ [job]\<rparr>))"

definition revalidate ::
  "'s env \<Rightarrow> 's world \<Rightarrow> http_request \<Rightarrow> entry \<Rightarrow> string \<Rightarrow> ResponseRefs \<Rightarrow> nat \<Rightarrow> Freshness \<Rightarrow>
   directive_map \<Rightarrow> outcome \<times> 's world" where
  "revalidate env w req stored urlKey refs refIndex freshness ccReq =
     (let req = withConditionalHeaders req (resp_Header (ent_Data stored));
          (r, start, fin, w) = roundTripTimed env w req
      in case r of
           Inl err \<Rightarrow> (Failed err, w)
         | Inr resp \<Rightarrow>
             HandleValidationResponse env
               \<lparr>rv_URLKey = urlKey, rv_Start = start, rv_End = fin, rv_CCReq = ccReq, rv_Stored = stored,
                rv_Freshness = freshness, rv_Refs = refs, rv_RefIndex = int refIndex\<rparr> req resp w)"

text \<open>The check of the \<open>stale-while-revalidate\<close> window, which reads the clock when it applies.\<close>

definition swr_window ::
  "'s env \<Rightarrow> 's world \<Rightarrow> Freshness \<Rightarrow> directive_map \<Rightarrow> bool \<times> 's world" where
  "swr_window env w freshness ccResp =
     (case Resp_StaleWhileRevalidate ccResp of
        None \<Rightarrow> (False, w)
      | Some swr \<Rightarrow>
          if \<not> fr_IsStale freshness then (False, w)
          else
            let age = dur_add (age_Value (fr_Age freshness))
                        (clock_since (e_clk env) (w_tick w) (age_Timestamp (fr_Age freshness)));
                w = w\<lparr>w_tick := Suc (w_tick w)\<rparr>;
                staleFor = dur_sub age (fr_UsefulLife freshness)
            in (0 \<le> staleFor \<and> staleFor < swr, w))"

definition handleCacheHit ::
  "'s env \<Rightarrow> 's world \<Rightarrow> http_request \<Rightarrow> entry \<Rightarrow> string \<Rightarrow> ResponseRefs \<Rightarrow> nat \<Rightarrow> outcome \<times> 's world" where
  "handleCacheHit env w req stored urlKey refs refIndex =
     (let ccReq = ParseCCRequestDirectives (req_Header req);
          ccResp = ParseCCResponseDirectives (resp_Header (ent_Data stored));
          (freshness, n) = CalculateFreshness (e_lib env) (e_clk env) (w_tick w) stored ccReq ccResp;
          w = w\<lparr>w_tick := n\<rparr>;
          hasRespNoCache = (Resp_NoCache ccResp \<noteq> None);
          fields = (case Resp_NoCache ccResp of Some raw \<Rightarrow> RawCSV_Value raw | None \<Rightarrow> None);
          isRespNoCacheQualified = (fields \<noteq> None);
          fieldsSeq = (case fields of Some fs \<Rightarrow> fs | None \<Rightarrow> [])
      in if \<not> fr_IsStale freshness \<and> Resp_Immutable ccResp \<and> \<not> Req_NoCache ccReq then
           serveFromCache env w stored freshness isRespNoCacheQualified fieldsSeq
         else if (fr_IsStale freshness \<and> Resp_MustRevalidate ccResp) \<or>
           (hasRespNoCache \<and> \<not> isRespNoCacheQualified) then
           revalidate env w req stored urlKey refs refIndex freshness ccReq
         else if Req_OnlyIfCached ccReq \<or> (\<not> fr_IsStale freshness \<and> \<not> Req_NoCache ccReq) then
           serveFromCache env w stored freshness isRespNoCacheQualified fieldsSeq
         else
           let (swr, w) = swr_window env w freshness ccResp in
           if swr then handleStaleWhileRevalidate env w req stored urlKey freshness ccReq
           else revalidate env w req stored urlKey refs refIndex freshness ccReq)"

subsection \<open>The round trip\<close>

definition RoundTrip :: "'s env \<Rightarrow> 's world \<Rightarrow> http_request \<Rightarrow> outcome \<times> 's world" where
  "RoundTrip env w req =
     (case Normalize (e_lib env) (req_URL req) of
        None \<Rightarrow> (Panicked, w)
      | Some urlKey \<Rightarrow>
          if \<not> isRequestMethodUnderstood req then handleUnrecognizedMethod env w req urlKey
          else
            let (r, s) = rc_GetRefs (e_codec env) (e_conn env) (w_cache w) urlKey;
                w = w\<lparr>w_cache := s\<rparr>
            in case r of
                 Inl err \<Rightarrow> handleCacheMiss env w req urlKey [] (-1)
               | Inr [] \<Rightarrow> handleCacheMiss env w req urlKey [] (-1)
               | Inr (ref # rest) \<Rightarrow>
                   let (refs, found) = VaryHeadersMatch (e_lib env) (ref # rest) (req_Header req) in
                   case found of
                     None \<Rightarrow> handleCacheMiss env w req urlKey refs (-1)
                   | Some refIndex \<Rightarrow>
                       let (r, s) = rc_Get (e_codec env) (e_conn env) (w_cache w)
                                      (ref_ResponseID (refs ! refIndex)) req;
                           w = w\<lparr>w_cache := s\<rparr>
                       in case r of
                            Inl err \<Rightarrow> handleCacheMiss env w req urlKey refs (int refIndex)
                          | Inr entry \<Rightarrow> handleCacheHit env w req entry urlKey refs refIndex)"

subsection \<open>Background revalidation\<close>

text \<open>
  \<open>expired\<close>: the context is done when the goroutine looks at it, because \<open>e_swrTimeout\<close> has passed
  or the caller has cancelled. \<open>consumed\<close>: how much the caller has read of the body, which the
  goroutine shares with it. The reference index is the zero value, the references are nil.
\<close>

definition rest_of_body :: "nat \<Rightarrow> entry \<Rightarrow> entry" where
  "rest_of_body consumed e = e\<lparr>ent_Data := (ent_Data e)\<lparr>resp_Body := drop consumed (resp_Body (ent_Data e))\<rparr>\<rparr>"

definition backgroundRevalidate :: "'s env \<Rightarrow> 's world \<Rightarrow> bg_job \<Rightarrow> bool \<Rightarrow> nat \<Rightarrow> 's world" where
  "backgroundRevalidate env w job expired consumed =
     (let (r, start, fin, w) = roundTripTimed env w (job_req job) in
      case r of
        Inl err \<Rightarrow> w
      | Inr resp \<Rightarrow>
          if expired then w
          else snd (HandleValidationResponse env
            \<lparr>rv_URLKey = job_urlKey job, rv_Start = start, rv_End = fin, rv_CCReq = job_ccReq job,
             rv_Stored = rest_of_body consumed (job_stored job), rv_Freshness = job_freshness job,
             rv_Refs = [], rv_RefIndex = 0\<rparr>
            (job_req job) resp w))"

text \<open>
  A step of a running transport: the round trip of one of the requests \<open>ok\<close> admits, or one of the
  pending background revalidations.
\<close>

inductive transport_step :: "'s env \<Rightarrow> (http_request \<Rightarrow> bool) \<Rightarrow> 's world \<Rightarrow> 's world \<Rightarrow> bool"
  for env ok where
  request: "ok req \<Longrightarrow> RoundTrip env w req = (out, w') \<Longrightarrow> transport_step env ok w w'"
| background: "i < length (w_pending w) \<Longrightarrow>
    w' = backgroundRevalidate env (w\<lparr>w_pending := take i (w_pending w) @ drop (Suc i) (w_pending w)\<rparr>)
           (w_pending w ! i) expired consumed \<Longrightarrow>
    transport_step env ok w w'"

inductive_cases transport_stepE: "transport_step env ok w w'"

definition start_world :: "'s \<Rightarrow> 's world" where
  "start_world s = \<lparr>w_cache = s, w_tick = 0, w_sent = [], w_pending = []\<rparr>"

inductive reachable :: "'s env \<Rightarrow> (http_request \<Rightarrow> bool) \<Rightarrow> 's world \<Rightarrow> 's world \<Rightarrow> bool"
  for env ok w0 where
  start: "reachable env ok w0 w0"
| step: "reachable env ok w0 w \<Longrightarrow> transport_step env ok w w' \<Longrightarrow> reachable env ok w0 w'"

end
