(* ===== verification/TransportLaws.thy ===== *)
theory TransportLaws
  imports Transport
begin

text \<open>
  What the parts of a round trip do to the world and which status their responses carry, the
  decision on a stored response as a condition on its freshness and the directives, and the
  reduction of a round trip over any backend that keeps its contract to the stored response that
  the request selects from the backend's contents.
\<close>

subsection \<open>Lemmas on the parts of a round trip\<close>

lemma store_response_world [simp]:
  "w_tick (snd (store_response env w req resp k refs a b i)) = w_tick w"
  "w_sent (snd (store_response env w req resp k refs a b i)) = w_sent w"
  "w_pending (snd (store_response env w req resp k refs a b i)) = w_pending w"
  "fst (store_response env w req resp k refs a b i) = removeHopByHopHeaders resp"
  by (simp_all add: store_response_def case_prod_beta)

lemma roundTripTimed_eq:
  "roundTripTimed env w req =
    ((case e_upstream env (length (w_sent w)) req of
        Inl err \<Rightarrow> Inl err
      | Inr resp \<Rightarrow> Inr (resp\<lparr>resp_Header :=
          fst (FixDateHeader (e_lib env) (resp_Header resp) (e_clk env (Suc (w_tick w))))\<rparr>)),
     e_clk env (w_tick w), e_clk env (Suc (w_tick w)),
     w\<lparr>w_sent := w_sent w @ [req], w_tick := Suc (Suc (w_tick w))\<rparr>)"
  by (simp add: roundTripTimed_def read_clock_def upstream_RoundTrip_def Let_def split: sum.split)

lemma SetAgeHeader_simps [simp]:
  "resp_StatusCode (fst (SetAgeHeader clk n r a)) = resp_StatusCode r"
  "resp_Body (fst (SetAgeHeader clk n r a)) = resp_Body r"
  "snd (SetAgeHeader clk n r a) = Suc n"
  by (simp_all add: SetAgeHeader_def Let_def)

text \<open>What a round trip may leave: the requests sent grow by at most one, in order.\<close>

definition status_of :: "http_response \<Rightarrow> string" where
  "status_of r = Header_Get (resp_Header r) CacheStatusHeader"

definition from_cache :: "http_response \<Rightarrow> string" where
  "from_cache r = Header_Get (resp_Header r) FromCacheHeader"

lemma status_apply [simp]: "status_of (apply_status s r) = cs_Value s"
  by (simp add: status_of_def Header_Get_ApplyTo CacheStatusHeader_def)

lemma from_cache_apply [simp]:
  "from_cache (apply_status s r) = (if cs_Legacy s \<noteq> [] then cs_Legacy s else from_cache r)"
  by (simp add: from_cache_def Header_Get_ApplyTo CacheStatusHeader_def FromCacheHeader_def)

lemma status_values [simp]:
  "cs_Value CacheStatusHit = ''HIT''" "cs_Legacy CacheStatusHit = ''1''"
  "cs_Value CacheStatusMiss = ''MISS''" "cs_Legacy CacheStatusMiss = []"
  "cs_Value CacheStatusStale = ''STALE''" "cs_Legacy CacheStatusStale = ''1''"
  "cs_Value CacheStatusRevalidated = ''REVALIDATED''" "cs_Legacy CacheStatusRevalidated = ''1''"
  "cs_Value CacheStatusBypass = ''BYPASS''" "cs_Legacy CacheStatusBypass = []"
  by (simp_all add: status_defs)

text \<open>The outcomes of the parts, by the status they set.\<close>

lemma HandleValidationResponse_outcome:
  assumes "HandleValidationResponse env ctx req resp w = (out, w')"
  shows "w_sent w' = w_sent w" "w_pending w' = w_pending w"
    "out = Panicked \<or> (\<exists>r. out = Responded r \<and>
      (status_of r \<in> {''REVALIDATED'', ''STALE''} \<and> from_cache r = ''1'' \<or> status_of r \<in> {''MISS'', ''BYPASS''}))"
  using assms unfolding HandleValidationResponse_def Let_def
  by (auto split: if_splits prod.splits option.splits dest!: arg_cong [of _ _ snd])

lemma serveFromCache_world:
  "serveFromCache env w e f q fs = (out, w') \<Longrightarrow>
     w_sent w' = w_sent w \<and> w_pending w' = w_pending w \<and> w_cache w' = w_cache w \<and>
     (\<exists>r. out = Responded r \<and> status_of r = ''HIT'' \<and> from_cache r = ''1'' \<and>
       resp_StatusCode r = resp_StatusCode (ent_Data e) \<and> resp_Body r = resp_Body (ent_Data e))"
  by (auto simp: serveFromCache_def Let_def case_prod_beta)

lemma handleStaleWhileRevalidate_world:
  "handleStaleWhileRevalidate env w req e k f cc = (out, w') \<Longrightarrow>
     w_sent w' = w_sent w \<and> w_cache w' = w_cache w \<and> length (w_pending w') = Suc (length (w_pending w)) \<and>
     out = Responded (apply_status CacheStatusStale (ent_Data e))"
  by (auto simp: handleStaleWhileRevalidate_def Let_def)

text \<open>How long the response has been stale at the clock reading \<open>n\<close>.\<close>

definition stale_for :: "'s env \<Rightarrow> nat \<Rightarrow> Freshness \<Rightarrow> duration" where
  "stale_for env n f =
     dur_sub (dur_add (age_Value (fr_Age f)) (clock_since (e_clk env) n (age_Timestamp (fr_Age f))))
       (fr_UsefulLife f)"

definition in_swr_window :: "'s env \<Rightarrow> nat \<Rightarrow> Freshness \<Rightarrow> directive_map \<Rightarrow> bool" where
  "in_swr_window env n f resCC \<longleftrightarrow>
     fr_IsStale f \<and>
     (case Resp_StaleWhileRevalidate resCC of
        None \<Rightarrow> False | Some swr \<Rightarrow> 0 \<le> stale_for env n f \<and> stale_for env n f < swr)"

lemma swr_window_world:
  "swr_window env w f cc = (b, w') \<Longrightarrow>
     w_sent w' = w_sent w \<and> w_cache w' = w_cache w \<and> w_pending w' = w_pending w \<and>
     b = in_swr_window env (w_tick w) f cc"
  by (auto simp: swr_window_def Let_def stale_for_def in_swr_window_def split: option.splits if_splits)

lemma revalidate_world:
  assumes "revalidate env w req e k refs i f cc = (out, w')"
  shows "w_sent w' = w_sent w @ [withConditionalHeaders req (resp_Header (ent_Data e))]"
    "w_pending w' = w_pending w"
    "case e_upstream env (length (w_sent w)) (withConditionalHeaders req (resp_Header (ent_Data e))) of
       Inl err \<Rightarrow> out = Failed err \<and> w_cache w' = w_cache w
     | Inr _ \<Rightarrow> out = Panicked \<or> (\<exists>r. out = Responded r \<and>
         (status_of r \<in> {''REVALIDATED'', ''STALE''} \<and> from_cache r = ''1'' \<or> status_of r \<in> {''MISS'', ''BYPASS''}))"
  using assms unfolding revalidate_def roundTripTimed_eq Let_def
  by (auto split: sum.splits dest: HandleValidationResponse_outcome)

lemma handleCacheMiss_world:
  assumes "handleCacheMiss env w req k refs i = (out, w')"
  shows "w_pending w' = w_pending w"
    "if Req_OnlyIfCached (ParseCCRequestDirectives (req_Header req))
     then out = Responded make504Response \<and> w' = w
     else w_sent w' = w_sent w @ [req] \<and>
       (case e_upstream env (length (w_sent w)) req of
          Inl err \<Rightarrow> out = Failed err \<and> w_cache w' = w_cache w
        | Inr resp \<Rightarrow> (\<exists>r. out = Responded r \<and> status_of r = ''MISS'' \<and>
            resp_StatusCode r = resp_StatusCode resp \<and> resp_Body r = resp_Body resp))"
  using assms unfolding handleCacheMiss_def roundTripTimed_eq Let_def
  by (auto split: sum.splits if_splits prod.splits dest!: arg_cong [of _ _ snd] simp: prod_eq_iff)

lemma handleUnrecognizedMethod_world:
  assumes "handleUnrecognizedMethod env w req k = (out, w')"
  shows "w_sent w' = w_sent w @ [req]" "w_pending w' = w_pending w" "w_tick w' = w_tick w"
    "case e_upstream env (length (w_sent w)) req of
       Inl err \<Rightarrow> out = Failed err \<and> w_cache w' = w_cache w
     | Inr resp \<Rightarrow> out = Panicked \<or> out = Responded (apply_status CacheStatusBypass resp)"
  using assms unfolding handleUnrecognizedMethod_def upstream_RoundTrip_def Let_def
  by (auto split: sum.splits if_splits prod.splits option.splits)

subsection \<open>The decision on a stored response\<close>

text \<open>
  The response has a \<open>no-cache\<close> directive that names no field; the freshness a request finds; the
  conditions under which the stored response is served without asking the origin.
\<close>

definition unqualified_no_cache :: "directive_map \<Rightarrow> bool" where
  "unqualified_no_cache resCC \<longleftrightarrow>
     (case Resp_NoCache resCC of None \<Rightarrow> False | Some raw \<Rightarrow> RawCSV_Value raw = None)"

definition no_cache_fields :: "directive_map \<Rightarrow> string list" where
  "no_cache_fields resCC =
     (case Resp_NoCache resCC of
        None \<Rightarrow> [] | Some raw \<Rightarrow> (case RawCSV_Value raw of None \<Rightarrow> [] | Some fs \<Rightarrow> fs))"

definition found_freshness :: "'s env \<Rightarrow> 's world \<Rightarrow> http_request \<Rightarrow> entry \<Rightarrow> Freshness" where
  "found_freshness env w req e =
     fst (CalculateFreshness (e_lib env) (e_clk env) (w_tick w) e (ParseCCRequestDirectives (req_Header req))
       (ParseCCResponseDirectives (resp_Header (ent_Data e))))"

definition found_tick :: "'s env \<Rightarrow> 's world \<Rightarrow> http_request \<Rightarrow> entry \<Rightarrow> nat" where
  "found_tick env w req e =
     snd (CalculateFreshness (e_lib env) (e_clk env) (w_tick w) e (ParseCCRequestDirectives (req_Header req))
       (ParseCCResponseDirectives (resp_Header (ent_Data e))))"

definition may_serve :: "bool \<Rightarrow> directive_map \<Rightarrow> directive_map \<Rightarrow> bool" where
  "may_serve stale reqCC resCC \<longleftrightarrow>
     (\<not> stale \<and> \<not> Req_NoCache reqCC \<and> (Resp_Immutable resCC \<or> \<not> unqualified_no_cache resCC)) \<or>
     (Req_OnlyIfCached reqCC \<and> \<not> (stale \<and> Resp_MustRevalidate resCC) \<and> \<not> unqualified_no_cache resCC)"

definition may_serve_stale :: "'s env \<Rightarrow> nat \<Rightarrow> Freshness \<Rightarrow> directive_map \<Rightarrow> bool" where
  "may_serve_stale env n f resCC \<longleftrightarrow>
     in_swr_window env n f resCC \<and> \<not> Resp_MustRevalidate resCC \<and> \<not> unqualified_no_cache resCC"

lemma serveFromCache_no_fields: "serveFromCache env w e f q [] = serveFromCache env w e f True []"
  by (cases q) (simp_all add: serveFromCache_def Let_def)

lemma handleCacheHit_cases:
  assumes "handleCacheHit env w req e k refs i = (out, w')"
  defines "reqCC \<equiv> ParseCCRequestDirectives (req_Header req)"
    and "resCC \<equiv> ParseCCResponseDirectives (resp_Header (ent_Data e))"
    and "f \<equiv> found_freshness env w req e"
  obtains
    (serve) w1 where "may_serve (fr_IsStale f) reqCC resCC" "w_sent w1 = w_sent w" "w_cache w1 = w_cache w"
      "w_pending w1 = w_pending w"
      "serveFromCache env w1 e f True (no_cache_fields resCC) = (out, w')"
      "w_tick w1 = found_tick env w req e"
  | (stale) w1 where "\<not> may_serve (fr_IsStale f) reqCC resCC" "may_serve_stale env (found_tick env w req e) f resCC"
      "w_sent w1 = w_sent w" "w_cache w1 = w_cache w" "w_pending w1 = w_pending w"
      "handleStaleWhileRevalidate env w1 req e k f reqCC = (out, w')"
  | (ask) w1 where "\<not> may_serve (fr_IsStale f) reqCC resCC"
      "\<not> may_serve_stale env (found_tick env w req e) f resCC" "w_sent w1 = w_sent w" "w_cache w1 = w_cache w"
      "w_pending w1 = w_pending w" "revalidate env w1 req e k refs i f reqCC = (out, w')"
proof -
  define n where "n = found_tick env w req e"
  have n: "CalculateFreshness (e_lib env) (e_clk env) (w_tick w) e reqCC resCC = (f, n)"
    unfolding f_def n_def found_freshness_def found_tick_def reqCC_def resCC_def by simp
  define w1 where "w1 = w\<lparr>w_tick := n\<rparr>"
  have w1: "w_sent w1 = w_sent w" "w_cache w1 = w_cache w" "w_pending w1 = w_pending w"
    by (simp_all add: w1_def)
  obtain b w2 where swr: "swr_window env w1 f resCC = (b, w2)" by fastforce
  note w2 = swr_window_world [OF swr]
  have window: "b = in_swr_window env n f resCC" using w2 by (simp add: w1_def)
  define q where "q \<longleftrightarrow> (case Resp_NoCache resCC of Some raw \<Rightarrow> RawCSV_Value raw | None \<Rightarrow> None) \<noteq> None"
  have fields: "(case (case Resp_NoCache resCC of Some raw \<Rightarrow> RawCSV_Value raw | None \<Rightarrow> None) of
      Some fs \<Rightarrow> fs | None \<Rightarrow> []) = no_cache_fields resCC"
    by (auto simp: no_cache_fields_def split: option.splits)
  have unq: "Resp_NoCache resCC \<noteq> None \<and> \<not> q \<longleftrightarrow> unqualified_no_cache resCC"
    by (auto simp: q_def unqualified_no_cache_def split: option.splits)
  have srv: "serveFromCache env w1 e f q (no_cache_fields resCC)
      = serveFromCache env w1 e f True (no_cache_fields resCC)"
    by (cases q) (auto simp: q_def no_cache_fields_def serveFromCache_no_fields [of _ _ _ _ False]
        split: option.splits)
  note def = assms(1) [unfolded handleCacheHit_def, folded reqCC_def resCC_def, unfolded n Let_def prod.case,
      folded w1_def q_def, unfolded fields swr prod.case srv unq]
  consider "may_serve (fr_IsStale f) reqCC resCC"
    | "\<not> may_serve (fr_IsStale f) reqCC resCC" "may_serve_stale env n f resCC"
    | "\<not> may_serve (fr_IsStale f) reqCC resCC" "\<not> may_serve_stale env n f resCC"
    by blast
  then show ?thesis
  proof cases
    case 1
    then have "serveFromCache env w1 e f True (no_cache_fields resCC) = (out, w')"
      using def by (auto simp: may_serve_def split: if_splits)
    then show ?thesis by (rule serve [OF 1 w1]) (simp add: w1_def n_def)
  next
    case 2
    then have "handleStaleWhileRevalidate env w2 req e k f reqCC = (out, w')"
      using def by (auto simp: may_serve_def may_serve_stale_def in_swr_window_def window split: if_splits)
    then show ?thesis using 2 w1 w2 by (intro stale [of w2]) (simp_all add: n_def)
  next
    case 3
    then have "revalidate env w1 req e k refs i f reqCC = (out, w') \<or> revalidate env w2 req e k refs i f reqCC = (out, w')"
      using def by (auto simp: may_serve_def may_serve_stale_def in_swr_window_def window split: if_splits)
    then show ?thesis using ask [OF 3 [unfolded n_def]] w1 w2 by metis
  qed
qed

subsection \<open>The stored response a request selects\<close>

text \<open>
  Over the contents of a backend: the sorted references, the index and the entry that a request
  selects.
\<close>

definition selects ::
  "golib \<Rightarrow> codec \<Rightarrow> (string \<rightharpoonup> bytes) \<Rightarrow> string \<Rightarrow> http_request \<Rightarrow> (ResponseRefs \<times> nat \<times> entry) option" where
  "selects lib cd m k req =
     (case VaryHeadersMatch lib (stored_refs cd m k) (req_Header req) of
        (refs, None) \<Rightarrow> None
      | (refs, Some i) \<Rightarrow>
          (case stored_entry cd m (ref_ResponseID (refs ! i)) req of
             None \<Rightarrow> None | Some e \<Rightarrow> Some (refs, i, e)))"

text \<open>The keys that a request for the URL key \<open>k\<close> reads.\<close>

definition reads_good :: "(string \<Rightarrow> bool) \<Rightarrow> codec \<Rightarrow> (string \<rightharpoonup> bytes) \<Rightarrow> string \<Rightarrow> bool" where
  "reads_good good cd m k \<longleftrightarrow> good k \<and> (\<forall>i \<in> set (ResponseIDs (stored_refs cd m k)). good i)"

lemma VaryHeadersMatch_Nil [simp]: "VaryHeadersMatch lib [] h = ([], None)"
  by (simp add: VaryHeadersMatch_def SortFunc_def)

context driver_conn
begin

lemma RoundTrip_selects:
  assumes conn: "e_conn env = cache" and inv: "invar (w_cache w)"
    and k: "Normalize (e_lib env) (req_URL req) = Some k" "isRequestMethodUnderstood req"
    and good: "reads_good good (e_codec env) (contents (w_cache w)) k"
  obtains w1 where "contents (w_cache w1) = contents (w_cache w)" "invar (w_cache w1)"
    "w_tick w1 = w_tick w" "w_sent w1 = w_sent w" "w_pending w1 = w_pending w"
    "case selects (e_lib env) (e_codec env) (contents (w_cache w)) k req of
       Some (refs, i, e) \<Rightarrow> RoundTrip env w req = handleCacheHit env w1 req e k refs i
     | None \<Rightarrow> \<exists>refs i. RoundTrip env w req = handleCacheMiss env w1 req k refs i \<and>
         set refs \<subseteq> set (stored_refs (e_codec env) (contents (w_cache w)) k)"
proof -
  define m where "m = contents (w_cache w)"
  have gk: "good k" using good by (simp add: reads_good_def)
  obtain r s where r: "rc_GetRefs (e_codec env) cache (w_cache w) k = (r, s)" by fastforce
  have s: "refs_or_nil r = stored_refs (e_codec env) m k" "contents s = m" "invar s"
    using rc_GetRefs_result [OF inv gk, of "e_codec env"] r by (simp_all add: m_def)
  note RT = RoundTrip_def [of env w req, unfolded k(1) option.case conn r Let_def prod.case]
  show ?thesis
  proof (cases "stored_refs (e_codec env) m k")
    case Nil
    then have "RoundTrip env w req = handleCacheMiss env (w\<lparr>w_cache := s\<rparr>) req k [] (-1)"
      using RT k(2) s(1) by (simp add: refs_or_nil_def split: sum.splits)
    moreover have "selects (e_lib env) (e_codec env) m k req = None"
      by (simp add: selects_def Nil)
    ultimately show ?thesis using s by (intro that [of "w\<lparr>w_cache := s\<rparr>"]) (auto simp: m_def)
  next
    case (Cons ref rest)
    then have rs: "r = Inr (ref # rest)" using s(1) by (auto simp: refs_or_nil_def split: sum.splits)
    obtain refs found where match: "VaryHeadersMatch (e_lib env) (ref # rest) (req_Header req) = (refs, found)"
      by fastforce
    have sub: "set refs = set (stored_refs (e_codec env) m k)"
      using match VaryHeadersMatch_sorted [of "e_lib env" "ref # rest" "req_Header req"] vm.set_SortFunc Cons
      by (metis fst_conv)
    show ?thesis
    proof (cases found)
      case None
      then have "RoundTrip env w req = handleCacheMiss env (w\<lparr>w_cache := s\<rparr>) req k refs (-1)"
        using RT k(2) rs match by simp
      moreover have "selects (e_lib env) (e_codec env) m k req = None"
        by (simp add: selects_def Cons match None)
      ultimately show ?thesis using s sub by (intro that [of "w\<lparr>w_cache := s\<rparr>"]) (auto simp: m_def)
    next
      case (Some i)
      note found = VaryHeadersMatch_found [OF match [unfolded Some]]
      have gi: "good (ref_ResponseID (refs ! i))"
        using good found(1,2) Cons by (auto simp: reads_good_def ResponseIDs_def m_def)
      obtain r2 s2 where r2: "rc_Get (e_codec env) cache s (ref_ResponseID (refs ! i)) req = (r2, s2)"
        by fastforce
      have s2: "contents s2 = m" "invar s2"
        "(case r2 of Inl _ \<Rightarrow> None | Inr e \<Rightarrow> Some e) = stored_entry (e_codec env) m (ref_ResponseID (refs ! i)) req"
        using rc_Get_result [OF s(3) gi, of "e_codec env" req] r2 s(2) by simp_all
      have "RoundTrip env w req = (case r2 of
          Inl _ \<Rightarrow> handleCacheMiss env (w\<lparr>w_cache := s2\<rparr>) req k refs (int i)
        | Inr e \<Rightarrow> handleCacheHit env (w\<lparr>w_cache := s2\<rparr>) req e k refs i)"
        using RT k(2) rs match Some r2 conn by (simp split: sum.split)
      moreover have "selects (e_lib env) (e_codec env) m k req = (case r2 of Inl _ \<Rightarrow> None | Inr e \<Rightarrow> Some (refs, i, e))"
        by (simp add: selects_def Cons match Some s2(3) [symmetric] split: sum.split)
      ultimately show ?thesis using s2 sub
        by (intro that [of "w\<lparr>w_cache := s2\<rparr>"]) (auto simp: m_def split: sum.splits)
    qed
  qed
qed

end

end
