(* ===== verification/Reuse.thy ===== *)
theory Reuse
  imports TransportLaws
begin

text \<open>
  What a whole round trip may return: the status of every response, the requests sent for it, and,
  over a backend that keeps its contract, when a stored response is used without asking the origin.
\<close>

subsection \<open>Every round trip\<close>

lemma RoundTrip_understood:
  assumes "Normalize (e_lib env) (req_URL req) = Some k" "isRequestMethodUnderstood req"
  shows "\<exists>s refs. (\<exists>i. RoundTrip env w req = handleCacheMiss env (w\<lparr>w_cache := s\<rparr>) req k refs i) \<or>
    (\<exists>i e. RoundTrip env w req = handleCacheHit env (w\<lparr>w_cache := s\<rparr>) req e k refs i)"
proof -
  obtain r s where r: "rc_GetRefs (e_codec env) (e_conn env) (w_cache w) k = (r, s)" by fastforce
  note RT = RoundTrip_def [of env w req, unfolded assms(1) option.case r Let_def prod.case]
  show ?thesis
  proof (cases "refs_or_nil r")
    case Nil
    then have "RoundTrip env w req = handleCacheMiss env (w\<lparr>w_cache := s\<rparr>) req k [] (-1)"
      using RT assms(2) by (simp add: refs_or_nil_def split: sum.splits)
    then show ?thesis by blast
  next
    case (Cons ref rest)
    then have rs: "r = Inr (ref # rest)" by (auto simp: refs_or_nil_def split: sum.splits)
    obtain refs found where match: "VaryHeadersMatch (e_lib env) (ref # rest) (req_Header req) = (refs, found)"
      by fastforce
    obtain r2 s2 where r2: "rc_Get (e_codec env) (e_conn env) s (ref_ResponseID (refs ! the found)) req = (r2, s2)"
      by fastforce
    have "RoundTrip env w req = (case found of
        None \<Rightarrow> handleCacheMiss env (w\<lparr>w_cache := s\<rparr>) req k refs (-1)
      | Some i \<Rightarrow> (case r2 of
          Inl _ \<Rightarrow> handleCacheMiss env (w\<lparr>w_cache := s2\<rparr>) req k refs (int i)
        | Inr e \<Rightarrow> handleCacheHit env (w\<lparr>w_cache := s2\<rparr>) req e k refs i))"
      using RT assms(2) rs match r2 by (cases found; cases r2) simp_all
    then show ?thesis by (cases found; cases r2; simp; blast)
  qed
qed

text \<open>The four ways of a round trip, whatever the backend does.\<close>

lemma RoundTrip_cases:
  assumes "RoundTrip env w req = (out, w')"
  obtains
    (no_key) "Normalize (e_lib env) (req_URL req) = None" "out = Panicked" "w' = w"
  | (bypass) k where "Normalize (e_lib env) (req_URL req) = Some k" "\<not> isRequestMethodUnderstood req"
      "handleUnrecognizedMethod env w req k = (out, w')"
  | (miss) k refs i w1 where "Normalize (e_lib env) (req_URL req) = Some k" "isRequestMethodUnderstood req"
      "w_sent w1 = w_sent w" "w_tick w1 = w_tick w" "w_pending w1 = w_pending w"
      "handleCacheMiss env w1 req k refs i = (out, w')"
  | (hit) k refs i w1 e where "Normalize (e_lib env) (req_URL req) = Some k" "isRequestMethodUnderstood req"
      "w_sent w1 = w_sent w" "w_tick w1 = w_tick w" "w_pending w1 = w_pending w"
      "handleCacheHit env w1 req e k refs i = (out, w')"
proof (cases "Normalize (e_lib env) (req_URL req)")
  case None
  with assms show ?thesis by (intro no_key) (simp_all add: RoundTrip_def)
next
  case (Some k)
  show ?thesis
  proof (cases "isRequestMethodUnderstood req")
    case True
    obtain s refs where "(\<exists>i. RoundTrip env w req = handleCacheMiss env (w\<lparr>w_cache := s\<rparr>) req k refs i) \<or>
        (\<exists>i e. RoundTrip env w req = handleCacheHit env (w\<lparr>w_cache := s\<rparr>) req e k refs i)"
      using RoundTrip_understood [OF Some True] by blast
    then show ?thesis
      using assms miss [OF Some True, of "w\<lparr>w_cache := s\<rparr>"] hit [OF Some True, of "w\<lparr>w_cache := s\<rparr>"] by auto
  next
    case False
    with assms Some show ?thesis by (intro bypass) (simp_all add: RoundTrip_def)
  qed
qed

lemma handleCacheHit_outcome:
  assumes "handleCacheHit env w req e k refs i = (out, w')"
  shows "(w_sent w' = w_sent w \<and> (\<exists>r. out = Responded r \<and> status_of r \<in> {''HIT'', ''STALE''} \<and> from_cache r = ''1'')) \<or>
    (\<exists>req'. w_sent w' = w_sent w @ [req'] \<and>
      (out = Panicked \<or> (\<exists>err. out = Failed err) \<or> (\<exists>r. out = Responded r \<and>
        (status_of r \<in> {''REVALIDATED'', ''STALE''} \<and> from_cache r = ''1'' \<or> status_of r \<in> {''MISS'', ''BYPASS''}))))"
  using assms
proof (cases rule: handleCacheHit_cases)
  case (serve w1)
  then show ?thesis using serveFromCache_world by fastforce
next
  case (stale w1)
  then show ?thesis using handleStaleWhileRevalidate_world by fastforce
next
  case (ask w1)
  then show ?thesis using revalidate_world [OF ask(6)] by (fastforce split: sum.splits)
qed

lemma status_504: "status_of make504Response = ''BYPASS''"
  by (simp add: status_of_def make504Response_def Header_Get_def Header_Values_def header_values_def
      CacheStatusHeader_def)

lemma RoundTrip_outcome:
  assumes "RoundTrip env w req = (Responded r, w')"
  shows "(status_of r \<in> {''HIT'', ''STALE'', ''REVALIDATED''} \<and> from_cache r = ''1'' \<or>
      status_of r \<in> {''MISS'', ''BYPASS''}) \<and>
    (status_of r = ''HIT'' \<longrightarrow> w_sent w' = w_sent w) \<and>
    (status_of r \<in> {''MISS'', ''REVALIDATED''} \<longrightarrow> length (w_sent w') = Suc (length (w_sent w)))"
  using assms
proof (cases rule: RoundTrip_cases)
  case (bypass k)
  then show ?thesis using handleUnrecognizedMethod_world [OF bypass(3)]
    by (auto split: sum.splits)
next
  case (miss k refs i w1)
  then show ?thesis using handleCacheMiss_world(2) [OF miss(6)]
    by (auto split: if_splits sum.splits simp: status_504)
next
  case (hit k refs i w1 e)
  then show ?thesis using handleCacheHit_outcome [OF hit(6)] by auto
qed simp

lemma withConditional_not_unsafe:
  "isRequestMethodUnderstood req \<Longrightarrow> \<not> IsUnsafeMethod (req_Method (withConditionalHeaders req h))"
  by (simp add: isRequestMethodUnderstood_def IsUnsafeMethod_def)

lemma HandleValidationResponse_no_panic:
  "\<not> IsUnsafeMethod (req_Method req) \<Longrightarrow> fst (HandleValidationResponse env ctx req resp w) \<noteq> Panicked"
  by (auto simp: HandleValidationResponse_def Let_def case_prod_beta)

text \<open>A round trip panics for a URL without scheme only.\<close>

lemma RoundTrip_no_panic:
  assumes "RoundTrip env w req = (out, w')" "url_Scheme (req_URL req) \<noteq> []"
  shows "out \<noteq> Panicked"
  using assms(1)
proof (cases rule: RoundTrip_cases)
  case no_key
  then show ?thesis using assms(2) by (simp add: Normalize_None_iff)
next
  case (bypass k)
  have np: "InvalidateCache lib cd conn s (req_URL req) h refs key = (True, s') \<Longrightarrow> False" for lib cd conn s h refs key s'
    using InvalidateCache_total [OF assms(2), of lib cd conn s h refs key] by simp
  from bypass show ?thesis
    by (auto simp: handleUnrecognizedMethod_def Let_def split: sum.splits if_splits prod.splits dest: np)
next
  case (miss k refs i w1)
  then show ?thesis using handleCacheMiss_world(2) [OF miss(6)] by (auto split: if_splits sum.splits)
next
  case (hit k refs i w1 e)
  from hit(6) show ?thesis
  proof (cases rule: handleCacheHit_cases)
    case (serve w2)
    then show ?thesis using serveFromCache_world by fastforce
  next
    case (stale w2)
    then show ?thesis using handleStaleWhileRevalidate_world by fastforce
  next
    case (ask w2)
    have np: "HandleValidationResponse env ctx (withConditionalHeaders req h) resp w3 = (Panicked, w4) \<Longrightarrow> False"
      for ctx h resp w3 w4
      using HandleValidationResponse_no_panic [OF withConditional_not_unsafe [OF hit(2)]] by (metis fst_conv)
    from ask show ?thesis
      by (auto simp: revalidate_def Let_def case_prod_beta split: sum.splits dest: np)
  qed
qed

lemma RoundTrip_sent:
  assumes "RoundTrip env w req = (out, w')"
  shows "w_sent w' = w_sent w \<or> (\<exists>req'. w_sent w' = w_sent w @ [req'])"
  using assms
proof (cases rule: RoundTrip_cases)
  case (bypass k)
  then show ?thesis using handleUnrecognizedMethod_world(1) by blast
next
  case (miss k refs i w1)
  then show ?thesis using handleCacheMiss_world(2) [OF miss(6)] by (auto split: if_splits)
next
  case (hit k refs i w1 e)
  then show ?thesis using handleCacheHit_outcome [OF hit(6)] by auto
qed simp

subsection \<open>Round trips over a backend that keeps its contract\<close>

lemma found_freshness_cong: "w_tick w1 = w_tick w \<Longrightarrow> found_freshness env w1 req e = found_freshness env w req e"
  by (simp add: found_freshness_def)

lemma found_tick_cong: "w_tick w1 = w_tick w \<Longrightarrow> found_tick env w1 req e = found_tick env w req e"
  by (simp add: found_tick_def)

text \<open>The directives of a request and of a stored response.\<close>

abbreviation req_cc :: "http_request \<Rightarrow> directive_map" where
  "req_cc req \<equiv> ParseCCRequestDirectives (req_Header req)"

abbreviation resp_cc :: "http_response \<Rightarrow> directive_map" where
  "resp_cc r \<equiv> ParseCCResponseDirectives (resp_Header r)"

text \<open>The stored response is used without asking the origin, in this world.\<close>

definition reusable :: "'s env \<Rightarrow> 's world \<Rightarrow> http_request \<Rightarrow> entry \<Rightarrow> bool" where
  "reusable env w req e \<longleftrightarrow>
     may_serve (fr_IsStale (found_freshness env w req e)) (req_cc req) (resp_cc (ent_Data e))"

definition reusable_stale :: "'s env \<Rightarrow> 's world \<Rightarrow> http_request \<Rightarrow> entry \<Rightarrow> bool" where
  "reusable_stale env w req e \<longleftrightarrow>
     may_serve_stale env (found_tick env w req e) (found_freshness env w req e) (resp_cc (ent_Data e))"

text \<open>
  The origin was asked: one request went out and nothing was queued; when it failed, so did the round
  trip, with the error of the origin and the contents of the cache as they were.
\<close>

definition asked ::
  "'s env \<Rightarrow> ('s \<Rightarrow> string \<rightharpoonup> bytes) \<Rightarrow> 's world \<Rightarrow> http_request \<Rightarrow> outcome \<Rightarrow> 's world \<Rightarrow> bool" where
  "asked env contents w req out w' \<longleftrightarrow>
     w_sent w' = w_sent w @ [req] \<and> w_pending w' = w_pending w \<and>
     (case e_upstream env (length (w_sent w)) req of
        Inl err \<Rightarrow> out = Failed err \<and> contents (w_cache w') = contents (w_cache w)
      | Inr resp \<Rightarrow> \<forall>err. out \<noteq> Failed err)"

context driver_conn
begin

lemma RoundTrip_hit:
  assumes conn: "e_conn env = cache" and inv: "invar (w_cache w)"
    and k: "Normalize (e_lib env) (req_URL req) = Some k" "isRequestMethodUnderstood req"
    and good: "reads_good good (e_codec env) (contents (w_cache w)) k"
    and sel: "selects (e_lib env) (e_codec env) (contents (w_cache w)) k req = Some (refs, i, e)"
    and rt: "RoundTrip env w req = (out, w')"
  shows "reusable env w req e \<Longrightarrow>
      contents (w_cache w') = contents (w_cache w) \<and> w_sent w' = w_sent w \<and> w_pending w' = w_pending w \<and>
      (\<exists>r. out = Responded r \<and> status_of r = ''HIT'' \<and> from_cache r = ''1'' \<and>
        resp_StatusCode r = resp_StatusCode (ent_Data e) \<and> resp_Body r = resp_Body (ent_Data e))"
    and "\<not> reusable env w req e \<Longrightarrow> reusable_stale env w req e \<Longrightarrow>
      contents (w_cache w') = contents (w_cache w) \<and> w_sent w' = w_sent w \<and>
      length (w_pending w') = Suc (length (w_pending w)) \<and>
      out = Responded (apply_status CacheStatusStale (ent_Data e))"
    and "\<not> reusable env w req e \<Longrightarrow> \<not> reusable_stale env w req e \<Longrightarrow>
      w_sent w' = w_sent w @ [withConditionalHeaders req (resp_Header (ent_Data e))] \<and>
      w_pending w' = w_pending w"
proof -
  obtain w1 where w1: "contents (w_cache w1) = contents (w_cache w)" "w_tick w1 = w_tick w"
    "w_sent w1 = w_sent w" "w_pending w1 = w_pending w"
    and "RoundTrip env w req = handleCacheHit env w1 req e k refs i"
    by (rule RoundTrip_selects [OF conn inv k good, unfolded sel option.case prod.case])
  then have hit: "handleCacheHit env w1 req e k refs i = (out, w')" using rt by (simp only:)
  note fr = found_freshness_cong [OF w1(2), of env req e] found_tick_cong [OF w1(2), of env req e]
  from hit have "(reusable env w req e \<longrightarrow>
      contents (w_cache w') = contents (w_cache w) \<and> w_sent w' = w_sent w \<and> w_pending w' = w_pending w \<and>
      (\<exists>r. out = Responded r \<and> status_of r = ''HIT'' \<and> from_cache r = ''1'' \<and>
        resp_StatusCode r = resp_StatusCode (ent_Data e) \<and> resp_Body r = resp_Body (ent_Data e))) \<and>
    (\<not> reusable env w req e \<longrightarrow> reusable_stale env w req e \<longrightarrow>
      contents (w_cache w') = contents (w_cache w) \<and> w_sent w' = w_sent w \<and>
      length (w_pending w') = Suc (length (w_pending w)) \<and>
      out = Responded (apply_status CacheStatusStale (ent_Data e))) \<and>
    (\<not> reusable env w req e \<longrightarrow> \<not> reusable_stale env w req e \<longrightarrow>
      w_sent w' = w_sent w @ [withConditionalHeaders req (resp_Header (ent_Data e))] \<and>
      w_pending w' = w_pending w)"
  proof (cases rule: handleCacheHit_cases)
    case (serve w2)
    then show ?thesis using serveFromCache_world [OF serve(5)] w1 by (simp add: reusable_def fr)
  next
    case (stale w2)
    then show ?thesis using handleStaleWhileRevalidate_world [OF stale(6)] w1
      by (simp add: reusable_def reusable_stale_def fr)
  next
    case (ask w2)
    then show ?thesis using revalidate_world(1,2) [OF ask(6)] w1
      by (simp add: reusable_def reusable_stale_def fr)
  qed
  then show "reusable env w req e \<Longrightarrow>
      contents (w_cache w') = contents (w_cache w) \<and> w_sent w' = w_sent w \<and> w_pending w' = w_pending w \<and>
      (\<exists>r. out = Responded r \<and> status_of r = ''HIT'' \<and> from_cache r = ''1'' \<and>
        resp_StatusCode r = resp_StatusCode (ent_Data e) \<and> resp_Body r = resp_Body (ent_Data e))"
    "\<not> reusable env w req e \<Longrightarrow> reusable_stale env w req e \<Longrightarrow>
      contents (w_cache w') = contents (w_cache w) \<and> w_sent w' = w_sent w \<and>
      length (w_pending w') = Suc (length (w_pending w)) \<and>
      out = Responded (apply_status CacheStatusStale (ent_Data e))"
    "\<not> reusable env w req e \<Longrightarrow> \<not> reusable_stale env w req e \<Longrightarrow>
      w_sent w' = w_sent w @ [withConditionalHeaders req (resp_Header (ent_Data e))] \<and>
      w_pending w' = w_pending w"
    by blast+
qed

lemma RoundTrip_miss:
  assumes conn: "e_conn env = cache" and inv: "invar (w_cache w)"
    and k: "Normalize (e_lib env) (req_URL req) = Some k" "isRequestMethodUnderstood req"
    and good: "reads_good good (e_codec env) (contents (w_cache w)) k"
    and sel: "selects (e_lib env) (e_codec env) (contents (w_cache w)) k req = None"
    and rt: "RoundTrip env w req = (out, w')"
  shows "Req_OnlyIfCached (req_cc req) \<Longrightarrow>
      out = Responded make504Response \<and> contents (w_cache w') = contents (w_cache w) \<and> w_sent w' = w_sent w"
    and "\<not> Req_OnlyIfCached (req_cc req) \<Longrightarrow> w_sent w' = w_sent w @ [req]"
    and "w_pending w' = w_pending w"
proof -
  obtain w1 where w1: "contents (w_cache w1) = contents (w_cache w)" "w_tick w1 = w_tick w"
    "w_sent w1 = w_sent w" "w_pending w1 = w_pending w"
    and "\<exists>refs i. RoundTrip env w req = handleCacheMiss env w1 req k refs i \<and>
      set refs \<subseteq> set (stored_refs (e_codec env) (contents (w_cache w)) k)"
    by (rule RoundTrip_selects [OF conn inv k good, unfolded sel option.case])
  then obtain refs i where "RoundTrip env w req = handleCacheMiss env w1 req k refs i" by blast
  then have miss: "handleCacheMiss env w1 req k refs i = (out, w')" using rt by (simp only:)
  show "Req_OnlyIfCached (req_cc req) \<Longrightarrow>
      out = Responded make504Response \<and> contents (w_cache w') = contents (w_cache w) \<and> w_sent w' = w_sent w"
    "\<not> Req_OnlyIfCached (req_cc req) \<Longrightarrow> w_sent w' = w_sent w @ [req]" "w_pending w' = w_pending w"
    using handleCacheMiss_world [OF miss] w1 by simp_all
qed

lemma RoundTrip_decision:
  assumes conn: "e_conn env = cache" and inv: "invar (w_cache w)"
    and k: "Normalize (e_lib env) (req_URL req) = Some k" "isRequestMethodUnderstood req"
    and good: "reads_good good (e_codec env) (contents (w_cache w)) k"
    and rt: "RoundTrip env w req = (out, w')"
  shows "case selects (e_lib env) (e_codec env) (contents (w_cache w)) k req of
      Some (refs, i, e) \<Rightarrow> reusable env w req e \<or> reusable_stale env w req e \<or>
        asked env contents w (withConditionalHeaders req (resp_Header (ent_Data e))) out w'
    | None \<Rightarrow> Req_OnlyIfCached (req_cc req) \<or> asked env contents w req out w'"
proof (cases "selects (e_lib env) (e_codec env) (contents (w_cache w)) k req")
  case None
  obtain w1 where w1: "contents (w_cache w1) = contents (w_cache w)" "w_sent w1 = w_sent w" "w_pending w1 = w_pending w"
    and "\<exists>refs i. RoundTrip env w req = handleCacheMiss env w1 req k refs i \<and>
      set refs \<subseteq> set (stored_refs (e_codec env) (contents (w_cache w)) k)"
    by (rule RoundTrip_selects [OF conn inv k good, unfolded None option.case])
  then obtain refs i where "handleCacheMiss env w1 req k refs i = (out, w')" using rt by auto
  from handleCacheMiss_world [OF this] w1 None show ?thesis by (auto simp: asked_def split: sum.splits)
next
  case (Some x)
  obtain refs i e where x: "x = (refs, i, e)" by (cases x)
  obtain w1 where w1: "contents (w_cache w1) = contents (w_cache w)" "w_tick w1 = w_tick w"
    "w_sent w1 = w_sent w" "w_pending w1 = w_pending w"
    and "RoundTrip env w req = handleCacheHit env w1 req e k refs i"
    by (rule RoundTrip_selects [OF conn inv k good, unfolded Some x option.case prod.case])
  then have "handleCacheHit env w1 req e k refs i = (out, w')" using rt by (simp only:)
  then show ?thesis
  proof (cases rule: handleCacheHit_cases)
    case (ask w2)
    from revalidate_world [OF ask(6)] ask w1 Some x show ?thesis by (auto simp: asked_def split: sum.splits)
  qed (simp_all add: Some x reusable_def reusable_stale_def found_freshness_cong [OF w1(2)] found_tick_cong [OF w1(2)])
qed

text \<open>A response that cost no request to the origin was reusable, or is the 504 response.\<close>

lemma RoundTrip_reuse:
  assumes conn: "e_conn env = cache" and inv: "invar (w_cache w)"
    and k: "Normalize (e_lib env) (req_URL req) = Some k"
    and good: "reads_good good (e_codec env) (contents (w_cache w)) k"
    and rt: "RoundTrip env w req = (Responded r, w')" "w_sent w' = w_sent w"
  shows "isRequestMethodUnderstood req \<and>
    (Req_OnlyIfCached (req_cc req) \<and> r = make504Response \<or>
     (\<exists>refs i e. selects (e_lib env) (e_codec env) (contents (w_cache w)) k req = Some (refs, i, e) \<and>
       (reusable env w req e \<or> reusable_stale env w req e) \<and>
       resp_StatusCode r = resp_StatusCode (ent_Data e) \<and> resp_Body r = resp_Body (ent_Data e)))"
proof -
  have u: "isRequestMethodUnderstood req"
    using rt(2) k by (cases rule: RoundTrip_cases [OF rt(1)]) (auto dest: handleUnrecognizedMethod_world(1))
  show ?thesis
  proof (cases "selects (e_lib env) (e_codec env) (contents (w_cache w)) k req")
    case None
    with RoundTrip_miss [OF conn inv k u good None rt(1)] rt(2) u show ?thesis by auto
  next
    case (Some x)
    obtain refs i e where x: "x = (refs, i, e)" by (cases x)
    note hit = RoundTrip_hit [OF conn inv k u good Some [unfolded x] rt(1)]
    show ?thesis using hit rt(2) u Some x
      by (cases "reusable env w req e"; cases "reusable_stale env w req e") auto
  qed
qed

end

end
