(* ===== verification/Lifecycle.thy ===== *)
theory Lifecycle
  imports Reuse
begin

text \<open>
  The life of a stored response over a backend that keeps its contract: a miss stores what a later
  request selects, and an unsafe request deletes it.
\<close>

subsection \<open>Cache misses\<close>

text \<open>The response of the upstream, as the round trip uses it: with a valid \<open>Date\<close>.\<close>

definition dated_response :: "'s env \<Rightarrow> 's world \<Rightarrow> http_response \<Rightarrow> http_response" where
  "dated_response env w resp =
     resp\<lparr>resp_Header := fst (FixDateHeader (e_lib env) (resp_Header resp) (e_clk env (Suc (w_tick w))))\<rparr>"

text \<open>The entry and the reference that a cache miss in this world stores.\<close>

definition fetched_entry :: "'s env \<Rightarrow> 's world \<Rightarrow> http_request \<Rightarrow> string \<Rightarrow> http_response \<Rightarrow> entry" where
  "fetched_entry env w req k resp =
     new_entry (e_lib env) req (dated_response env w resp) k (e_clk env (w_tick w)) (e_clk env (Suc (w_tick w)))"

definition fetched_ref :: "'s env \<Rightarrow> 's world \<Rightarrow> http_request \<Rightarrow> string \<Rightarrow> http_response \<Rightarrow> ResponseRef" where
  "fetched_ref env w req k resp =
     new_ref (e_lib env) req (dated_response env w resp) k (e_clk env (w_tick w)) (e_clk env (Suc (w_tick w)))"

lemma handleCacheMiss_fetch:
  assumes "\<not> Req_OnlyIfCached (req_cc req)" "e_upstream env (length (w_sent w)) req = Inr resp"
  shows "handleCacheMiss env w req k refs i =
    (let d = dated_response env w resp;
         w1 = w\<lparr>w_sent := w_sent w @ [req], w_tick := Suc (Suc (w_tick w))\<rparr>
     in if canStoreResponse d (req_cc req) (resp_cc d)
        then (Responded (apply_status CacheStatusMiss (removeHopByHopHeaders d)),
              snd (store_response env w1 req d k refs (e_clk env (w_tick w)) (e_clk env (Suc (w_tick w))) i))
        else (Responded (apply_status CacheStatusMiss d), w1))"
  using assms by (simp add: handleCacheMiss_def roundTripTimed_eq Let_def dated_response_def prod_eq_iff case_prod_beta)

context driver_conn
begin

lemma miss_stores:
  assumes conn: "e_conn env = cache" and inv: "invar (w_cache w)"
    and up: "\<not> Req_OnlyIfCached (req_cc req)" "e_upstream env (length (w_sent w)) req = Inr resp"
    and store: "canStoreResponse (dated_response env w resp) (req_cc req) (resp_cc (dated_response env w resp))"
    and codec: "storable (e_codec env) req' (fetched_entry env w req k resp)"
      "storable_refs (e_codec env) (place_ref refs i (fetched_ref env w req k resp))"
    and good: "good k" "good (ent_ID (fetched_entry env w req k resp))"
    and miss: "handleCacheMiss env w req k refs i = (out, w')"
  shows "invar (w_cache w')"
    and "stored_entry (e_codec env) (contents (w_cache w')) (ent_ID (fetched_entry env w req k resp)) req'
      = Some (fetched_entry env w req k resp)"
    and "stored_refs (e_codec env) (contents (w_cache w')) k = place_ref refs i (fetched_ref env w req k resp)"
    and "out = Responded (apply_status CacheStatusMiss (removeHopByHopHeaders (dated_response env w resp)))"
    and "w_sent w' = w_sent w @ [req]" and "w_tick w' = w_tick w + 2" and "w_pending w' = w_pending w"
proof -
  let ?d = "dated_response env w resp"
  define S where "S = StoreResponse (e_lib env) (e_codec env) cache (w_cache w) req ?d k refs
    (e_clk env (w_tick w)) (e_clk env (Suc (w_tick w))) i"
  have res: "out = Responded (apply_status CacheStatusMiss (removeHopByHopHeaders ?d))"
    "w' = w\<lparr>w_sent := w_sent w @ [req], w_tick := Suc (Suc (w_tick w)), w_cache := snd (snd S)\<rparr>"
    using miss handleCacheMiss_fetch [OF up, of k refs i] store
    by (simp_all add: Let_def store_response_def S_def conn case_prod_beta)
  note stored = StoreResponse_stored [OF inv good fetched_entry_def codec(1) _ codec(2), of refs i, folded S_def]
  show "invar (w_cache w')" "out = Responded (apply_status CacheStatusMiss (removeHopByHopHeaders ?d))"
    "w_sent w' = w_sent w @ [req]" "w_tick w' = w_tick w + 2" "w_pending w' = w_pending w"
    using res StoreResponse_invar [OF inv good(1), of "e_lib env" req ?d "e_codec env" refs] good(2)
    by (simp_all add: S_def fetched_entry_def new_entry_def)
  show "stored_entry (e_codec env) (contents (w_cache w')) (ent_ID (fetched_entry env w req k resp)) req'
      = Some (fetched_entry env w req k resp)"
    "stored_refs (e_codec env) (contents (w_cache w')) k = place_ref refs i (fetched_ref env w req k resp)"
    using stored res by (simp_all add: fetched_ref_def S_def)
qed

text \<open>The first response of a URL.\<close>

lemma fetch_stores:
  assumes conn: "e_conn env = cache" and inv: "invar (w_cache w)"
    and k: "Normalize (e_lib env) (req_URL req) = Some k" "isRequestMethodUnderstood req"
    and empty: "stored_refs (e_codec env) (contents (w_cache w)) k = []"
    and up: "\<not> Req_OnlyIfCached (req_cc req)" "e_upstream env (length (w_sent w)) req = Inr resp"
    and store: "canStoreResponse (dated_response env w resp) (req_cc req) (resp_cc (dated_response env w resp))"
    and codec: "storable (e_codec env) req' (fetched_entry env w req k resp)"
      "storable_refs (e_codec env) [fetched_ref env w req k resp]"
    and good: "good k" "good (ent_ID (fetched_entry env w req k resp))"
    and rt: "RoundTrip env w req = (out, w')"
  shows "invar (w_cache w')"
    and "stored_entry (e_codec env) (contents (w_cache w')) (ent_ID (fetched_entry env w req k resp)) req'
      = Some (fetched_entry env w req k resp)"
    and "stored_refs (e_codec env) (contents (w_cache w')) k = [fetched_ref env w req k resp]"
    and "out = Responded (apply_status CacheStatusMiss (removeHopByHopHeaders (dated_response env w resp)))"
    and "w_sent w' = w_sent w @ [req]" and "w_tick w' = w_tick w + 2" and "w_pending w' = w_pending w"
proof -
  let ?m = "contents (w_cache w)"
  have rg: "reads_good good (e_codec env) ?m k" using good(1) by (simp add: reads_good_def empty ResponseIDs_def)
  have none: "selects (e_lib env) (e_codec env) ?m k req = None" by (simp add: selects_def empty)
  obtain w1 where w1: "contents (w_cache w1) = ?m" "invar (w_cache w1)" "w_tick w1 = w_tick w"
    "w_sent w1 = w_sent w" "w_pending w1 = w_pending w"
    and "\<exists>refs i. RoundTrip env w req = handleCacheMiss env w1 req k refs i \<and>
      set refs \<subseteq> set (stored_refs (e_codec env) ?m k)"
    by (rule RoundTrip_selects [OF conn inv k rg, unfolded none option.case])
  then obtain i where "RoundTrip env w req = handleCacheMiss env w1 req k [] i" by (auto simp: empty)
  then have miss: "handleCacheMiss env w1 req k [] i = (out, w')" using rt by (simp only:)
  have same: "dated_response env w1 resp = dated_response env w resp"
    "fetched_entry env w1 req k resp = fetched_entry env w req k resp"
    "fetched_ref env w1 req k resp = fetched_ref env w req k resp"
    by (simp_all add: dated_response_def fetched_entry_def fetched_ref_def w1)
  have up1: "e_upstream env (length (w_sent w1)) req = Inr resp" using up(2) w1(4) by simp
  have place: "place_ref [] i r = [r]" for r by (auto simp: place_ref_def)
  note M = miss_stores [OF conn w1(2) up(1) up1 _ _ _ good(1) _ miss, of req', unfolded same w1 place,
      OF store codec good(2)]
  show "invar (w_cache w')"
    "stored_entry (e_codec env) (contents (w_cache w')) (ent_ID (fetched_entry env w req k resp)) req'
      = Some (fetched_entry env w req k resp)"
    "stored_refs (e_codec env) (contents (w_cache w')) k = [fetched_ref env w req k resp]"
    "out = Responded (apply_status CacheStatusMiss (removeHopByHopHeaders (dated_response env w resp)))"
    "w_sent w' = w_sent w @ [req]" "w_tick w' = w_tick w + 2" "w_pending w' = w_pending w"
    by (rule M)+
qed

lemma fetch_then_select:
  assumes conn: "e_conn env = cache" and inv: "invar (w_cache w)"
    and k: "Normalize (e_lib env) (req_URL req) = Some k" "isRequestMethodUnderstood req"
    and empty: "stored_refs (e_codec env) (contents (w_cache w)) k = []"
    and up: "\<not> Req_OnlyIfCached (req_cc req)" "e_upstream env (length (w_sent w)) req = Inr resp"
    and store: "canStoreResponse (dated_response env w resp) (req_cc req) (resp_cc (dated_response env w resp))"
    and codec: "storable (e_codec env) req' (fetched_entry env w req k resp)"
      "storable_refs (e_codec env) [fetched_ref env w req k resp]"
    and good: "good k" "good (ent_ID (fetched_entry env w req k resp))"
    and rt: "RoundTrip env w req = (out, w')"
    and vary: "response_vary (dated_response env w resp) \<noteq> ''*''"
      "\<forall>h \<in> set (TrimmedCSVCanonical (response_vary (dated_response env w resp))).
         nominated_value (e_lib env) (req_Header req') h = nominated_value (e_lib env) (req_Header req) h"
  shows "selects (e_lib env) (e_codec env) (contents (w_cache w')) k req'
      = Some ([fetched_ref env w req k resp], 0, fetched_entry env w req k resp)"
    and "reads_good good (e_codec env) (contents (w_cache w')) k" and "invar (w_cache w')"
proof -
  note S = fetch_stores [OF conn inv k empty up store codec good rt]
  have "varyHeadersMatchOne (e_lib env) (fetched_ref env w req k resp) (req_Header req')"
    using vary by (simp add: fetched_ref_def new_ref_match)
  then show "selects (e_lib env) (e_codec env) (contents (w_cache w')) k req'
      = Some ([fetched_ref env w req k resp], 0, fetched_entry env w req k resp)"
    using S(2) by (simp add: selects_def S(3) VaryHeadersMatch_single)
      (simp add: fetched_ref_def new_ref_def fetched_entry_def new_entry_def)
  show "reads_good good (e_codec env) (contents (w_cache w')) k"
    using good by (simp add: reads_good_def S(3) ResponseIDs_def)
      (simp add: fetched_ref_def new_ref_def fetched_entry_def new_entry_def)
  show "invar (w_cache w')" by (rule S)
qed

subsection \<open>Unsafe requests\<close>

lemma unsafe_invalidates:
  assumes conn: "e_conn env = cache" and inv: "invar (w_cache w)"
    and k: "Normalize (e_lib env) (req_URL req) = Some k" "IsUnsafeMethod (req_Method req)"
    and up: "e_upstream env (length (w_sent w)) req = Inr resp" "IsNonErrorStatus (resp_StatusCode resp)"
    and good: "good k"
      "\<forall>j \<in> invalidation_keys (e_lib env) (e_codec env) (contents (w_cache w)) (req_URL req) (resp_Header resp)
         (stored_refs (e_codec env) (contents (w_cache w)) k) k. good j"
    and hashed: "ids_hashed (e_codec env) (contents (w_cache w))" "CHR ''#'' \<notin> set k"
      "\<forall>hdr \<in> set locationHeaders. \<forall>k. location_key (e_lib env) (req_URL req) (resp_Header resp) hdr = Some k \<longrightarrow>
         CHR ''#'' \<notin> set k"
    and rt: "RoundTrip env w req = (Responded r, w')"
  defines "m \<equiv> contents (w_cache w)" and "m' \<equiv> contents (w_cache w')"
  shows "invar (w_cache w')" and "m' k = None" and "i \<in> set (ResponseIDs (stored_refs (e_codec env) m k)) \<Longrightarrow> m' i = None"
    and "hdr \<in> set locationHeaders \<Longrightarrow> location_key (e_lib env) (req_URL req) (resp_Header resp) hdr = Some k' \<Longrightarrow>
      m' k' = None"
    and "hdr \<in> set locationHeaders \<Longrightarrow> location_key (e_lib env) (req_URL req) (resp_Header resp) hdr = Some k' \<Longrightarrow>
      i \<in> set (ResponseIDs (stored_refs (e_codec env) m k')) \<Longrightarrow> m' i = None"
    and "j \<notin> invalidation_keys (e_lib env) (e_codec env) m (req_URL req) (resp_Header resp)
         (stored_refs (e_codec env) m k) k \<Longrightarrow> m' j = m j"
    and "r = apply_status CacheStatusBypass resp" and "w_sent w' = w_sent w @ [req]"
proof -
  have nu: "\<not> isRequestMethodUnderstood req"
    using k(2) by (auto simp: IsUnsafeMethod_def isRequestMethodUnderstood_def)
  obtain q s where q: "rc_GetRefs (e_codec env) cache (w_cache w) k = (q, s)" by fastforce
  have s: "refs_or_nil q = stored_refs (e_codec env) m k" "contents s = m" "invar s"
    using rc_GetRefs_result [OF inv good(1), of "e_codec env"] q by (simp_all add: m_def)
  obtain s' where s': "InvalidateCache (e_lib env) (e_codec env) cache s (req_URL req) (resp_Header resp)
      (stored_refs (e_codec env) m k) k = (False, s')"
    and res: "w' = w\<lparr>w_sent := w_sent w @ [req], w_cache := s'\<rparr>" "r = apply_status CacheStatusBypass resp"
    using rt nu up k q s(1)
    by (auto simp: RoundTrip_def handleUnrecognizedMethod_def upstream_RoundTrip_def Let_def conn split: prod.splits if_splits)
  have ih: "\<forall>i \<in> set (ResponseIDs (stored_refs (e_codec env) m k)). CHR ''#'' \<in> set i"
    using hashed by (auto simp: ids_hashed_def m_def)
  have g: "\<forall>j \<in> invalidation_keys (e_lib env) (e_codec env) (contents s) (req_URL req) (resp_Header resp)
      (stored_refs (e_codec env) m k) k. good j" "ids_hashed (e_codec env) (contents s)"
    using good(2) hashed by (simp_all add: s(2) m_def)
  note I = InvalidateCache_contents [OF s(3) s' g ih hashed(3), unfolded s(2)]
  have m': "m' = contents s'" by (simp add: m'_def res)
  show "invar (w_cache w')" "m' k = None" "i \<in> set (ResponseIDs (stored_refs (e_codec env) m k)) \<Longrightarrow> m' i = None"
    "r = apply_status CacheStatusBypass resp" "w_sent w' = w_sent w @ [req]"
    using I(1,2) by (simp_all add: m' res)
  show "hdr \<in> set locationHeaders \<Longrightarrow> location_key (e_lib env) (req_URL req) (resp_Header resp) hdr = Some k' \<Longrightarrow>
      m' k' = None" using I(3) by (simp add: m')
  show "hdr \<in> set locationHeaders \<Longrightarrow> location_key (e_lib env) (req_URL req) (resp_Header resp) hdr = Some k' \<Longrightarrow>
      i \<in> set (ResponseIDs (stored_refs (e_codec env) m k')) \<Longrightarrow> m' i = None"
    using I(4) by (simp add: m')
  show "j \<notin> invalidation_keys (e_lib env) (e_codec env) m (req_URL req) (resp_Header resp)
         (stored_refs (e_codec env) m k) k \<Longrightarrow> m' j = m j" using I(5) by (simp add: m')
qed

end

end
