(* ===== verification/Ownership.thy ===== *)
theory Ownership
  imports Lifecycle
begin

text \<open>
  Which response IDs the references of a URL may name: those of its own variants. The invariant of
  the backend and of the pending jobs, and that storing, validating and deleting keep it.
\<close>

subsection \<open>The invariant\<close>

text \<open>
  JSON reads back the response IDs it wrote. It replaces bytes that are no UTF-8, so this is asked
  only of IDs that are \<open>txt\<close>.
\<close>

definition ids_survive :: "(string \<Rightarrow> bool) \<Rightarrow> codec \<Rightarrow> bool" where
  "ids_survive txt cd \<longleftrightarrow>
     (\<forall>refs d refs'. (\<forall>i \<in> set (ResponseIDs refs). txt i) \<longrightarrow> cd_MarshalRefs cd refs = Some d \<longrightarrow>
        cd_UnmarshalRefs cd d = Some refs' \<longrightarrow> ResponseIDs refs' = ResponseIDs refs)"

definition key_ok :: "(string \<Rightarrow> bool) \<Rightarrow> string \<Rightarrow> bool" where
  "key_ok txt k \<longleftrightarrow> CHR ''#'' \<notin> set k \<and> (\<forall>v. txt (makeVaryKey k v))"

text \<open>A response ID belongs to one URL key, which is its part before the hash sign.\<close>

definition id_of :: "(string \<Rightarrow> bool) \<Rightarrow> string \<Rightarrow> string \<Rightarrow> bool" where
  "id_of txt k i \<longleftrightarrow> txt i \<and> (\<exists>h. i = k @ CHR ''#'' # h \<and> CHR ''#'' \<notin> set h)"

definition own_ids :: "(string \<Rightarrow> bool) \<Rightarrow> codec \<Rightarrow> (string \<rightharpoonup> bytes) \<Rightarrow> bool" where
  "own_ids txt cd m \<longleftrightarrow>
     (\<forall>k. CHR ''#'' \<notin> set k \<longrightarrow> (\<forall>i \<in> set (ResponseIDs (stored_refs cd m k)). id_of txt k i))"

definition job_ok :: "(string \<Rightarrow> bool) \<Rightarrow> bg_job \<Rightarrow> bool" where
  "job_ok txt job \<longleftrightarrow> key_ok txt (job_urlKey job) \<and> req_Method (job_req job) = ''GET''"

definition request_ok :: "(string \<Rightarrow> bool) \<Rightarrow> golib \<Rightarrow> http_request \<Rightarrow> bool" where
  "request_ok txt lib req \<longleftrightarrow> (\<forall>k. Normalize lib (req_URL req) = Some k \<longrightarrow> key_ok txt k)"

lemma id_of_makeVaryKey: "key_ok txt k \<Longrightarrow> id_of txt k (makeVaryKey k v)"
  using makeVaryKey_split [of k v] by (auto simp: key_ok_def id_of_def)

lemma own_ids_shrink:
  assumes "own_ids txt cd m" "m' \<subseteq>\<^sub>m m"
  shows "own_ids txt cd m'"
proof -
  have "stored_refs cd m' k = stored_refs cd m k \<or> stored_refs cd m' k = []" for k
    using assms(2) by (cases "m' k") (auto simp: stored_refs_def map_le_def dom_def)
  then have "set (ResponseIDs (stored_refs cd m' k)) \<subseteq> set (ResponseIDs (stored_refs cd m k))" for k
    by (metis ResponseIDs_def empty_set empty_subsetI list.simps(8) order_refl)
  with assms(1) show ?thesis unfolding own_ids_def by blast
qed

lemma own_ids_entry: "own_ids txt cd m \<Longrightarrow> CHR ''#'' \<in> set i \<Longrightarrow> own_ids txt cd (m(i \<mapsto> d))"
  unfolding own_ids_def
proof (intro allI impI)
  fix k
  assume own: "\<forall>k. CHR ''#'' \<notin> set k \<longrightarrow> (\<forall>i \<in> set (ResponseIDs (stored_refs cd m k)). id_of txt k i)"
    and "CHR ''#'' \<in> set i" "CHR ''#'' \<notin> set k"
  then have "stored_refs cd (m(i \<mapsto> d)) k = stored_refs cd m k" by (intro stored_refs_cong) auto
  with own \<open>CHR ''#'' \<notin> set k\<close>
  show "\<forall>i \<in> set (ResponseIDs (stored_refs cd (m(i \<mapsto> d)) k)). id_of txt k i" by simp
qed

lemma own_ids_refs:
  assumes "own_ids txt cd m" "ids_survive txt cd" "\<forall>i \<in> set (ResponseIDs refs). id_of txt k i"
    "cd_MarshalRefs cd refs = Some d"
  shows "own_ids txt cd (m(k \<mapsto> d))"
  unfolding own_ids_def
proof (intro allI impI ballI)
  fix j i
  assume j: "CHR ''#'' \<notin> set j" and i: "i \<in> set (ResponseIDs (stored_refs cd (m(k \<mapsto> d)) j))"
  show "id_of txt j i"
  proof (cases "j = k")
    case True
    then obtain refs' where "cd_UnmarshalRefs cd d = Some refs'" "i \<in> set (ResponseIDs refs')"
      using i by (cases "cd_UnmarshalRefs cd d") (auto simp: stored_refs_def ResponseIDs_def)
    moreover have "\<forall>i \<in> set (ResponseIDs refs). txt i" using assms(3) by (simp add: id_of_def)
    ultimately have "i \<in> set (ResponseIDs refs)" using assms(2,4) unfolding ids_survive_def by metis
    with assms(3) True show ?thesis by blast
  next
    case False
    then have "stored_refs cd (m(k \<mapsto> d)) j = stored_refs cd m j" by (intro stored_refs_cong) simp
    with assms(1) i j show ?thesis unfolding own_ids_def by simp
  qed
qed

text \<open>The invariant of a running transport.\<close>

definition world_ok ::
  "('s \<Rightarrow> string \<rightharpoonup> bytes) \<Rightarrow> ('s \<Rightarrow> bool) \<Rightarrow> (string \<Rightarrow> bool) \<Rightarrow> codec \<Rightarrow> 's world \<Rightarrow> bool" where
  "world_ok contents invar txt cd w \<longleftrightarrow>
     invar (w_cache w) \<and> own_ids txt cd (contents (w_cache w)) \<and> (\<forall>job \<in> set (w_pending w). job_ok txt job)"

context driver_conn
begin

lemma StoreResponse_own:
  assumes "\<forall>k. good k" "invar s" "own_ids txt cd (contents s)" "ids_survive txt cd" "key_ok txt k"
    and refs: "\<forall>i \<in> set (ResponseIDs refs). id_of txt k i"
    and s'_def: "s' = snd (snd (StoreResponse lib cd cache s req resp k refs rq rs i))"
  shows "invar s'" "own_ids txt cd (contents s')"
proof -
  let ?e = "new_entry lib req resp k rq rs" and ?r = "new_ref lib req resp k rq rs"
  define s1 where "s1 = snd (rc_Set cd cache s (ent_ID ?e) ?e)"
  have id: "id_of txt k (ent_ID ?e)" "CHR ''#'' \<in> set (ent_ID ?e)" "ref_ResponseID ?r = ent_ID ?e"
    using id_of_makeVaryKey [OF assms(5)] makeVaryKey_hash by (simp_all add: new_entry_def new_ref_def)
  have s1: "invar s1" "own_ids txt cd (contents s1)"
    using assms(1-3) own_ids_entry [OF assms(3) id(2)]
    by (simp_all add: s1_def rc_specs split: option.split)
  have place: "\<forall>j \<in> set (ResponseIDs (place_ref refs i ?r)). id_of txt k j"
    using set_place_ref [of refs i ?r] refs id(1,3) by (auto simp: ResponseIDs_def)
  have s': "s' = snd (rc_SetRefs cd cache s1 k (place_ref refs i ?r))"
    by (simp add: s'_def StoreResponse_alt Let_def s1_def)
  show "invar s'" "own_ids txt cd (contents s')"
    using s1 assms(1) own_ids_refs [OF s1(2) assms(4) place]
    by (auto simp: s' rc_specs split: option.split)
qed

lemma store_response_own:
  assumes "\<forall>k. good k" "e_conn env = cache" "invar (w_cache w)" "own_ids txt (e_codec env) (contents (w_cache w))"
    "ids_survive txt (e_codec env)" "key_ok txt k" "\<forall>i \<in> set (ResponseIDs refs). id_of txt k i"
  shows "invar (w_cache (snd (store_response env w req resp k refs rq rs i)))"
    "own_ids txt (e_codec env) (contents (w_cache (snd (store_response env w req resp k refs rq rs i))))"
  using StoreResponse_own [OF assms(1,3-7) refl] assms(2) by (simp_all add: store_response_def case_prod_beta)

lemma HandleValidationResponse_own:
  assumes "\<forall>k. good k" "e_conn env = cache" "invar (w_cache w)" "own_ids txt (e_codec env) (contents (w_cache w))"
    "ids_survive txt (e_codec env)" "key_ok txt (rv_URLKey ctx)"
    "\<forall>i \<in> set (ResponseIDs (rv_Refs ctx)). id_of txt (rv_URLKey ctx) i"
    and res: "HandleValidationResponse env ctx req resp w = (out, w')"
  shows "invar (w_cache w') \<and> own_ids txt (e_codec env) (contents (w_cache w'))"
proof -
  have store: "invar (w_cache (snd (store_response env w1 rq r (rv_URLKey ctx) (rv_Refs ctx) a b i)))"
    "own_ids txt (e_codec env) (contents (w_cache (snd (store_response env w1 rq r (rv_URLKey ctx) (rv_Refs ctx) a b i))))"
    if "w_cache w1 = w_cache w" for w1 rq r a b i
    using store_response_own [OF assms(1,2) _ _ assms(5-7), of w1] assms(3,4) that by simp_all
  have del: "invar (snd (InvalidateCache (e_lib env) (e_codec env) cache (w_cache w) u h refs key)) \<and>
      own_ids txt (e_codec env) (contents (snd (InvalidateCache (e_lib env) (e_codec env) cache (w_cache w) u h refs key)))"
    for u h refs key
    using InvalidateCache_shrinks [OF assms(1,3) surjective_pairing] own_ids_shrink [OF assms(4)] by blast
  show ?thesis
    using res assms(3,4) store del unfolding HandleValidationResponse_def Let_def
    by (auto simp: case_prod_beta assms(2) split: if_splits)
qed

lemma roundTripTimed_cache:
  "roundTripTimed env w req = (r, a, b, w') \<Longrightarrow> w_cache w' = w_cache w \<and> w_pending w' = w_pending w"
  by (auto simp: roundTripTimed_eq)

end

subsection \<open>Pending jobs\<close>

lemma HandleValidationResponse_pending: "w_pending (snd (HandleValidationResponse env ctx req resp w)) = w_pending w"
  by (auto simp: HandleValidationResponse_def store_response_def case_prod_beta Let_def split: option.splits)

lemma backgroundRevalidate_pending: "w_pending (backgroundRevalidate env w job expired consumed) = w_pending w"
  by (simp add: backgroundRevalidate_def roundTripTimed_eq Let_def HandleValidationResponse_pending split: sum.split)

end
