(* ===== verification/Concurrent.thy ===== *)
theory Concurrent
  imports Ownership
begin

text \<open>
  Many round trips at once. A round trip is cut where it touches what it shares with the others: it
  reads the references of its URL, reads an entry, asks the origin, and updates the backend. Between
  these steps every other round trip and every background revalidation may run, so what a step finds
  need not be what the step before it left. Each handler is divided at the answer of the origin; put
  together again, the steps are the round trip of \<open>Transport\<close>.
\<close>

subsection \<open>Round trips in flight\<close>

datatype flight =
    AtFetch http_request string ResponseRefs nat
  | AtBypass http_request string
  | AtInvalidate http_request string http_response
  | AtMiss http_request string ResponseRefs int
  | AtStore http_request string ResponseRefs int http_response time time
  | AtHit http_request entry string ResponseRefs nat
  | AtValidate RevalidationContext http_request http_response

text \<open>\<open>RoundTrip\<close> up to its handler or the reading of the entry; \<open>None\<close> is the panic on the URL.\<close>

definition arrive :: "'s env \<Rightarrow> 's world \<Rightarrow> http_request \<Rightarrow> flight option \<times> 's world" where
  "arrive env w req =
     (case Normalize (e_lib env) (req_URL req) of
        None \<Rightarrow> (None, w)
      | Some urlKey \<Rightarrow>
          if \<not> isRequestMethodUnderstood req then (Some (AtBypass req urlKey), w)
          else
            let (r, s) = rc_GetRefs (e_codec env) (e_conn env) (w_cache w) urlKey
            in (Some
                 (case r of
                    Inl err \<Rightarrow> AtMiss req urlKey [] (-1)
                  | Inr [] \<Rightarrow> AtMiss req urlKey [] (-1)
                  | Inr (ref # rest) \<Rightarrow>
                      let (refs, found) = VaryHeadersMatch (e_lib env) (ref # rest) (req_Header req) in
                      case found of
                        None \<Rightarrow> AtMiss req urlKey refs (-1)
                      | Some refIndex \<Rightarrow> AtFetch req urlKey refs refIndex),
                w\<lparr>w_cache := s\<rparr>))"

text \<open>\<open>handleUnrecognizedMethod\<close> and \<open>handleCacheMiss\<close> up to the answer of the origin.\<close>

definition ask_bypass :: "'s env \<Rightarrow> 's world \<Rightarrow> http_request \<Rightarrow> string \<Rightarrow> (outcome + flight) \<times> 's world" where
  "ask_bypass env w req urlKey =
     (let (r, w) = upstream_RoundTrip env w req in
      (case r of
         Inl err \<Rightarrow> Inl (Failed err)
       | Inr resp \<Rightarrow>
           if \<not> IsUnsafeMethod (req_Method req) then Inl (Responded (apply_status CacheStatusBypass resp))
           else if IsNonErrorStatus (resp_StatusCode resp) then Inr (AtInvalidate req urlKey resp)
           else Inl (Responded (apply_status CacheStatusBypass resp)), w))"

definition ask_miss ::
  "'s env \<Rightarrow> 's world \<Rightarrow> http_request \<Rightarrow> string \<Rightarrow> ResponseRefs \<Rightarrow> int \<Rightarrow> (outcome + flight) \<times> 's world" where
  "ask_miss env w req urlKey refs refIndex =
     (if Req_OnlyIfCached (ParseCCRequestDirectives (req_Header req)) then (Inl (Responded make504Response), w)
      else
        let (r, start, fin, w) = roundTripTimed env w req in
        (case r of
           Inl err \<Rightarrow> Inl (Failed err)
         | Inr resp \<Rightarrow> Inr (AtStore req urlKey refs refIndex resp start fin), w))"

text \<open>\<open>revalidate\<close> and \<open>handleCacheHit\<close> up to the answer of the origin.\<close>

definition ask_revalidate ::
  "'s env \<Rightarrow> 's world \<Rightarrow> http_request \<Rightarrow> entry \<Rightarrow> string \<Rightarrow> ResponseRefs \<Rightarrow> nat \<Rightarrow> Freshness \<Rightarrow>
   directive_map \<Rightarrow> (outcome + flight) \<times> 's world" where
  "ask_revalidate env w req stored urlKey refs refIndex freshness ccReq =
     (let req = withConditionalHeaders req (resp_Header (ent_Data stored));
          (r, start, fin, w) = roundTripTimed env w req
      in (case r of
            Inl err \<Rightarrow> Inl (Failed err)
          | Inr resp \<Rightarrow>
              Inr (AtValidate
                \<lparr>rv_URLKey = urlKey, rv_Start = start, rv_End = fin, rv_CCReq = ccReq, rv_Stored = stored,
                 rv_Freshness = freshness, rv_Refs = refs, rv_RefIndex = int refIndex\<rparr> req resp), w))"

definition ask_hit ::
  "'s env \<Rightarrow> 's world \<Rightarrow> http_request \<Rightarrow> entry \<Rightarrow> string \<Rightarrow> ResponseRefs \<Rightarrow> nat \<Rightarrow> (outcome + flight) \<times> 's world" where
  "ask_hit env w req stored urlKey refs refIndex =
     (let ccReq = ParseCCRequestDirectives (req_Header req);
          ccResp = ParseCCResponseDirectives (resp_Header (ent_Data stored));
          (freshness, n) = CalculateFreshness (e_lib env) (e_clk env) (w_tick w) stored ccReq ccResp;
          w = w\<lparr>w_tick := n\<rparr>;
          hasRespNoCache = (Resp_NoCache ccResp \<noteq> None);
          fields = (case Resp_NoCache ccResp of Some raw \<Rightarrow> RawCSV_Value raw | None \<Rightarrow> None);
          isRespNoCacheQualified = (fields \<noteq> None);
          fieldsSeq = (case fields of Some fs \<Rightarrow> fs | None \<Rightarrow> [])
      in if \<not> fr_IsStale freshness \<and> Resp_Immutable ccResp \<and> \<not> Req_NoCache ccReq then
           apfst Inl (serveFromCache env w stored freshness isRespNoCacheQualified fieldsSeq)
         else if (fr_IsStale freshness \<and> Resp_MustRevalidate ccResp) \<or>
           (hasRespNoCache \<and> \<not> isRespNoCacheQualified) then
           ask_revalidate env w req stored urlKey refs refIndex freshness ccReq
         else if Req_OnlyIfCached ccReq \<or> (\<not> fr_IsStale freshness \<and> \<not> Req_NoCache ccReq) then
           apfst Inl (serveFromCache env w stored freshness isRespNoCacheQualified fieldsSeq)
         else
           let (swr, w) = swr_window env w freshness ccResp in
           if swr then apfst Inl (handleStaleWhileRevalidate env w req stored urlKey freshness ccReq)
           else ask_revalidate env w req stored urlKey refs refIndex freshness ccReq)"

text \<open>One step of a round trip in flight: its response, or where it is next.\<close>

fun advance :: "'s env \<Rightarrow> 's world \<Rightarrow> flight \<Rightarrow> (outcome + flight) \<times> 's world" where
  "advance env w (AtFetch req urlKey refs refIndex) =
     (let (r, s) = rc_Get (e_codec env) (e_conn env) (w_cache w) (ref_ResponseID (refs ! refIndex)) req
      in (Inr (case r of
                 Inl err \<Rightarrow> AtMiss req urlKey refs (int refIndex)
               | Inr entry \<Rightarrow> AtHit req entry urlKey refs refIndex), w\<lparr>w_cache := s\<rparr>))"
| "advance env w (AtBypass req urlKey) = ask_bypass env w req urlKey"
| "advance env w (AtInvalidate req urlKey resp) =
     (let (refs, s) = rc_GetRefs (e_codec env) (e_conn env) (w_cache w) urlKey;
          (panics, s) = InvalidateCache (e_lib env) (e_codec env) (e_conn env) s (req_URL req)
            (resp_Header resp) (refs_or_nil refs) urlKey
      in (Inl (if panics then Panicked else Responded (apply_status CacheStatusBypass resp)), w\<lparr>w_cache := s\<rparr>))"
| "advance env w (AtMiss req urlKey refs refIndex) = ask_miss env w req urlKey refs refIndex"
| "advance env w (AtStore req urlKey refs refIndex resp start fin) =
     (let ccReq = ParseCCRequestDirectives (req_Header req);
          ccResp = ParseCCResponseDirectives (resp_Header resp);
          (resp, w) =
            (if canStoreResponse resp ccReq ccResp
             then store_response env w req resp urlKey refs start fin refIndex else (resp, w))
      in (Inl (Responded (apply_status CacheStatusMiss resp)), w))"
| "advance env w (AtHit req entry urlKey refs refIndex) = ask_hit env w req entry urlKey refs refIndex"
| "advance env w (AtValidate ctx req resp) = apfst Inl (HandleValidationResponse env ctx req resp w)"

text \<open>A background revalidation joins the round trips in flight with the answer it got.\<close>

definition start_job :: "'s env \<Rightarrow> 's world \<Rightarrow> bg_job \<Rightarrow> bool \<Rightarrow> nat \<Rightarrow> flight option \<times> 's world" where
  "start_job env w job expired consumed =
     (let (r, start, fin, w) = roundTripTimed env w (job_req job) in
      (case r of
         Inl err \<Rightarrow> None
       | Inr resp \<Rightarrow>
           if expired then None
           else Some (AtValidate
             \<lparr>rv_URLKey = job_urlKey job, rv_Start = start, rv_End = fin, rv_CCReq = job_ccReq job,
              rv_Stored = rest_of_body consumed (job_stored job), rv_Freshness = job_freshness job,
              rv_Refs = [], rv_RefIndex = 0\<rparr> (job_req job) resp), w))"

subsection \<open>Running a flight to its end\<close>

fun steps_left :: "flight \<Rightarrow> nat" where
  "steps_left (AtFetch _ _ _ _) = 2"
| "steps_left (AtBypass _ _) = 1"
| "steps_left (AtMiss _ _ _ _) = 1"
| "steps_left (AtHit _ _ _ _ _) = 1"
| "steps_left _ = 0"

lemma ask_steps:
  "ask_bypass env w req k = (Inr f, w') \<Longrightarrow> steps_left f = 0"
  "ask_miss env w req k refs j = (Inr f, w') \<Longrightarrow> steps_left f = 0"
  "ask_revalidate env w req e k refs i fr cc = (Inr f, w') \<Longrightarrow> steps_left f = 0"
  by (auto simp: ask_bypass_def ask_miss_def ask_revalidate_def Let_def split: prod.splits sum.splits if_splits)

lemma ask_hit_steps: "ask_hit env w req e k refs i = (Inr f, w') \<Longrightarrow> steps_left f = 0"
  by (auto simp: ask_hit_def Let_def apfst_def map_prod_def dest: ask_steps(3) split: prod.splits if_splits)

lemma advance_steps: "advance env w f = (Inr f', w') \<Longrightarrow> steps_left f' < steps_left f"
  by (cases f) (auto simp: Let_def apfst_def map_prod_def dest: ask_steps ask_hit_steps split: prod.splits sum.splits option.splits)

function complete :: "'s env \<Rightarrow> 's world \<Rightarrow> flight \<Rightarrow> outcome \<times> 's world" where
  "complete env w f =
     (case advance env w f of (Inl out, w') \<Rightarrow> (out, w') | (Inr f', w') \<Rightarrow> complete env w' f')"
  by pat_completeness auto
termination
  by (relation "measure (\<lambda>(env, w, f). steps_left f)") (auto dest: advance_steps [OF sym])

declare complete.simps [simp del]


text \<open>The steps of a handler, one after the other, are the handler.\<close>

lemma complete_AtStore:
  "complete env w (AtStore req k refs i resp start fin) =
     (let ccReq = ParseCCRequestDirectives (req_Header req);
          ccResp = ParseCCResponseDirectives (resp_Header resp);
          (resp, w) =
            (if canStoreResponse resp ccReq ccResp
             then store_response env w req resp k refs start fin i else (resp, w))
      in (Responded (apply_status CacheStatusMiss resp), w))"
  by (simp add: complete.simps Let_def split: prod.split)

lemma complete_AtMiss: "complete env w (AtMiss req k refs i) = handleCacheMiss env w req k refs i"
  by (subst complete.simps)
    (simp add: ask_miss_def handleCacheMiss_def complete_AtStore Let_def split: prod.split sum.split)

lemma complete_AtInvalidate:
  "complete env w (AtInvalidate req k resp) =
     (let (refs, s) = rc_GetRefs (e_codec env) (e_conn env) (w_cache w) k;
          (panics, s) = InvalidateCache (e_lib env) (e_codec env) (e_conn env) s (req_URL req)
            (resp_Header resp) (refs_or_nil refs) k
      in (if panics then Panicked else Responded (apply_status CacheStatusBypass resp), w\<lparr>w_cache := s\<rparr>))"
  by (simp add: complete.simps Let_def split: prod.split option.split)

lemma complete_AtBypass: "complete env w (AtBypass req k) = handleUnrecognizedMethod env w req k"
  by (subst complete.simps)
    (simp add: ask_bypass_def handleUnrecognizedMethod_def complete_AtInvalidate Let_def split: prod.split sum.split)

lemma complete_AtValidate: "complete env w (AtValidate ctx req resp) = HandleValidationResponse env ctx req resp w"
  by (simp add: complete.simps apfst_def map_prod_def split: prod.split)

definition proceed :: "'s env \<Rightarrow> (outcome + flight) \<times> 's world \<Rightarrow> outcome \<times> 's world" where
  "proceed env x = (case x of (Inl out, w) \<Rightarrow> (out, w) | (Inr f, w) \<Rightarrow> complete env w f)"

lemma proceed_revalidate:
  "proceed env (ask_revalidate env w req e k refs i fr cc) = revalidate env w req e k refs i fr cc"
  by (simp add: proceed_def ask_revalidate_def revalidate_def complete_AtValidate Let_def split: prod.split sum.split)

lemma proceed_Inl: "proceed env (apfst Inl x) = x"
  by (cases x) (simp add: proceed_def)

lemma complete_AtHit: "complete env w (AtHit req e k refs i) = handleCacheHit env w req e k refs i"
proof -
  have "complete env w (AtHit req e k refs i) = proceed env (ask_hit env w req e k refs i)"
    by (subst complete.simps) (simp add: proceed_def split: prod.split sum.split)
  also have "\<dots> = handleCacheHit env w req e k refs i"
  proof -
    obtain fr n where calc: "CalculateFreshness (e_lib env) (e_clk env) (w_tick w) e
      (ParseCCRequestDirectives (req_Header req)) (ParseCCResponseDirectives (resp_Header (ent_Data e))) = (fr, n)"
      by fastforce
    obtain b w2 where swr: "swr_window env (w\<lparr>w_tick := n\<rparr>) fr (ParseCCResponseDirectives (resp_Header (ent_Data e)))
      = (b, w2)" by fastforce
    show ?thesis
      by (simp only: ask_hit_def handleCacheHit_def Let_def calc prod.case swr if_distrib [of "proceed env"]
          proceed_revalidate proceed_Inl)
  qed
  finally show ?thesis .
qed

lemma complete_AtFetch:
  "complete env w (AtFetch req k refs i) =
     (let (r, s) = rc_Get (e_codec env) (e_conn env) (w_cache w) (ref_ResponseID (refs ! i)) req
      in case r of
           Inl err \<Rightarrow> handleCacheMiss env (w\<lparr>w_cache := s\<rparr>) req k refs (int i)
         | Inr entry \<Rightarrow> handleCacheHit env (w\<lparr>w_cache := s\<rparr>) req entry k refs i)"
  by (subst complete.simps) (simp add: complete_AtMiss complete_AtHit Let_def split: prod.split sum.split)

lemma RoundTrip_complete:
  "RoundTrip env w req = (case arrive env w req of (None, w) \<Rightarrow> (Panicked, w) | (Some f, w) \<Rightarrow> complete env w f)"
proof (cases "Normalize (e_lib env) (req_URL req)")
  case None
  then show ?thesis by (simp add: RoundTrip_def arrive_def)
next
  case (Some k)
  show ?thesis
  proof (cases "isRequestMethodUnderstood req")
    case False
    with Some show ?thesis by (simp add: RoundTrip_def arrive_def complete_AtBypass)
  next
    case True
    obtain r s where "rc_GetRefs (e_codec env) (e_conn env) (w_cache w) k = (r, s)" by fastforce
    with Some True show ?thesis
      by (simp add: RoundTrip_def arrive_def complete_AtMiss complete_AtFetch Let_def
          split: prod.split sum.split list.split option.split)
  qed
qed

lemma backgroundRevalidate_complete:
  "backgroundRevalidate env w job expired consumed =
     (case start_job env w job expired consumed of (None, w) \<Rightarrow> w | (Some f, w) \<Rightarrow> snd (complete env w f))"
  by (simp add: backgroundRevalidate_def start_job_def complete_AtValidate Let_def split: prod.split sum.split)

subsection \<open>The server\<close>

text \<open>A state is the world with the flights in it; any flight may take the next step.\<close>

inductive server_step ::
  "'s env \<Rightarrow> (http_request \<Rightarrow> bool) \<Rightarrow> 's world \<times> flight list \<Rightarrow> 's world \<times> flight list \<Rightarrow> bool"
  for env ok where
  arrives: "ok req \<Longrightarrow> arrive env w req = (Some f, w') \<Longrightarrow> server_step env ok (w, fs) (w', fs @ [f])"
| advances: "i < length fs \<Longrightarrow> advance env w (fs ! i) = (Inr f, w') \<Longrightarrow> server_step env ok (w, fs) (w', fs[i := f])"
| responds: "i < length fs \<Longrightarrow> advance env w (fs ! i) = (Inl out, w') \<Longrightarrow>
    server_step env ok (w, fs) (w', take i fs @ drop (Suc i) fs)"
| starts: "i < length (w_pending w) \<Longrightarrow>
    start_job env (w\<lparr>w_pending := take i (w_pending w) @ drop (Suc i) (w_pending w)\<rparr>) (w_pending w ! i) expired consumed
      = (f, w') \<Longrightarrow>
    server_step env ok (w, fs) (w', fs @ (case f of None \<Rightarrow> [] | Some f \<Rightarrow> [f]))"

inductive serves :: "'s env \<Rightarrow> (http_request \<Rightarrow> bool) \<Rightarrow> 's world \<Rightarrow> 's world \<times> flight list \<Rightarrow> bool"
  for env ok w0 where
  opened: "serves env ok w0 (w0, [])"
| step: "serves env ok w0 c \<Longrightarrow> server_step env ok c c' \<Longrightarrow> serves env ok w0 c'"

inductive_cases server_stepE: "server_step env ok (w, fs) c"

text \<open>The last flight may run to its end; so round trips one after the other are steps of a server.\<close>

lemma serves_complete:
  assumes "serves env ok w0 (w, fs @ [f])" "complete env w f = (out, w')"
  shows "serves env ok w0 (w', fs)"
  using assms
proof (induction env w f rule: complete.induct)
  case (1 env w f)
  show ?case
  proof (cases "advance env w f")
    case (Pair r w1)
    show ?thesis
    proof (cases r)
      case (Inl o1)
      then have "w' = w1" using 1(3) Pair by (simp add: complete.simps)
      moreover have "server_step env ok (w, fs @ [f]) (w1, take (length fs) (fs @ [f]) @ drop (Suc (length fs)) (fs @ [f]))"
        by (rule server_step.responds) (use Pair Inl in simp_all)
      ultimately show ?thesis using serves.step [OF 1(2)] by simp
    next
      case (Inr f1)
      have "server_step env ok (w, fs @ [f]) (w1, (fs @ [f])[length fs := f1])"
        by (rule server_step.advances) (use Pair Inr in simp_all)
      then have "serves env ok w0 (w1, fs @ [f1])" using serves.step [OF 1(2)] by simp
      moreover have "complete env w1 f1 = (out, w')" using 1(3) Pair Inr by (simp add: complete.simps [of env w f])
      ultimately show ?thesis using 1(1) [OF Pair [symmetric] Inr] by blast
    qed
  qed
qed


lemma reachable_serves: "reachable env ok w0 w \<Longrightarrow> serves env ok w0 (w, [])"
proof (induction rule: reachable.induct)
  case (step w w')
  from step(2) show ?case
  proof (cases rule: transport_step.cases)
    case (request req out)
    show ?thesis
    proof (cases "arrive env w req")
      case (Pair f w1)
      show ?thesis
      proof (cases f)
        case None
        then have "w' = w" using request(2) Pair
          by (auto simp: RoundTrip_complete arrive_def Let_def split: option.splits if_splits prod.splits)
        then show ?thesis using step.IH by simp
      next
        case (Some g)
        then have "server_step env ok (w, []) (w1, [] @ [g])"
          using request(1) Pair by (intro server_step.arrives) simp_all
        then have "serves env ok w0 (w1, [] @ [g])" by (rule serves.step [OF step.IH])
        moreover have "complete env w1 g = (out, w')" using request(2) Pair Some by (simp add: RoundTrip_complete)
        ultimately show ?thesis by (rule serves_complete)
      qed
    qed
  next
    case (background i expired consumed)
    let ?w = "w\<lparr>w_pending := take i (w_pending w) @ drop (Suc i) (w_pending w)\<rparr>"
    obtain f w1 where f: "start_job env ?w (w_pending w ! i) expired consumed = (f, w1)" by fastforce
    note start = serves.step [OF step.IH server_step.starts [OF background(1) f]]
    show ?thesis
    proof (cases f)
      case None
      then show ?thesis using start background(2) f by (simp add: backgroundRevalidate_complete)
    next
      case (Some g)
      obtain out where "complete env w1 g = (out, w')"
        using background(2) f Some by (cases "complete env w1 g") (simp add: backgroundRevalidate_complete)
      then show ?thesis using serves_complete [of env ok w0 w1 "[]" g] start Some by simp
    qed
  qed
qed (rule serves.opened)

subsection \<open>The invariant of a server\<close>

text \<open>What a flight carries along, it read from the backend at some earlier time.\<close>

fun flight_ok :: "(string \<Rightarrow> bool) \<Rightarrow> flight \<Rightarrow> bool" where
  "flight_ok txt (AtFetch req k refs i) \<longleftrightarrow>
     req_Method req = ''GET'' \<and> key_ok txt k \<and> (\<forall>i \<in> set (ResponseIDs refs). id_of txt k i)"
| "flight_ok txt (AtBypass req k) \<longleftrightarrow> True"
| "flight_ok txt (AtInvalidate req k resp) \<longleftrightarrow> True"
| "flight_ok txt (AtMiss req k refs i) \<longleftrightarrow> key_ok txt k \<and> (\<forall>i \<in> set (ResponseIDs refs). id_of txt k i)"
| "flight_ok txt (AtStore req k refs i resp start fin) \<longleftrightarrow>
     key_ok txt k \<and> (\<forall>i \<in> set (ResponseIDs refs). id_of txt k i)"
| "flight_ok txt (AtHit req e k refs i) \<longleftrightarrow>
     req_Method req = ''GET'' \<and> key_ok txt k \<and> (\<forall>i \<in> set (ResponseIDs refs). id_of txt k i)"
| "flight_ok txt (AtValidate ctx req resp) \<longleftrightarrow>
     key_ok txt (rv_URLKey ctx) \<and> (\<forall>i \<in> set (ResponseIDs (rv_Refs ctx)). id_of txt (rv_URLKey ctx) i)"

definition server_ok ::
  "('s \<Rightarrow> string \<rightharpoonup> bytes) \<Rightarrow> ('s \<Rightarrow> bool) \<Rightarrow> (string \<Rightarrow> bool) \<Rightarrow> codec \<Rightarrow> 's world \<times> flight list \<Rightarrow> bool" where
  "server_ok contents invar txt cd c \<longleftrightarrow>
     world_ok contents invar txt cd (fst c) \<and> (\<forall>f \<in> set (snd c). flight_ok txt f)"

lemma ask_world:
  "ask_bypass env w req k = (r, w') \<Longrightarrow> w_cache w' = w_cache w \<and> w_pending w' = w_pending w"
  "ask_miss env w req k refs j = (r, w') \<Longrightarrow> w_cache w' = w_cache w \<and> w_pending w' = w_pending w"
  "ask_revalidate env w req e k refs i fr cc = (r, w') \<Longrightarrow> w_cache w' = w_cache w \<and> w_pending w' = w_pending w"
  by (auto simp: ask_bypass_def ask_miss_def ask_revalidate_def upstream_RoundTrip_def roundTripTimed_eq Let_def
      split: if_splits)

lemma ask_flight:
  "ask_bypass env w req k = (Inr f, w') \<Longrightarrow> flight_ok txt f"
  "ask_miss env w req k refs j = (Inr f, w') \<Longrightarrow> flight_ok txt (AtMiss req k refs j) \<Longrightarrow> flight_ok txt f"
  "ask_revalidate env w req e k refs i fr cc = (Inr f, w') \<Longrightarrow> flight_ok txt (AtHit req e k refs i) \<Longrightarrow> flight_ok txt f"
  by (auto simp: ask_bypass_def ask_miss_def ask_revalidate_def Let_def split: prod.splits sum.splits if_splits)

text \<open>A hit asks the origin, or leaves the backend alone and at most queues a job.\<close>

lemma ask_hit_world:
  fixes env :: "'s env"
  assumes "ask_hit env w req e k refs i = (r, w')"
  shows "w_cache w' = w_cache w"
    and "w_pending w' = w_pending w \<or>
      (\<exists>job. w_pending w' = w_pending w @ [job] \<and> job_urlKey job = k \<and> req_Method (job_req job) = req_Method req)"
    and "r = Inr f \<Longrightarrow> flight_ok txt (AtHit req e k refs i) \<Longrightarrow> flight_ok txt f"
proof -
  define P :: "(outcome + flight) \<times> 's world \<Rightarrow> bool" where
    "P = (\<lambda>(r, w'). w_cache w' = w_cache w \<and>
    (w_pending w' = w_pending w \<or>
      (\<exists>job. w_pending w' = w_pending w @ [job] \<and> job_urlKey job = k \<and> req_Method (job_req job) = req_Method req)) \<and>
    (\<forall>f txt. r = Inr f \<longrightarrow> flight_ok txt (AtHit req e k refs i) \<longrightarrow> flight_ok txt f))"
  obtain fr n where calc: "CalculateFreshness (e_lib env) (e_clk env) (w_tick w) e
      (ParseCCRequestDirectives (req_Header req)) (ParseCCResponseDirectives (resp_Header (ent_Data e))) = (fr, n)"
    by fastforce
  obtain b w2 where swr: "swr_window env (w\<lparr>w_tick := n\<rparr>) fr (ParseCCResponseDirectives (resp_Header (ent_Data e)))
      = (b, w2)" by fastforce
  then have w2: "w_cache w2 = w_cache w" "w_pending w2 = w_pending w" using swr_window_world by fastforce+
  have ask: "P (ask_revalidate env v req e k refs i fr cc)" if "w_cache v = w_cache w" "w_pending v = w_pending w" for v cc
  proof -
    obtain r1 w1 where a: "ask_revalidate env v req e k refs i fr cc = (r1, w1)" by fastforce
    have "flight_ok t f" if "r1 = Inr f" "flight_ok t (AtHit req e k refs i)" for f t
      using ask_flight(3) [OF a [unfolded that(1)] that(2)] .
    then show ?thesis using ask_world(3) [OF a] that by (simp add: a P_def)
  qed
  have srv: "P (apfst Inl (serveFromCache env v e fr q fs))" if "w_cache v = w_cache w" "w_pending v = w_pending w" for v q fs
    using that by (simp add: P_def serveFromCache_def Let_def case_prod_beta)
  have swr_job: "P (apfst Inl (handleStaleWhileRevalidate env w2 req e k fr cc))" for cc
    using w2 by (simp add: P_def handleStaleWhileRevalidate_def Let_def)
  have "P (ask_hit env w req e k refs i)"
    unfolding ask_hit_def Let_def calc prod.case swr by (auto intro!: ask srv swr_job simp: w2)
  then show "w_cache w' = w_cache w" "w_pending w' = w_pending w \<or>
      (\<exists>job. w_pending w' = w_pending w @ [job] \<and> job_urlKey job = k \<and> req_Method (job_req job) = req_Method req)"
    "r = Inr f \<Longrightarrow> flight_ok txt (AtHit req e k refs i) \<Longrightarrow> flight_ok txt f"
    using assms by (auto simp: P_def)
qed


text \<open>What a flight does to the backend and to the pending jobs, whatever the backend.\<close>

lemma store_response_pending: "w_pending (snd (store_response env w req resp k refs a b i)) = w_pending w"
  by (simp add: store_response_def case_prod_beta)

lemma start_job_world:
  assumes "start_job env w job expired consumed = (f, w')" "job_ok txt job"
  shows "w_cache w' = w_cache w" "w_pending w' = w_pending w" "f = Some g \<Longrightarrow> flight_ok txt g"
  using assms by (auto simp: start_job_def roundTripTimed_eq Let_def job_ok_def ResponseIDs_def split: sum.splits if_splits)

context driver_conn
begin

lemma arrive_ok:
  assumes g: "\<forall>k. good k" and conn: "e_conn env = cache" and w: "world_ok contents invar txt (e_codec env) w"
    and req: "request_ok txt (e_lib env) req" and a: "arrive env w req = (Some f, w')"
  shows "world_ok contents invar txt (e_codec env) w' \<and> flight_ok txt f"
proof -
  obtain k where k: "Normalize (e_lib env) (req_URL req) = Some k" using a by (auto simp: arrive_def split: option.splits)
  then have ok: "key_ok txt k" using req by (simp add: request_ok_def)
  show ?thesis
  proof (cases "isRequestMethodUnderstood req")
    case False
    then show ?thesis using a k w by (auto simp: arrive_def)
  next
    case True
    obtain r s where r: "rc_GetRefs (e_codec env) cache (w_cache w) k = (r, s)" by fastforce
    have i: "invar (w_cache w)" "own_ids txt (e_codec env) (contents (w_cache w))" using w by (simp_all add: world_ok_def)
    have s: "invar s" "contents s = contents (w_cache w)"
      "refs_or_nil r = stored_refs (e_codec env) (contents (w_cache w)) k"
      using rc_GetRefs_result [OF i(1), of k "e_codec env"] g r by simp_all
    have ids: "\<forall>i \<in> set (ResponseIDs (refs_or_nil r)). id_of txt k i"
      using i(2) ok by (simp add: s(3) own_ids_def key_ok_def)
    have sorted: "\<forall>i \<in> set (ResponseIDs (fst (VaryHeadersMatch (e_lib env) (refs_or_nil r) h))). id_of txt k i" for h
      using ids by (simp add: ResponseIDs_def VaryHeadersMatch_sorted vm.set_SortFunc)
    have "w' = w\<lparr>w_cache := s\<rparr>" using a k True r conn by (simp add: arrive_def Let_def)
    moreover have "flight_ok txt f"
      using a k True r conn ok sorted [of "req_Header req"]
      by (auto simp: arrive_def Let_def refs_or_nil_def ResponseIDs_def isRequestMethodUnderstood_def
          split: sum.splits list.splits prod.splits option.splits)
    ultimately show ?thesis using w s by (simp add: world_ok_def)
  qed
qed

lemma advance_ok:
  assumes g: "\<forall>k. good k" and conn: "e_conn env = cache" and w: "world_ok contents invar txt (e_codec env) w"
    and cd: "ids_survive txt (e_codec env)" and f: "flight_ok txt f" and a: "advance env w f = (r, w')"
  shows "world_ok contents invar txt (e_codec env) w' \<and> (\<forall>f'. r = Inr f' \<longrightarrow> flight_ok txt f')"
proof -
  have i: "invar (w_cache w)" "own_ids txt (e_codec env) (contents (w_cache w))"
    "\<forall>job \<in> set (w_pending w). job_ok txt job" using w by (simp_all add: world_ok_def)
  have kept: "world_ok contents invar txt (e_codec env) v" if "w_cache v = w_cache w" "w_pending v = w_pending w" for v
    using w that by (simp add: world_ok_def)
  have set: "world_ok contents invar txt (e_codec env) v"
    if "invar (w_cache v) \<and> own_ids txt (e_codec env) (contents (w_cache v))" "w_pending v = w_pending w" for v
    using i(3) that by (simp add: world_ok_def)
  show ?thesis
  proof (cases f)
    case (AtFetch req k refs j)
    obtain q s where q: "rc_Get (e_codec env) cache (w_cache w) (ref_ResponseID (refs ! j)) req = (q, s)" by fastforce
    then have "invar s" "contents s = contents (w_cache w)"
      using rc_Get_result [OF i(1), of "ref_ResponseID (refs ! j)" "e_codec env" req] g by simp_all
    then show ?thesis using a f AtFetch q conn i by (auto simp: world_ok_def split: sum.split)
  next
    case (AtBypass req k)
    then have h: "ask_bypass env w req k = (r, w')" using a by simp
    have "flight_ok txt f'" if "r = Inr f'" for f' using ask_flight(1) [OF h [unfolded that]] .
    then show ?thesis using ask_world(1) [OF h] kept by simp
  next
    case (AtInvalidate req k resp)
    obtain q s where q: "rc_GetRefs (e_codec env) cache (w_cache w) k = (q, s)" by fastforce
    then have s: "invar s" "contents s = contents (w_cache w)"
      using rc_GetRefs_result [OF i(1), of k "e_codec env"] g by simp_all
    have del: "invar s' \<and> own_ids txt (e_codec env) (contents s')"
      if "InvalidateCache (e_lib env) (e_codec env) cache s u h refs key = (b, s')" for u h refs key b s'
      using InvalidateCache_shrinks [OF g s(1) that] own_ids_shrink [OF i(2)] s(2) by simp
    from a AtInvalidate q conn s i del show ?thesis by (auto simp: world_ok_def split: prod.splits)
  next
    case (AtMiss req k refs j)
    then have h: "ask_miss env w req k refs j = (r, w')" using a by simp
    have "flight_ok txt f'" if "r = Inr f'" for f' using ask_flight(2) [OF h [unfolded that]] f AtMiss by simp
    then show ?thesis using ask_world(2) [OF h] kept by simp
  next
    case (AtStore req k refs j resp start fin)
    have "invar (w_cache (snd (store_response env w req resp k refs start fin j))) \<and>
        own_ids txt (e_codec env) (contents (w_cache (snd (store_response env w req resp k refs start fin j))))"
      using store_response_own [OF g conn i(1,2) cd] f AtStore by simp
    then have "world_ok contents invar txt (e_codec env) (snd (store_response env w req resp k refs start fin j))"
      using store_response_pending by (rule set)
    then show ?thesis using a AtStore w by (auto simp: Let_def case_prod_beta)
  next
    case (AtHit req e k refs j)
    then have h: "ask_hit env w req e k refs j = (r, w')" using a by simp
    have "world_ok contents invar txt (e_codec env) w'"
      using ask_hit_world(1,2) [OF h] w f AtHit by (auto simp: world_ok_def job_ok_def)
    then show ?thesis using ask_hit_world(3) [OF h] f AtHit by simp
  next
    case (AtValidate ctx req resp)
    obtain out where o: "HandleValidationResponse env ctx req resp w = (out, w')" "r = Inl out"
      using a AtValidate by (cases "HandleValidationResponse env ctx req resp w") simp
    have "invar (w_cache w') \<and> own_ids txt (e_codec env) (contents (w_cache w'))"
      using HandleValidationResponse_own [OF g conn i(1,2) cd _ _ o(1)] f AtValidate by simp
    then show ?thesis using set HandleValidationResponse_outcome(2) [OF o(1)] o(2) by simp
  qed
qed

lemma server_step_ok:
  assumes g: "\<forall>k. good k" and conn: "e_conn env = cache" and cd: "ids_survive txt (e_codec env)"
    and req: "\<forall>req. ok req \<longrightarrow> request_ok txt (e_lib env) req"
    and ok: "server_ok contents invar txt (e_codec env) c" and step: "server_step env ok c c'"
  shows "server_ok contents invar txt (e_codec env) c'"
proof -
  obtain w fs where c: "c = (w, fs)" by (cases c)
  have w: "world_ok contents invar txt (e_codec env) w" and fs: "\<forall>f \<in> set fs. flight_ok txt f"
    using ok by (simp_all add: server_ok_def c)
  have nth: "flight_ok txt (fs ! i)" if "i < length fs" for i using fs that by simp
  show ?thesis using step unfolding c
  proof (cases rule: server_step.cases)
    case (arrives rq f w')
    then show ?thesis using arrive_ok [OF g conn w _ arrives(3)] req fs by (auto simp: server_ok_def)
  next
    case (advances i f w')
    then show ?thesis using advance_ok [OF g conn w cd nth [OF advances(2)] advances(3)] fs
      by (auto simp: server_ok_def dest!: set_update_subset_insert [THEN subsetD])
  next
    case (responds i out w')
    then show ?thesis using advance_ok [OF g conn w cd nth [OF responds(2)] responds(3)] fs
      by (auto simp: server_ok_def dest: in_set_takeD in_set_dropD)
  next
    case (starts i expired consumed f w')
    let ?w = "w\<lparr>w_pending := take i (w_pending w) @ drop (Suc i) (w_pending w)\<rparr>"
    have job: "job_ok txt (w_pending w ! i)" using w starts(2) by (simp add: world_ok_def)
    have "world_ok contents invar txt (e_codec env) ?w"
      using w by (auto simp: world_ok_def dest: in_set_takeD in_set_dropD)
    then show ?thesis using start_job_world [OF starts(3) job] fs starts(1)
      by (auto simp: server_ok_def world_ok_def split: option.splits)
  qed
qed

lemma serves_ok:
  assumes "serves env ok w0 c" and "\<forall>k. good k" and "e_conn env = cache" and "ids_survive txt (e_codec env)"
    and "\<forall>req. ok req \<longrightarrow> request_ok txt (e_lib env) req" and "world_ok contents invar txt (e_codec env) w0"
  shows "server_ok contents invar txt (e_codec env) c"
  using assms(1)
proof (induction rule: serves.induct)
  case opened
  then show ?case using assms(6) by (simp add: server_ok_def)
next
  case (step c c')
  show ?case by (rule server_step_ok [OF assms(2-5) step.IH step.hyps(2)])
qed

end

subsection \<open>Two misses at once\<close>

text \<open>
  The references a miss writes are those it read, with its own added: of two variants of a URL that
  are fetched at the same time, only the one stored last is referenced afterwards.
\<close>

context driver_conn
begin

lemma miss_keeps:
  assumes "good k" "good (ent_ID (fetched_entry env w req k resp))" "e_conn env = cache" "invar (w_cache w)"
    "\<not> Req_OnlyIfCached (req_cc req)" "e_upstream env (length (w_sent w)) req = Inr resp"
    "handleCacheMiss env w req k refs i = (out, w')"
  shows "invar (w_cache w') \<and> w_sent w' = w_sent w @ [req] \<and> w_tick w' = w_tick w + 2 \<and> w_pending w' = w_pending w"
  using assms StoreResponse_invar [OF assms(4,1), of "e_lib env" req "dated_response env w resp"]
  by (auto simp: handleCacheMiss_fetch [OF assms(5,6)] Let_def store_response_def case_prod_beta fetched_entry_def
      new_entry_def split: if_splits)

lemma arrive_miss:
  assumes "e_conn env = cache" "invar (w_cache w)" "good k" "Normalize (e_lib env) (req_URL req) = Some k"
    "isRequestMethodUnderstood req" "stored_refs (e_codec env) (contents (w_cache w)) k = []"
  obtains w' where "arrive env w req = (Some (AtMiss req k [] (-1)), w')" "invar (w_cache w')"
    "contents (w_cache w') = contents (w_cache w)" "w_tick w' = w_tick w" "w_sent w' = w_sent w" "w_pending w' = w_pending w"
proof -
  obtain r s where r: "rc_GetRefs (e_codec env) cache (w_cache w) k = (r, s)" by fastforce
  have s: "invar s" "contents s = contents (w_cache w)" "refs_or_nil r = []"
    using rc_GetRefs_result [OF assms(2,3), of "e_codec env"] r assms(6) by simp_all
  then have "arrive env w req = (Some (AtMiss req k [] (-1)), w\<lparr>w_cache := s\<rparr>)"
    using assms r by (auto simp: arrive_def Let_def refs_or_nil_def split: sum.splits)
  then show ?thesis using s that by simp
qed

end

end
