(* ===== verification/Example.thy ===== *)
theory Example
  imports Concurrent
begin

text \<open>
  A small world in which the properties of the transport can be evaluated: a library, a codec, an
  in-memory backend, a clock and an origin. It is used by the witnesses only.
\<close>

text \<open>The \<open>Date\<close> of every response is second 100; \<open>url.Parse\<close> knows the URLs of the host \<open>h\<close>.\<close>

definition ex_url :: "string \<Rightarrow> url" where
  "ex_url path =
     \<lparr>url_Scheme = ''http'', url_Opaque = [], url_HasUser = False, url_Host = ''h'', url_Path = path,
      url_ForceQuery = False, url_RawQuery = [], url_Fragment = []\<rparr>"

definition ex_lib :: golib where
  "ex_lib =
     \<lparr>lib_ParseTime = (\<lambda>s. if s = ''d100'' then Some (100 * second) else None),
      lib_ParseRFC1123 = (\<lambda>_. None), lib_FormatTime = (\<lambda>_. ''d100''), lib_Getenv = (\<lambda>_. []),
      lib_ParseFloat = (\<lambda>_. None),
      lib_url_Parse = (\<lambda>s. if has_prefix ''http://h'' s then Some (ex_url (drop 8 s)) else None),
      lib_ToLower = (\<lambda>s. s), lib_EqualFold = (\<lambda>s t. s = t)\<rparr>"

text \<open>
  A dumped response is its body; reading gives it the status 200 and the headers of \<open>ex_header\<close>.
  The references are the lines of their document, each an ID.
\<close>

definition ex_header :: "string \<Rightarrow> header" where
  "ex_header cc = [(''Date'', [''d100'']), (''Cache-Control'', [cc])]"

definition ex_ref :: "string \<Rightarrow> ResponseRef" where
  "ex_ref i = \<lparr>ref_ResponseID = i, ref_Vary = [], ref_VaryResolved = [], ref_ReceivedAt = 100 * second\<rparr>"

definition ex_codec :: "string \<Rightarrow> codec" where
  "ex_codec cc =
     \<lparr>cd_DumpResponse = (\<lambda>r. Some (resp_Body r)),
      cd_ReadResponse = (\<lambda>d _. Some \<lparr>resp_StatusCode = 200, resp_Header = ex_header cc, resp_Body = d\<rparr>),
      cd_FormatNano = (\<lambda>t. if t = 100 * second then ''t100'' else ''t101''),
      cd_ParseNano = (\<lambda>s. Some (if s = ''t100'' then 100 * second else 101 * second)),
      cd_MarshalRefs = (\<lambda>refs. Some (concat (map (\<lambda>r. ref_ResponseID r @ [newline]) refs))),
      cd_UnmarshalRefs = (\<lambda>d. Some (map ex_ref (butlast (Split d newline))))\<rparr>"

definition ex_request :: "string \<Rightarrow> header \<Rightarrow> http_request" where
  "ex_request m h = \<lparr>req_Method = m, req_URL = ex_url ''/a'', req_Header = h\<rparr>"

definition ex_response :: "string \<Rightarrow> http_response" where
  "ex_response cc = \<lparr>resp_StatusCode = 200, resp_Header = ex_header cc, resp_Body = ''body''\<rparr>"

text \<open>The clock advances a second with every reading; the origin always gives the same answer.\<close>

definition ex_env :: "string \<Rightarrow> string + http_response \<Rightarrow> memCache env" where
  "ex_env cc answer =
     \<lparr>e_lib = ex_lib, e_codec = ex_codec cc, e_conn = memcache, e_clk = (\<lambda>n. (100 + int n) * second),
      e_upstream = (\<lambda>_ _. answer), e_swrTimeout = DefaultSWRTimeout\<rparr>"

text \<open>A world in which the response of \<open>/a\<close> is stored, received at second 101.\<close>

definition ex_id :: string where
  "ex_id = ''http://h/a#0''"

definition ex_entry :: "string \<Rightarrow> entry" where
  "ex_entry cc = \<lparr>ent_ID = ex_id, ent_Data = ex_response cc, ent_RequestedAt = 100 * second,
     ent_ReceivedAt = 101 * second\<rparr>"

definition ex_stored :: "string \<Rightarrow> memCache world" where
  "ex_stored cc =
     \<lparr>w_cache = \<lparr>mem_store = [''http://h/a'' \<mapsto> ex_id @ [newline],
                  ex_id \<mapsto> WriteTo (ex_codec cc) (ex_entry cc) @ ''body'']\<rparr>,
      w_tick = 2, w_sent = [], w_pending = []\<rparr>"

definition ex_empty :: "memCache world" where
  "ex_empty = start_world memcache_Open"

lemmas ex_defs = ex_url_def ex_lib_def ex_header_def ex_ref_def ex_codec_def ex_request_def ex_response_def
  ex_env_def ex_id_def ex_entry_def ex_stored_def ex_empty_def

lemma ex_key: "Normalize ex_lib (ex_url ''/a'') = Some ''http://h/a''"
  by code_simp

lemma ex_understood: "isRequestMethodUnderstood (ex_request ''GET'' [])"
  by code_simp

lemma ex_storable: "storable (ex_codec cc) req (ex_entry cc)"
  by (rule codec_entry_storable) (simp add: codec_entry_def ex_defs meta_field_def)

lemma ex_stored_refs: "stored_refs (ex_codec cc) (mem_store (w_cache (ex_stored cc))) ''http://h/a'' = [ex_ref ex_id]"
  by (simp add: stored_refs_def ex_defs)

lemma ex_stored_entry: "stored_entry (ex_codec cc) (mem_store (w_cache (ex_stored cc))) ex_id req = Some (ex_entry cc)"
proof -
  have "MarshalBinary (ex_codec cc) (ex_entry cc) = Some (WriteTo (ex_codec cc) (ex_entry cc) @ ''body'')"
    by (simp add: MarshalBinary_def ex_codec_def ex_entry_def ex_response_def)
  then have "ParseResponse (ex_codec cc) (WriteTo (ex_codec cc) (ex_entry cc) @ ''body'') req = Inr (ex_entry cc)"
    using ex_storable [of cc req] by (simp add: storable_def)
  then show ?thesis by (simp add: stored_entry_def ex_stored_def)
qed

lemma ex_selects:
  "selects ex_lib (ex_codec cc) (mem_store (w_cache (ex_stored cc))) ''http://h/a'' req
   = Some ([ex_ref ex_id], 0, ex_entry cc)"
  by (simp add: selects_def ex_stored_refs VaryHeadersMatch_single varyHeadersMatchOne_iff ex_ref_def ex_stored_entry)

lemma ex_reads_good: "reads_good (\<lambda>_. True) cd m k"
  by (simp add: reads_good_def)

lemma ex_reusable:
  "reusable (ex_env ''max-age=60'' a) (ex_stored ''max-age=60'') (ex_request ''GET'' []) (ex_entry ''max-age=60'')"
proof -
  have "reusable (ex_env ''max-age=60'' (Inl ''down'')) (ex_stored ''max-age=60'') (ex_request ''GET'' [])
      (ex_entry ''max-age=60'')" by code_simp
  then show ?thesis by (simp add: reusable_def found_freshness_def ex_env_def)
qed

lemma ex_env_simps [simp]:
  "e_lib (ex_env cc a) = ex_lib" "e_codec (ex_env cc a) = ex_codec cc" "e_conn (ex_env cc a) = memcache"
  "e_upstream (ex_env cc a) n req = a" "req_URL (ex_request m h) = ex_url ''/a''"
  "req_Method (ex_request m h) = m" "req_Header (ex_request m h) = h"
  by (simp_all add: ex_env_def ex_request_def)

lemma ex_hit:
  obtains r w' where "RoundTrip (ex_env ''max-age=60'' a) (ex_stored ''max-age=60'') (ex_request ''GET'' []) = (Responded r, w')"
    "w_sent w' = w_sent (ex_stored ''max-age=60'')" "resp_Body r = ''body''"
proof -
  obtain out w' where rt: "RoundTrip (ex_env ''max-age=60'' a) (ex_stored ''max-age=60'') (ex_request ''GET'' []) = (out, w')"
    by fastforce
  have sel: "selects (e_lib (ex_env ''max-age=60'' a)) (e_codec (ex_env ''max-age=60'' a))
      (mem_store (w_cache (ex_stored ''max-age=60''))) ''http://h/a'' (ex_request ''GET'' [])
    = Some ([ex_ref ex_id], 0, ex_entry ''max-age=60'')" by (simp add: ex_selects)
  show ?thesis
    using mem.RoundTrip_hit(1) [OF _ _ _ ex_understood ex_reads_good sel rt ex_reusable] that rt
    by (auto simp: ex_key ex_entry_def ex_response_def)
qed

lemma ex_header_get: "Header_Get (ex_header cc) ''Date'' = ''d100''" "Header_Get (ex_header cc) ''Connection'' = []"
  "Header_Values (ex_header cc) ''Vary'' = []" "Header_Get (ex_header cc) ''Cache-Control'' = cc"
  by (simp_all add: Header_Get_def Header_Values_def header_values_def ex_header_def)

lemma ex_remove: "removeHopByHopHeaders (ex_response cc) = ex_response cc"
proof -
  have absent: "fold AList.delete ks m = m" if "\<forall>k \<in> set ks. k \<notin> fst ` set m"
    for ks :: "string list" and m :: header
    using that by (induction ks) simp_all
  have "\<forall>k \<in> set static_hop_by_hop. k \<notin> {''Date'', ''Cache-Control''}" by (simp add: static_hop_by_hop_def)
  moreover have "hopByHopHeaders (ex_header cc) = static_hop_by_hop"
    by (simp add: hopByHopHeaders_def ex_header_get TrimmedCSVCanonical_def TrimmedCSV_def)
  moreover have "fst ` set (ex_header cc) = {''Date'', ''Cache-Control''}" by (simp add: ex_header_def)
  ultimately have "fold AList.delete (hopByHopHeaders (ex_header cc)) (ex_header cc) = ex_header cc"
    by (intro absent) simp
  then show ?thesis by (simp add: removeHopByHopHeaders_def ex_response_def)
qed

lemma ex_dated: "dated_response (ex_env cc a) ex_empty (ex_response cc) = ex_response cc"
  by (simp add: dated_response_def FixDateHeader_def RawTime_Value_def ex_response_def ex_header_get)
    (simp add: ex_lib_def)

lemma ex_vary: "response_vary (ex_response cc) = []" "response_variant lib req (ex_response cc) = []"
proof -
  show v: "response_vary (ex_response cc) = []"
    by (simp add: response_vary_def ex_remove) (simp add: ex_response_def ex_header_get)
  show "response_variant lib req (ex_response cc) = []"
    by (simp add: response_variant_def v vary_resolved_def normalizedVaryHeader_def TrimmedCSVCanonical_def TrimmedCSV_def)
qed

lemma ex_fetched:
  "fetched_entry (ex_env cc a) ex_empty (ex_request ''GET'' []) ''http://h/a'' (ex_response cc) = ex_entry cc"
  "fetched_ref (ex_env cc a) ex_empty (ex_request ''GET'' []) ''http://h/a'' (ex_response cc) = ex_ref ex_id"
proof -
  have clk: "e_clk (ex_env cc a) 0 = 100 * second" "e_clk (ex_env cc a) (Suc 0) = 101 * second"
    "w_tick ex_empty = 0" by (simp_all add: ex_env_def ex_empty_def start_world_def)
  have id: "makeVaryKey ''http://h/a'' [] = ex_id" by (simp add: makeVaryKey_def noVaryHash_def ex_id_def)
  show e: "fetched_entry (ex_env cc a) ex_empty (ex_request ''GET'' []) ''http://h/a'' (ex_response cc) = ex_entry cc"
    by (simp add: fetched_entry_def ex_dated new_entry_def ex_vary ex_remove clk id ex_entry_def)
  have "DateHeader ex_lib (ex_entry cc) = 100 * second"
    by (simp add: DateHeader_def RawTime_Value_def ex_entry_def ex_response_def ex_header_get) (simp add: ex_lib_def)
  then show "fetched_ref (ex_env cc a) ex_empty (ex_request ''GET'' []) ''http://h/a'' (ex_response cc) = ex_ref ex_id"
    using e by (simp add: fetched_ref_def fetched_entry_def new_ref_def ex_dated ex_vary id ex_ref_def)
qed

lemma ex_storable_refs: "storable_refs (ex_codec cc) [ex_ref ex_id]"
  by (simp add: storable_refs_def ex_defs)

lemma ex_empty_refs: "stored_refs cd (mem_store (w_cache ex_empty)) k = []"
  by (simp add: stored_refs_def ex_empty_def start_world_def memcache_Open_def)

lemma ex_cacheable: "canStoreResponse (ex_response ''max-age=60'') (req_cc (ex_request ''GET'' []))
   (resp_cc (ex_response ''max-age=60''))"
  by code_simp

lemma ex_no_directives [simp]: "ParseCCRequestDirectives [] = []"
  by (simp add: ParseCCRequestDirectives_def Header_Get_def Header_Values_def header_values_def)

lemma ex_conn: "driver_conn (e_conn (ex_env cc a)) mem_store (\<lambda>_. True) (\<lambda>_. True)"
  by (simp add: mem.driver_conn_axioms)

lemma reusable_cong: "w_tick w1 = w_tick w \<Longrightarrow> reusable env w1 req e = reusable env w req e"
  by (simp add: reusable_def found_freshness_def)

lemma ex_entry_data [simp]: "ent_Data (ex_entry cc) = ex_response cc" "ent_ID (ex_entry cc) = ex_id"
  by (simp_all add: ex_entry_def)

lemma ex_response_simps [simp]: "resp_StatusCode (ex_response cc) = 200" "resp_Body (ex_response cc) = ''body''"
  "resp_Header (ex_response cc) = ex_header cc"
  by (simp_all add: ex_response_def)

text \<open>The stored response of the example is two seconds old.\<close>

lemma ex_age:
  "entry_rfc_age ex_lib (102 * second) (ex_entry cc) = 2 * second"
  "sane_entry ex_lib (102 * second) (ex_entry cc)"
proof -
  have d: "DateHeader ex_lib (ex_entry cc) = 100 * second"
    by (simp add: DateHeader_def RawTime_Value_def ex_entry_def ex_response_def ex_header_get) (simp add: ex_lib_def)
  have a: "age_header_value (ex_header cc) = 0"
    by (simp add: age_header_value_def ex_header_def Header_Get_def Header_Values_def header_values_def)
  show "entry_rfc_age ex_lib (102 * second) (ex_entry cc) = 2 * second"
    "sane_entry ex_lib (102 * second) (ex_entry cc)"
    by (simp_all add: entry_rfc_age_def sane_entry_def sane_times_def d a rfc_current_age_def)
      (simp_all add: ex_entry_def)
qed

lemma ex_tick: "e_clk (ex_env cc a) (w_tick (ex_stored cc)) = 102 * second"
  by (simp add: ex_env_def ex_stored_def)

lemma ex_must_revalidate:
  "Resp_MustRevalidate (resp_cc (ex_response ''max-age=1, must-revalidate''))"
  "Resp_MaxAge (resp_cc (ex_response ''max-age=1, must-revalidate'')) = Some second"
  by code_simp+

lemma ex_max_age:
  "Resp_MaxAge (resp_cc (ex_response ''max-age=60'')) = Some (60 * second)"
  "\<not> unqualified_no_cache (resp_cc (ex_response ''max-age=60''))"
  by code_simp+

lemma ex_lifetime:
  assumes "Resp_MaxAge (resp_cc (ex_response cc)) = Some d" "0 < d"
  shows "entry_lifetime ex_lib (ex_entry cc) [] (resp_cc (ent_Data (ex_entry cc))) = d"
  using assms by (simp add: entry_lifetime_def response_lifetime_def client_lifetime_def Req_MaxAge_def
      getDurationDirective_def ex_entry_def)

definition ex_freshness :: Freshness where
  "ex_freshness = \<lparr>fr_IsStale = True, fr_Age = \<lparr>age_Value = 0, age_Timestamp = 0\<rparr>, fr_UsefulLife = 0\<rparr>"

text \<open>A validation of the stored response, received at second 101.\<close>

definition ex_context :: "string \<Rightarrow> Freshness \<Rightarrow> RevalidationContext" where
  "ex_context cc f = \<lparr>rv_URLKey = ''http://h/a'', rv_Start = 100 * second, rv_End = 101 * second, rv_CCReq = [],
     rv_Stored = ex_entry cc, rv_Freshness = f, rv_Refs = [], rv_RefIndex = 0\<rparr>"

lemma ex_context_simps [simp]:
  "rv_URLKey (ex_context cc f) = ''http://h/a''" "rv_Start (ex_context cc f) = 100 * second"
  "rv_End (ex_context cc f) = 101 * second" "rv_Stored (ex_context cc f) = ex_entry cc"
  "rv_Freshness (ex_context cc f) = f" "rv_Refs (ex_context cc f) = []" "rv_RefIndex (ex_context cc f) = 0"
  by (simp_all add: ex_context_def)

lemma ex_header_distinct [simp]: "distinct (map fst (ex_header cc))"
  by (simp add: ex_header_def)

lemma ex_merge: "mergeResponseHeaders (ex_response cc) (ex_header cc) = ex_response cc"
proof -
  have "hopByHopHeaders (ex_header cc) = static_hop_by_hop"
    by (simp add: hopByHopHeaders_def ex_header_get TrimmedCSVCanonical_def TrimmedCSV_def)
  then show ?thesis
    by (simp add: mergeResponseHeaders_def ex_response_def ex_header_def static_hop_by_hop_def)
qed

lemma ex_vary_key [simp]: "makeVaryKey ''http://h/a'' [] = ex_id"
  by (simp add: makeVaryKey_def noVaryHash_def ex_id_def)

lemma ex_new_entry: "new_entry lib req (ex_response cc) ''http://h/a'' (100 * second) (101 * second) = ex_entry cc"
  by (simp add: new_entry_def ex_vary ex_remove ex_entry_def)

lemma ex_new_ref: "new_ref ex_lib req (ex_response cc) ''http://h/a'' (100 * second) (101 * second) = ex_ref ex_id"
proof -
  have "DateHeader ex_lib (ex_entry cc) = 100 * second"
    by (simp add: DateHeader_def RawTime_Value_def ex_header_get) (simp add: ex_lib_def)
  then show ?thesis by (simp add: new_ref_def ex_new_entry [simplified] ex_vary ex_ref_def)
qed

lemma ex_stale_if_error: "Resp_StaleIfError (resp_cc (ex_response ''stale-if-error=60'')) = Some (60 * second)"
  by code_simp

lemma ex_storable_body: "storable (ex_codec cc) req (ex_entry cc\<lparr>ent_Data := ex_response cc\<lparr>resp_Body := b\<rparr>\<rparr>)"
  by (rule codec_entry_storable) (simp add: codec_entry_def ex_defs meta_field_def)

lemma ex_max_stale: "Req_MaxStale (req_cc (ex_request ''GET'' [(''Cache-Control'', [''max-stale''])])) = Some []"
  "isRequestMethodUnderstood (ex_request ''GET'' [(''Cache-Control'', [''max-stale''])])"
  "\<not> Req_NoCache (req_cc (ex_request ''GET'' [(''Cache-Control'', [''max-stale''])]))"
  "Req_MaxAge (req_cc (ex_request ''GET'' [(''Cache-Control'', [''max-stale''])])) = None"
  "Req_MinFresh (req_cc (ex_request ''GET'' [(''Cache-Control'', [''max-stale''])])) = None"
  by code_simp+

lemma ex_sane: "sane_entry ex_lib ((102 + int n) * second) (ex_entry cc)" if "n \<le> 1000"
proof -
  have d: "DateHeader ex_lib (ex_entry cc) = 100 * second"
    by (simp add: DateHeader_def RawTime_Value_def ex_header_get) (simp add: ex_lib_def)
  have a: "age_header_value (ex_header cc) = 0"
    by (simp add: age_header_value_def ex_header_def Header_Get_def Header_Values_def header_values_def)
  show ?thesis using that by (simp add: sane_entry_def sane_times_def d a) (simp add: ex_entry_def)
qed

text \<open>References of \<open>ex_codec\<close> keep IDs without a newline; a fetch stores one reference.\<close>

lemma Split_lines: "\<forall>i \<in> set is. newline \<notin> set i \<Longrightarrow> Split (concat (map (\<lambda>i. i @ [newline]) is)) newline = is @ [[]]"
  by (induction "is") (simp_all add: Split_append_sep)

lemma ex_ids_survive: "ids_survive (\<lambda>i. newline \<notin> set i) (ex_codec cc)"
proof -
  have "ResponseIDs (map ex_ref (butlast (Split (concat (map (\<lambda>r. ref_ResponseID r @ [newline]) refs)) newline))) = ResponseIDs refs"
    if "\<forall>i \<in> set (ResponseIDs refs). newline \<notin> set i" for refs
    using Split_lines [of "ResponseIDs refs"] that
    by (simp add: ResponseIDs_def comp_def ex_ref_def)
  then show ?thesis by (auto simp: ids_survive_def ex_codec_def)
qed

lemma ex_request_ok: "request_ok (\<lambda>i. newline \<notin> set i) ex_lib (ex_request m h)"
proof -
  have d: "newline \<notin> set (nat_digits n)" for n using nat_digits_range [of newline n] by (auto simp: is_digit_def)
  have "newline \<notin> set (makeVaryKey ''http://h/a'' v)" for v
    using d by (simp add: makeVaryKey_def noVaryHash_def FormatUint_def)
  then show ?thesis by (simp add: request_ok_def key_ok_def ex_key)
qed

lemma ex_fetch:
  assumes "RoundTrip (ex_env ''max-age=60'' (Inr (ex_response ''max-age=60''))) ex_empty (ex_request ''GET'' []) = (out, w')"
  shows "stored_refs (ex_codec ''max-age=60'') (mem_store (w_cache w')) ''http://h/a'' = [ex_ref ex_id]" "w_tick w' = 2"
proof -
  let ?cc = "''max-age=60''"
  let ?env = "ex_env ?cc (Inr (ex_response ?cc))" and ?req = "ex_request ''GET'' []"
  have h: "\<not> Req_OnlyIfCached (req_cc ?req)" by (simp add: Req_OnlyIfCached_def hasToken_def)
  have up: "e_upstream ?env (length (w_sent ex_empty)) ?req = Inr (ex_response ?cc)" by simp
  note F = mem.fetch_stores [OF _ _ _ ex_understood _ h up _ _ _ _ _ assms, of "''http://h/a''" ?req]
  show "stored_refs (ex_codec ?cc) (mem_store (w_cache w')) ''http://h/a'' = [ex_ref ex_id]" "w_tick w' = 2"
    using F(3,6) ex_cacheable ex_storable [of ?cc ?req]
    by (simp_all add: ex_key ex_empty_refs ex_dated ex_fetched ex_storable_refs) (simp add: ex_empty_def start_world_def)
qed

end
