(* ===== verification/Rules.thy ===== *)
theory Rules
  imports Example
begin

text \<open>
  The heuristic lifetime, computed in float64 and rounded to a second, is within half a second
  and 400 nanoseconds of a tenth of the time since Last-Modified, and not negative, for every
  difference that fits a duration.
\<close>

theorem heuristic_is_a_tenth:
  assumes "RawTime_Value lib (Header_Get h ''Last-Modified'') = Some m" and "m < date" and "date - m \<le> max_int64"
  shows "\<bar>10 * heuristicFreshness lib h date - (date - m)\<bar> \<le> 5 * second + 4000 \<and> 0 \<le> heuristicFreshness lib h date"
proof -
  have "time_sub date m = date - m" using assms by (simp add: time_sub_def)
  then show ?thesis using assms heuristic_tenth [of "date - m"] by (simp add: heuristicFreshness_def)
qed

theorem heuristic_is_a_tenth_witness:
  "heuristicFreshness ex_lib [(''Last-Modified'', [''d100''])] (200 * second) \<in> {9 * second .. 11 * second}"
proof -
  have h: "Header_Get [(''Last-Modified'', [''d100''])] ''Last-Modified'' = ''d100''"
    by (simp add: Header_Get_def Header_Values_def header_values_def)
  have m: "RawTime_Value ex_lib (Header_Get [(''Last-Modified'', [''d100''])] ''Last-Modified'') = Some (100 * second)"
    unfolding h by (simp add: RawTime_Value_def) (simp add: ex_lib_def)
  from heuristic_is_a_tenth [OF m, of "200 * second"] show ?thesis by auto
qed

text \<open>
  C32: A stored response that is stale for a request at one time of the clock is stale for it at
  every later time, whatever the directives of both sides, as long as the Age header of the stored
  response and every difference of the times involved stay below 2^60 nanoseconds (36 years) at both
  times. Beyond that the age wraps, and a stale response may become fresh again.
\<close>

theorem staleness_is_monotone:
  assumes "sane_entry lib (clk n) e" and "sane_entry lib (clk n') e" and "clk n \<le> clk n'"
    and "fr_IsStale (fst (CalculateFreshness lib clk n e reqCC resCC))"
  shows "fr_IsStale (fst (CalculateFreshness lib clk n' e reqCC resCC))"
proof (cases "Req_MaxAge reqCC = Some 0")
  case True
  then show ?thesis by (rule CalculateFreshness_max_age_0)
next
  case False
  have "entry_rfc_age lib (clk n) e \<le> entry_rfc_age lib (clk n') e"
    unfolding entry_rfc_age_def using assms(3) by (rule rfc_current_age_mono)
  then show ?thesis
    using assms(4) entry_rfc_age_range [OF assms(1)] entry_rfc_age_range [OF assms(2)]
      entry_lifetime_range [of lib e reqCC resCC]
    by (auto simp: CalculateFreshness_verdict [OF False] entry_age_exact [of lib clk n e, OF assms(1)]
        entry_age_exact [of lib clk n' e, OF assms(2)]
        elim: stale_verdict_mono)
qed

theorem staleness_is_monotone_witness:
  "fr_IsStale (fst (CalculateFreshness ex_lib (\<lambda>n. (100 + int n) * second) 900 (ex_entry ''max-age=1, must-revalidate'') []
     (resp_cc (ex_response ''max-age=1, must-revalidate''))))"
proof -
  let ?cc = "''max-age=1, must-revalidate''" and ?clk = "\<lambda>n. (100 + int n) * second"
  have "max_stale [] = 0" by (simp add: max_stale_def Req_MaxStale_def)
  then have "fr_IsStale (fst (CalculateFreshness ex_lib ?clk 2 (ex_entry ?cc) [] (resp_cc (ex_response ?cc))))"
    using stale_rfc [of ex_lib ?clk 2 "ex_entry ?cc" "[]" "resp_cc (ex_response ?cc)"] ex_age
      ex_lifetime [OF ex_must_revalidate(2)] by simp
  then show ?thesis
    using staleness_is_monotone [of ex_lib ?clk 2 "ex_entry ?cc" 900] ex_sane [of 0] ex_sane [of 898] by simp
qed

text \<open>A response with max-age=0 and a later \<open>Expires\<close> is given the lifetime of \<open>Expires\<close>.\<close>

theorem zero_max_age_defers_to_expires:
  assumes "Resp_MaxAge resCC = Some 0" and "ExpiresHeader lib e = (t, found, True)" and "DateHeader lib e < t"
    and "Req_MaxAge reqCC = None"
  shows "fr_UsefulLife (fst (CalculateFreshness lib clk n e reqCC resCC)) = time_sub t (DateHeader lib e)"
  using assms by (simp add: CalculateFreshness_verdict entry_lifetime_def response_lifetime_def client_lifetime_def)

theorem zero_max_age_defers_to_expires_witness:
  "\<exists>e. Header_Get (resp_Header (ent_Data e)) ''Cache-Control'' = ''max-age=0'' \<and>
     fr_UsefulLife (fst (CalculateFreshness (ex_lib\<lparr>lib_ParseTime := \<lambda>s. Some (100 * int (length s) * second)\<rparr>) (\<lambda>_. 0) 0 e []
       (resp_cc (ent_Data e)))) = 300 * second"
proof -
  let ?lib = "ex_lib\<lparr>lib_ParseTime := \<lambda>s. Some (100 * int (length s) * second)\<rparr>"
  let ?h = "[(''Date'', [''d'']), (''Expires'', [''late'']), (''Cache-Control'', [''max-age=0''])]"
  let ?e = "\<lparr>ent_ID = [], ent_Data = \<lparr>resp_StatusCode = 200, resp_Header = ?h, resp_Body = []\<rparr>,
    ent_RequestedAt = 0, ent_ReceivedAt = 0\<rparr>"
  have h: "Header_Get ?h ''Date'' = ''d''" "Header_Get ?h ''Expires'' = ''late''" "Header_Get ?h ''Cache-Control'' = ''max-age=0''"
    by (simp_all add: Header_Get_def Header_Values_def header_values_def)
  have m: "Resp_MaxAge (resp_cc (ent_Data ?e)) = Some 0" by code_simp
  have x: "ExpiresHeader ?lib ?e = (400 * second, True, True)" "DateHeader ?lib ?e = 100 * second"
    by (simp_all add: ExpiresHeader_def DateHeader_def RawTime_Value_def h)
  have r: "Req_MaxAge [] = None" by (simp add: Req_MaxAge_def getDurationDirective_def)
  from zero_max_age_defers_to_expires [OF m x(1) _ r] x(2) show ?thesis
    by (intro exI [of _ ?e]) (simp add: h time_sub_def)
qed

text \<open>
  C35: Vary matching returns an index exactly when some reference matches the request; the reference
  at the index is one of the given ones, has no Vary *, agrees with the request on every nominated
  value, and no matching reference precedes it in the order of preference.
\<close>

theorem preferred_variant_selected:
  "case VaryHeadersMatch lib rs h of
     (rs', None) \<Rightarrow> \<forall>r \<in> set rs. \<not> varyHeadersMatchOne lib r h
   | (rs', Some i) \<Rightarrow> i < length rs' \<and> rs' ! i \<in> set rs \<and> ref_Vary (rs' ! i) \<noteq> ''*'' \<and>
       (\<forall>(k, v) \<in> set (ref_VaryResolved (rs' ! i)). nominated_value lib h k = v) \<and>
       (\<forall>r \<in> set rs. varyHeadersMatchOne lib r h \<longrightarrow> cmp_ref (rs' ! i) r \<le> 0)"
proof (cases "VaryHeadersMatch lib rs h")
  case (Pair rs' m)
  show ?thesis
  proof (cases m)
    case None
    then show ?thesis using VaryHeadersMatch_none [of lib rs h] Pair by simp
  next
    case (Some i)
    note F = VaryHeadersMatch_found [OF Pair [unfolded Some]]
    from F(1-3,5) show ?thesis unfolding varyHeadersMatchOne_iff by (simp add: Pair Some)
  qed
qed

theorem preferred_variant_selected_witness:
  "case VaryHeadersMatch ex_lib [ex_ref ''a'', ex_ref ''b''] [] of
     (rs', None) \<Rightarrow> False | (rs', Some i) \<Rightarrow> ref_ResponseID (rs' ! i) \<in> {''a'', ''b''}"
proof -
  have "varyHeadersMatchOne ex_lib (ex_ref ''a'') []" by (simp add: varyHeadersMatchOne_iff ex_ref_def)
  with preferred_variant_selected [where lib = ex_lib and rs = "[ex_ref ''a'', ex_ref ''b'']" and h = "[]"] show ?thesis
    by (auto simp: ex_ref_def split: prod.splits option.splits)
qed

text \<open>
  C30: An entry whose ID and times are plain fields and whose response net/http dumps and reads back
  is parsed back unchanged from its serialized form.
\<close>

theorem entry_serialization_roundtrip:
  assumes "codec_entry cd req e"
  shows "\<exists>d. MarshalBinary cd e = Some d \<and> ParseResponse cd d req = Inr e"
  using codec_entry_storable [OF assms] by (auto simp: storable_def split: option.splits)

theorem entry_serialization_roundtrip_witness:
  "\<exists>d. MarshalBinary (ex_codec ''max-age=60'') (ex_entry ''max-age=60'') = Some d \<and>
     ParseResponse (ex_codec ''max-age=60'') d (ex_request ''GET'' []) = Inr (ex_entry ''max-age=60'')"
  by (rule entry_serialization_roundtrip) (simp add: codec_entry_def ex_defs meta_field_def)

end
