(* ===== verification/FileNamer.thy ===== *)
theory FileNamer
  imports GoStd
begin

text \<open>
  \<open>store/fscache/filenamer.go\<close>: the file name of a key is its unpadded URL-safe base64 encoding,
  cut into fragments of 48 bytes when it is longer than a file name may be, and the way back. The
  encoder and the decoder of \<open>encoding/base64\<close> are written out: the decoder skips line breaks
  and ignores the bits a short last quantum leaves over.
\<close>

subsection \<open>base64.RawURLEncoding\<close>

text \<open>The URL-safe alphabet: \<open>A-Z a-z 0-9 - _\<close>.\<close>

definition b64_char :: "nat \<Rightarrow> char" where
  "b64_char i =
     (if i < 26 then char_of (i + 65)
      else if i < 52 then char_of (i - 26 + 97)
      else if i < 62 then char_of (i - 52 + 48)
      else if i = 62 then CHR ''-'' else CHR ''_'')"

definition b64_value :: "char \<Rightarrow> nat option" where
  "b64_value c =
     (if is_upper c then Some (ord c - 65)
      else if is_lower c then Some (ord c - 97 + 26)
      else if is_digit c then Some (ord c - 48 + 52)
      else if c = CHR ''-'' then Some 62
      else if c = CHR ''_'' then Some 63
      else None)"

fun b64_encode :: "bytes \<Rightarrow> string" where
  "b64_encode [] = []"
| "b64_encode [a] = [b64_char (ord a div 4), b64_char (ord a mod 4 * 16)]"
| "b64_encode [a, b] =
     [b64_char (ord a div 4), b64_char (ord a mod 4 * 16 + ord b div 16), b64_char (ord b mod 16 * 4)]"
| "b64_encode (a # b # c # s) =
     b64_char (ord a div 4) # b64_char (ord a mod 4 * 16 + ord b div 16) #
     b64_char (ord b mod 16 * 4 + ord c div 64) # b64_char (ord c mod 64) # b64_encode s"

fun b64_quanta :: "nat list \<Rightarrow> bytes option" where
  "b64_quanta [] = Some []"
| "b64_quanta [w] = None"
| "b64_quanta [w, x] = Some [char_of (w * 4 + x div 16)]"
| "b64_quanta [w, x, y] = Some [char_of (w * 4 + x div 16), char_of (x mod 16 * 16 + y div 4)]"
| "b64_quanta (w # x # y # z # s) =
     (case b64_quanta s of
        None \<Rightarrow> None
      | Some r \<Rightarrow> Some (char_of (w * 4 + x div 16) # char_of (x mod 16 * 16 + y div 4) #
                     char_of (y mod 4 * 64 + z) # r))"

fun b64_values :: "string \<Rightarrow> nat list option" where
  "b64_values [] = Some []"
| "b64_values (c # cs) =
     (case b64_value c of
        None \<Rightarrow> None
      | Some v \<Rightarrow> (case b64_values cs of None \<Rightarrow> None | Some vs \<Rightarrow> Some (v # vs)))"

definition b64_decode :: "string \<Rightarrow> bytes option" where
  "b64_decode s =
     (case b64_values (filter (\<lambda>c. ord c \<noteq> 10 \<and> ord c \<noteq> 13) s) of
        None \<Rightarrow> None | Some vs \<Rightarrow> b64_quanta vs)"

subsection \<open>File names\<close>

definition fragmentSize :: nat where
  "fragmentSize = 48"

function fragments :: "string \<Rightarrow> string list" where
  "fragments s = (if s = [] then [] else take fragmentSize s # fragments (drop fragmentSize s))"
  by pat_completeness auto
termination
  by (relation "measure length") (auto simp: fragmentSize_def)

declare fragments.simps [simp del]

definition fragmentFileName :: "string \<Rightarrow> string" where
  "fragmentFileName key =
     (let encoded = b64_encode key in
      if length encoded \<le> 255 then encoded else Join (fragments encoded) ''/'')"

definition fragmentedFileNameToKey :: "string \<Rightarrow> bytes option" where
  "fragmentedFileNameToKey name =
     (if CHR ''/'' \<in> set name then b64_decode (filter (\<lambda>c. c \<noteq> CHR ''/'') name)
      else b64_decode name)"

subsection \<open>Lemmas on base64\<close>

lemma b64_char_value: "i < 64 \<Longrightarrow> b64_value (b64_char i) = Some i"
  by (auto simp: b64_char_def b64_value_def is_upper_def is_lower_def is_digit_def)

definition file_byte :: "char \<Rightarrow> bool" where
  "file_byte c \<longleftrightarrow> c \<noteq> CHR ''/'' \<and> c \<noteq> CHR ''.'' \<and> ord c \<noteq> 10 \<and> ord c \<noteq> 13"

lemma file_byte_ord: "file_byte c \<longleftrightarrow> ord c \<notin> {47, 46, 10, 13}"
  by (simp add: file_byte_def flip: of_char_eq_iff [where ?'a = nat])

lemma b64_char_file_byte: "i < 64 \<Longrightarrow> file_byte (b64_char i)"
  by (auto simp: b64_char_def file_byte_ord)

lemma ord_less_256: "ord c < 256"
  by simp

lemma sextets:
  "ord a div 4 < 64" "ord a mod 4 * 16 < 64" "ord a mod 4 * 16 + ord b div 16 < 64"
  "ord b mod 16 * 4 < 64" "ord b mod 16 * 4 + ord c div 64 < 64" "ord c mod 64 < 64"
  using ord_less_256 [of a] ord_less_256 [of b] ord_less_256 [of c] by linarith+

text \<open>Decoding puts the sextets of three bytes together again.\<close>

lemma sextets_join:
  "char_of (ord a div 4 * 4 + (ord a mod 4 * 16 + ord b div 16) div 16) = a"
  "char_of ((ord a mod 4 * 16 + ord b div 16) mod 16 * 16 + (ord b mod 16 * 4 + ord c div 64) div 4) = b"
  "char_of ((ord b mod 16 * 4 + ord c div 64) mod 4 * 64 + ord c mod 64) = c"
proof -
  have b: "ord b div 16 < 16" and c: "ord c div 64 < 4"
    using ord_less_256 [of b] ord_less_256 [of c] by linarith+
  have "ord a div 4 * 4 + (ord a mod 4 * 16 + ord b div 16) div 16 = ord a"
    "(ord a mod 4 * 16 + ord b div 16) mod 16 * 16 + (ord b mod 16 * 4 + ord c div 64) div 4 = ord b"
    "(ord b mod 16 * 4 + ord c div 64) mod 4 * 64 + ord c mod 64 = ord c"
    using b c by simp_all
  then show "char_of (ord a div 4 * 4 + (ord a mod 4 * 16 + ord b div 16) div 16) = a"
    "char_of ((ord a mod 4 * 16 + ord b div 16) mod 16 * 16 + (ord b mod 16 * 4 + ord c div 64) div 4) = b"
    "char_of ((ord b mod 16 * 4 + ord c div 64) mod 4 * 64 + ord c mod 64) = c"
    by simp_all
qed

lemma sextets_join_short:
  "char_of (ord a div 4 * 4 + (ord a mod 4 * 16) div 16) = a"
  "char_of ((ord a mod 4 * 16 + ord b div 16) mod 16 * 16 + (ord b mod 16 * 4) div 4) = b"
proof -
  have b: "ord b div 16 < 16" using ord_less_256 [of b] by linarith
  have "ord a div 4 * 4 + (ord a mod 4 * 16) div 16 = ord a"
    "(ord a mod 4 * 16 + ord b div 16) mod 16 * 16 + (ord b mod 16 * 4) div 4 = ord b"
    using b by simp_all
  then show "char_of (ord a div 4 * 4 + (ord a mod 4 * 16) div 16) = a"
    "char_of ((ord a mod 4 * 16 + ord b div 16) mod 16 * 16 + (ord b mod 16 * 4) div 4) = b"
    by simp_all
qed

lemma b64_quanta_encode: "\<exists>vs. b64_values (b64_encode s) = Some vs \<and> b64_quanta vs = Some s"
proof (induction s rule: b64_encode.induct)
  case (4 a b c s)
  then obtain vs where "b64_values (b64_encode s) = Some vs" "b64_quanta vs = Some s" by blast
  with sextets_join(1) [of a b] sextets_join(2) [of a b c] sextets_join(3) [of b c] show ?case by (simp add: b64_char_value sextets)
next
  case (2 a)
  from sextets_join_short(1) [of a] show ?case by (simp add: b64_char_value sextets)
next
  case (3 a b)
  from sextets_join(1) [of a b] sextets_join_short(2) [of a b]
  show ?case by (simp add: b64_char_value sextets)
qed simp

lemma b64_encode_file_bytes: "c \<in> set (b64_encode s) \<Longrightarrow> file_byte c"
  by (induction s rule: b64_encode.induct) (auto simp: b64_char_file_byte sextets)

lemma b64_encode_plain:
  "c \<in> set (b64_encode s) \<Longrightarrow> c \<noteq> CHR ''/'' \<and> c \<noteq> CHR ''.'' \<and> ord c \<noteq> 10 \<and> ord c \<noteq> 13"
  using b64_encode_file_bytes [of c s] by (simp add: file_byte_def)

lemma b64_decode_encode: "b64_decode (b64_encode s) = Some s"
proof -
  have "filter (\<lambda>c. ord c \<noteq> 10 \<and> ord c \<noteq> 13) (b64_encode s) = b64_encode s"
    using b64_encode_plain by (intro filter_True) blast
  with b64_quanta_encode [of s] show ?thesis by (auto simp: b64_decode_def)
qed

lemma b64_encode_inject: "b64_encode s = b64_encode t \<Longrightarrow> s = t"
  by (metis b64_decode_encode option.inject)

lemma length_b64_encode: "length (b64_encode s) = (4 * length s + 2) div 3"
  by (induction s rule: b64_encode.induct) simp_all

subsection \<open>Lemmas on file names\<close>

lemma concat_fragments: "concat (fragments s) = s"
proof (induction s rule: fragments.induct)
  case (1 s)
  then show ?case by (cases "s = []") (simp_all add: fragments.simps [of s] fragments.simps [of "[]"])
qed

lemma fragments_bounds: "p \<in> set (fragments s) \<Longrightarrow> p \<noteq> [] \<and> length p \<le> 48 \<and> set p \<subseteq> set s"
proof (induction s rule: fragments.induct)
  case (1 s)
  show ?case
  proof (cases "s = []")
    case False
    with 1 have "p = take 48 s \<or> p \<noteq> [] \<and> length p \<le> 48 \<and> set p \<subseteq> set (drop 48 s)"
      by (auto simp: fragments.simps [of s] fragmentSize_def)
    with False show ?thesis by (auto dest: in_set_takeD in_set_dropD)
  qed (use 1 in \<open>simp add: fragments.simps [of "[]"]\<close>)
qed

lemma fragments_nonempty: "s \<noteq> [] \<Longrightarrow> fragments s \<noteq> []"
  by (simp add: fragments.simps [of s])

lemma Join_filter:
  "\<forall>p \<in> set ps. c \<notin> set p \<Longrightarrow> filter (\<lambda>d. d \<noteq> c) (Join ps [c]) = concat ps"
  by (induction ps "[c]" rule: Join.induct) (auto intro!: filter_True)

lemma fragment_no_slash: "p \<in> set (fragments (b64_encode key)) \<Longrightarrow> CHR ''/'' \<notin> set p"
  using fragments_bounds [of p "b64_encode key"] b64_encode_plain [of _ key] by blast

lemma fragmentFileName_strip:
  "filter (\<lambda>c. c \<noteq> CHR ''/'') (fragmentFileName key) = b64_encode key"
proof (cases "length (b64_encode key) \<le> 255")
  case True
  then show ?thesis using b64_encode_plain
    by (auto simp: fragmentFileName_def intro!: filter_True)
next
  case False
  then show ?thesis
    using Join_filter [of "fragments (b64_encode key)" "CHR ''/''"]
    by (simp add: fragmentFileName_def fragment_no_slash concat_fragments)
qed

lemma fragmentFileName_roundtrip: "fragmentedFileNameToKey (fragmentFileName key) = Some key"
proof (cases "CHR ''/'' \<in> set (fragmentFileName key)")
  case False
  then have "filter (\<lambda>c. c \<noteq> CHR ''/'') (fragmentFileName key) = fragmentFileName key"
    by (intro filter_True) auto
  with False fragmentFileName_strip [of key] show ?thesis
    by (simp add: fragmentedFileNameToKey_def b64_decode_encode)
qed (simp add: fragmentedFileNameToKey_def fragmentFileName_strip b64_decode_encode)

lemma fragmentFileName_inject: "fragmentFileName k = fragmentFileName k' \<Longrightarrow> k = k'"
  by (metis fragmentFileName_roundtrip option.inject)

lemma fragmentFileName_components:
  "p \<in> set (Split (fragmentFileName key) CHR ''/'') \<Longrightarrow> length p \<le> 255"
proof (cases "length (b64_encode key) \<le> 255")
  case True
  assume "p \<in> set (Split (fragmentFileName key) CHR ''/'')"
  moreover have "CHR ''/'' \<notin> set (b64_encode key)" using b64_encode_plain by blast
  ultimately show ?thesis using True by (simp add: fragmentFileName_def Split_no_sep)
next
  case False
  then have "b64_encode key \<noteq> []" by auto
  with False have "Split (fragmentFileName key) CHR ''/'' = fragments (b64_encode key)"
    by (auto simp: fragmentFileName_def fragment_no_slash fragments_nonempty intro!: Split_Join)
  moreover assume "p \<in> set (Split (fragmentFileName key) CHR ''/'')"
  ultimately show ?thesis using fragments_bounds by fastforce
qed

subsection \<open>Paths\<close>

text \<open>The names on the path of a key's file, and what prefixes of a key have to do with them.\<close>

definition key_path :: "string \<Rightarrow> string list" where
  "key_path key =
     (let encoded = b64_encode key in if length encoded \<le> 255 then [encoded] else fragments encoded)"

lemma b64_encode_empty_iff [simp]: "b64_encode key = [] \<longleftrightarrow> key = []"
  by (cases key rule: b64_encode.cases) simp_all

lemma key_path_not_empty [simp]: "key_path key \<noteq> []"
  by (auto simp: key_path_def Let_def intro!: fragments_nonempty)

lemma key_path_no_slash: "p \<in> set (key_path key) \<Longrightarrow> CHR ''/'' \<notin> set p"
  using b64_encode_plain fragment_no_slash by (auto simp: key_path_def Let_def split: if_splits)

lemma Join_key_path: "Join (key_path key) ''/'' = fragmentFileName key"
  by (simp add: key_path_def fragmentFileName_def Let_def)

lemma Split_fragmentFileName: "Split (fragmentFileName key) CHR ''/'' = key_path key"
  unfolding Join_key_path [symmetric] by (rule Split_Join) (auto simp: key_path_no_slash)

lemma key_path_inject: "key_path k = key_path k' \<longleftrightarrow> k = k'"
  by (metis Join_key_path fragmentFileName_inject)

lemma concat_key_path: "concat (key_path key) = b64_encode key"
  by (simp add: key_path_def Let_def concat_fragments)

lemma key_path_decodes: "fragmentedFileNameToKey (Join (key_path key) ''/'') = Some key"
  by (simp add: Join_key_path fragmentFileName_roundtrip)

lemma fragmentFileName_empty_iff: "fragmentFileName key = [] \<longleftrightarrow> key = []"
proof
  assume "fragmentFileName key = []"
  with fragmentFileName_strip [of key] have "b64_encode key = []" by simp
  then show "key = []" by simp
qed (simp add: fragmentFileName_def)

lemma b64_encode_append: "length a mod 3 = 0 \<Longrightarrow> b64_encode (a @ b) = b64_encode a @ b64_encode b"
  by (induction a rule: b64_encode.induct) simp_all

lemma fragments_append: "length a mod 48 = 0 \<Longrightarrow> fragments (a @ b) = fragments a @ fragments b"
proof (induction a rule: fragments.induct)
  case (1 a)
  show ?case
  proof (cases "a = []")
    case True
    then show ?thesis by (simp add: fragments.simps [of "[]"])
  next
    case False
    then have l: "48 \<le> length a" using 1(2) by (cases "length a < 48") auto
    then have "length (drop 48 a) mod 48 = 0" using 1(2) by (simp add: mod_if)
    then have "fragments (drop 48 a @ b) = fragments (drop 48 a) @ fragments b"
      using 1(1) False by (simp add: fragmentSize_def)
    with False l show ?thesis by (simp add: fragments.simps [of a] fragments.simps [of "a @ b"] fragmentSize_def)
  qed
qed

lemma take_fragments: "n < length (fragments s) \<Longrightarrow> concat (take n (fragments s)) = take (48 * n) s"
proof (induction n arbitrary: s)
  case (Suc n)
  then have s: "s \<noteq> []" by (auto simp: fragments.simps [of "[]"])
  have "n < length (fragments (drop 48 s))" using Suc.prems s by (simp add: fragments.simps [of s] fragmentSize_def)
  from Suc.IH [OF this] s show ?case
    by (simp add: fragments.simps [of s] fragmentSize_def take_add flip: add_mult_distrib2)
qed simp

lemma length_fragments: "n < length (fragments s) \<longleftrightarrow> 48 * n < length s"
proof (induction n arbitrary: s)
  case 0
  then show ?case by (cases "s = []") (simp_all add: fragments.simps [of s] fragments.simps [of "[]"])
next
  case (Suc n)
  from Suc.IH [of "drop 48 s"] show ?case
    by (cases "s = []") (auto simp: fragments.simps [of s] fragments.simps [of "[]"] fragmentSize_def)
qed

subsection \<open>Properties\<close>

text \<open>
  C29: The file name of a key, fragmented or not, decodes back to the key, so distinct keys have
  distinct file names.
\<close>

theorem file_names_roundtrip:
  "fragmentedFileNameToKey (fragmentFileName key) = Some key \<and>
   (fragmentFileName key = fragmentFileName key' \<longleftrightarrow> key = key')"
  using fragmentFileName_roundtrip fragmentFileName_inject by blast

end
