(* ===== verification/FsCache.thy ===== *)
theory FsCache
  imports Conn FileNamer
begin

text \<open>
  \<open>store/fscache\<close>: the file system backend, with the encryption of \<open>encrypt.go\<close>, the timeout of
  every operation and the listing of keys.

  The file system below the cache's root holds the files with their contents and the directories,
  both by path (the list of names). Its operations are those of \<open>os.Root\<close> that the code calls,
  with the errors they have. The authenticated cipher (\<open>crypto/cipher\<close>), the random reader and
  the clock are parameters of the configuration; \<open>fc_late n\<close> says whether the timeout preempts
  the operation number \<open>n\<close>, whose goroutine completes all the same.
\<close>

subsection \<open>The file system\<close>

type_synonym path = "string list"

datatype fs_error = ENOENT | ENOTDIR | EISDIR | ENOTEMPTY | EINVAL

record fs =
  fs_files :: "(path \<times> bytes) list"
  fs_dirs :: "path list"
  fs_mtimes :: "(path \<times> time) list"

definition is_file :: "fs \<Rightarrow> path \<Rightarrow> bool" where
  "is_file f p \<longleftrightarrow> map_of (fs_files f) p \<noteq> None"

definition is_dir :: "fs \<Rightarrow> path \<Rightarrow> bool" where
  "is_dir f p \<longleftrightarrow> p \<in> set (fs_dirs f)"

definition parents :: "path \<Rightarrow> path list" where
  "parents p = map (\<lambda>n. take n p) [1..<length p]"

text \<open>The error of walking to the parent directory of a path.\<close>

definition walk_error :: "fs \<Rightarrow> path \<Rightarrow> fs_error option" where
  "walk_error f p =
     (case filter (\<lambda>q. \<not> is_dir f q) (parents p) of
        [] \<Rightarrow> None | q # _ \<Rightarrow> Some (if is_file f q then ENOTDIR else ENOENT))"

definition name_path :: "string \<Rightarrow> fs_error + path" where
  "name_path name = (if name = [] then Inl EINVAL else Inr (Split name CHR ''/''))"

definition fs_read :: "fs \<Rightarrow> path \<Rightarrow> fs_error + bytes" where
  "fs_read f p =
     (case walk_error f p of
        Some e \<Rightarrow> Inl e
      | None \<Rightarrow> (case map_of (fs_files f) p of
                  Some data \<Rightarrow> Inr data
                | None \<Rightarrow> Inl (if is_dir f p then EISDIR else ENOENT)))"

fun mkdir_loop :: "fs \<Rightarrow> path list \<Rightarrow> fs_error option \<times> fs" where
  "mkdir_loop f [] = (None, f)"
| "mkdir_loop f (q # qs) =
     (if is_dir f q then mkdir_loop f qs
      else if is_file f q then (Some ENOTDIR, f)
      else mkdir_loop (f\<lparr>fs_dirs := q # fs_dirs f\<rparr>) qs)"

text \<open>\<open>MkdirAll\<close> of the directory of a path.\<close>

definition fs_mkdir_parents :: "fs \<Rightarrow> path \<Rightarrow> fs_error option \<times> fs" where
  "fs_mkdir_parents f p = mkdir_loop f (parents p)"

text \<open>\<open>Create\<close>, \<open>Write\<close>, \<open>Sync\<close>: the file is replaced.\<close>

definition fs_write :: "fs \<Rightarrow> path \<Rightarrow> bytes \<Rightarrow> fs_error option \<times> fs" where
  "fs_write f p data =
     (case walk_error f p of
        Some e \<Rightarrow> (Some e, f)
      | None \<Rightarrow> if is_dir f p then (Some EISDIR, f)
                else (None, f\<lparr>fs_files := AList.update p data (fs_files f)\<rparr>))"

definition fs_remove :: "fs \<Rightarrow> path \<Rightarrow> fs_error option \<times> fs" where
  "fs_remove f p =
     (case walk_error f p of
        Some e \<Rightarrow> (Some e, f)
      | None \<Rightarrow>
          if is_file f p then (None, f\<lparr>fs_files := AList.delete p (fs_files f)\<rparr>)
          else if is_dir f p then
            (if (\<exists>q \<in> set (map fst (fs_files f) @ fs_dirs f). length q = Suc (length p) \<and> butlast q = p)
             then (Some ENOTEMPTY, f)
             else (None, f\<lparr>fs_dirs := removeAll p (fs_dirs f)\<rparr>))
          else (Some ENOENT, f))"

definition fs_chtimes :: "fs \<Rightarrow> path \<Rightarrow> time \<Rightarrow> fs" where
  "fs_chtimes f p t = f\<lparr>fs_mtimes := AList.update p t (fs_mtimes f)\<rparr>"

subsection \<open>Encryption\<close>

record aead =
  ae_NonceSize :: nat
  ae_Seal :: "bytes \<Rightarrow> bytes \<Rightarrow> bytes"
  ae_Open :: "bytes \<Rightarrow> bytes \<Rightarrow> bytes option"

datatype crypt_error = ErrCiphertextTooShort | ErrOpen | ErrRandom

text \<open>The nonce is the next result of the random reader.\<close>

definition Encrypt :: "aead \<Rightarrow> bytes option \<Rightarrow> bytes \<Rightarrow> crypt_error + bytes" where
  "Encrypt e nonce data =
     (case nonce of None \<Rightarrow> Inl ErrRandom | Some n \<Rightarrow> Inr (n @ ae_Seal e n data))"

definition Decrypt :: "aead \<Rightarrow> bytes \<Rightarrow> crypt_error + bytes" where
  "Decrypt e data =
     (if length data < ae_NonceSize e then Inl ErrCiphertextTooShort
      else case ae_Open e (take (ae_NonceSize e) data) (drop (ae_NonceSize e) data) of
             None \<Rightarrow> Inl ErrOpen | Some r \<Rightarrow> Inr r)"

subsection \<open>The backend\<close>

record fsConfig =
  fc_enc :: "aead option"
  fc_updateMTime :: bool
  fc_late :: "nat \<Rightarrow> bool"
  fc_now :: "nat \<Rightarrow> time"
  fc_random :: "nat \<Rightarrow> bytes option"

record fsCache =
  fc_fs :: fs
  fc_ops :: nat

definition fs_backend_error :: "fs_error \<Rightarrow> cache_error" where
  "fs_backend_error e =
     ErrBackend (case e of ENOENT \<Rightarrow> ''ENOENT'' | ENOTDIR \<Rightarrow> ''ENOTDIR'' | EISDIR \<Rightarrow> ''EISDIR''
                 | ENOTEMPTY \<Rightarrow> ''ENOTEMPTY'' | EINVAL \<Rightarrow> ''EINVAL'')"

text \<open>\<open>Get\<close> and \<open>Delete\<close> join \<open>driver.ErrNotExist\<close> to an error that is \<open>os.ErrNotExist\<close>.\<close>

definition fs_lookup_error :: "fs_error \<Rightarrow> cache_error" where
  "fs_lookup_error e = (if e = ENOENT then ErrNotExist else fs_backend_error e)"

definition fs_get :: "fsConfig \<Rightarrow> fsCache \<Rightarrow> string \<Rightarrow> (cache_error + bytes) \<times> fsCache" where
  "fs_get cfg c key =
     (case name_path (fragmentFileName key) of
        Inl e \<Rightarrow> (Inl (fs_lookup_error e), c)
      | Inr p \<Rightarrow>
          (case fs_read (fc_fs c) p of
             Inl e \<Rightarrow> (Inl (fs_lookup_error e), c)
           | Inr raw \<Rightarrow>
               (case (case fc_enc cfg of None \<Rightarrow> Inr raw | Some e \<Rightarrow> Decrypt e raw) of
                  Inl _ \<Rightarrow> (Inl (ErrBackend ''decrypt''), c)
                | Inr data \<Rightarrow>
                    (Inr data,
                     if fc_updateMTime cfg
                     then c\<lparr>fc_fs := fs_chtimes (fc_fs c) p (fc_now cfg (fc_ops c))\<rparr> else c))))"

definition fs_set :: "fsConfig \<Rightarrow> fsCache \<Rightarrow> string \<Rightarrow> bytes \<Rightarrow> cache_error option \<times> fsCache" where
  "fs_set cfg c key entry =
     (case (case fc_enc cfg of None \<Rightarrow> Inr entry | Some e \<Rightarrow> Encrypt e (fc_random cfg (fc_ops c)) entry) of
        Inl _ \<Rightarrow> (Some (ErrBackend ''encrypt''), c)
      | Inr data \<Rightarrow>
          (case name_path (fragmentFileName key) of
             Inl e \<Rightarrow> (Some (fs_backend_error e), c)
           | Inr p \<Rightarrow>
               (case fs_mkdir_parents (fc_fs c) p of
                  (Some e, f) \<Rightarrow> (Some (fs_backend_error e), c\<lparr>fc_fs := f\<rparr>)
                | (None, f) \<Rightarrow>
                    (case fs_write f p data of
                       (Some e, f) \<Rightarrow> (Some (fs_backend_error e), c\<lparr>fc_fs := f\<rparr>)
                     | (None, f) \<Rightarrow> (None, c\<lparr>fc_fs := f\<rparr>)))))"

definition fs_delete :: "fsConfig \<Rightarrow> fsCache \<Rightarrow> string \<Rightarrow> cache_error option \<times> fsCache" where
  "fs_delete cfg c key =
     (case name_path (fragmentFileName key) of
        Inl e \<Rightarrow> (Some (fs_lookup_error e), c)
      | Inr p \<Rightarrow>
          (case fs_remove (fc_fs c) p of
             (Some e, f) \<Rightarrow> (Some (fs_lookup_error e), c\<lparr>fc_fs := f\<rparr>)
           | (None, f) \<Rightarrow> (None, c\<lparr>fc_fs := f\<rparr>)))"

text \<open>The exported operations: the result of the goroutine, or the timeout's error.\<close>

definition fs_tick :: "fsCache \<Rightarrow> fsCache" where
  "fs_tick c = c\<lparr>fc_ops := Suc (fc_ops c)\<rparr>"

definition fs_Get :: "fsConfig \<Rightarrow> fsCache \<Rightarrow> string \<Rightarrow> (cache_error + bytes) \<times> fsCache" where
  "fs_Get cfg c key =
     (let (r, c') = fs_get cfg c key
      in (if fc_late cfg (fc_ops c) then Inl ErrDeadlineExceeded else r, fs_tick c'))"

definition fs_Set :: "fsConfig \<Rightarrow> fsCache \<Rightarrow> string \<Rightarrow> bytes \<Rightarrow> cache_error option \<times> fsCache" where
  "fs_Set cfg c key entry =
     (let (r, c') = fs_set cfg c key entry
      in (if fc_late cfg (fc_ops c) then Some ErrDeadlineExceeded else r, fs_tick c'))"

definition fs_Delete :: "fsConfig \<Rightarrow> fsCache \<Rightarrow> string \<Rightarrow> cache_error option \<times> fsCache" where
  "fs_Delete cfg c key =
     (let (r, c') = fs_delete cfg c key
      in (if fc_late cfg (fc_ops c) then Some ErrDeadlineExceeded else r, fs_tick c'))"

definition fscache :: "fsConfig \<Rightarrow> fsCache conn" where
  "fscache cfg = \<lparr>conn_Get = fs_Get cfg, conn_Set = fs_Set cfg, conn_Delete = fs_Delete cfg\<rparr>"

definition fscache_Open :: fsCache where
  "fscache_Open = \<lparr>fc_fs = \<lparr>fs_files = [], fs_dirs = [], fs_mtimes = []\<rparr>, fc_ops = 0\<rparr>"

subsection \<open>Listing the keys\<close>

text \<open>\<open>WalkDir\<close> visits the files in lexical order of their paths.\<close>

fun keys_loop :: "string \<Rightarrow> path list \<Rightarrow> string list option" where
  "keys_loop prefix [] = Some []"
| "keys_loop prefix (p # ps) =
     (case fragmentedFileNameToKey (Join p ''/'') of
        None \<Rightarrow> None
      | Some key \<Rightarrow>
          (case keys_loop prefix ps of
             None \<Rightarrow> None
           | Some keys \<Rightarrow> Some (if has_prefix prefix key then key # keys else keys)))"

definition fs_keys :: "fsCache \<Rightarrow> string \<Rightarrow> string list option" where
  "fs_keys c prefix = keys_loop prefix (sort (map fst (fs_files (fc_fs c))))"

definition fs_Keys :: "fsConfig \<Rightarrow> fsCache \<Rightarrow> string \<Rightarrow> (cache_error + string list) \<times> fsCache" where
  "fs_Keys cfg c prefix =
     (if fc_late cfg (fc_ops c) then Inl ErrDeadlineExceeded
      else case fs_keys c prefix of None \<Rightarrow> Inl (ErrBackend ''keys'') | Some ks \<Rightarrow> Inr ks,
      fs_tick c)"

subsection \<open>The contract\<close>

text \<open>
  The configuration keeps its promises: no operation times out, and with encryption the cipher
  opens what it sealed and the random reader delivers a whole nonce.
\<close>

definition aead_ok :: "aead \<Rightarrow> (nat \<Rightarrow> bytes option) \<Rightarrow> bool" where
  "aead_ok e random \<longleftrightarrow>
     (\<forall>i. \<exists>n. random i = Some n \<and> length n = ae_NonceSize e) \<and>
     (\<forall>n d. length n = ae_NonceSize e \<longrightarrow> ae_Open e n (ae_Seal e n d) = Some d)"

definition config_ok :: "fsConfig \<Rightarrow> bool" where
  "config_ok cfg \<longleftrightarrow>
     (\<forall>n. \<not> fc_late cfg n) \<and>
     (case fc_enc cfg of None \<Rightarrow> True | Some e \<Rightarrow> aead_ok e (fc_random cfg))"

definition decode_file :: "fsConfig \<Rightarrow> bytes \<Rightarrow> bytes option" where
  "decode_file cfg raw =
     (case fc_enc cfg of
        None \<Rightarrow> Some raw
      | Some e \<Rightarrow> (case Decrypt e raw of Inl _ \<Rightarrow> None | Inr d \<Rightarrow> Some d))"

subsection \<open>Lemmas on encryption\<close>

lemma Decrypt_Encrypt:
  assumes "aead_ok e random"
  obtains ct where "Encrypt e (random i) d = Inr ct" "Decrypt e ct = Inr d"
proof -
  from assms obtain n where n: "random i = Some n" "ae_NonceSize e = length n"
    "ae_Open e n (ae_Seal e n d) = Some d" unfolding aead_ok_def by metis
  show ?thesis
    by (rule that [of "n @ ae_Seal e n d"]) (simp_all add: Encrypt_def Decrypt_def n)
qed

lemma encode_file:
  assumes "config_ok cfg"
  obtains raw where
    "(case fc_enc cfg of None \<Rightarrow> Inr v | Some e \<Rightarrow> Encrypt e (fc_random cfg i) v) = Inr raw"
    "decode_file cfg raw = Some v"
proof (cases "fc_enc cfg")
  case None
  then show ?thesis by (intro that [of v]) (simp_all add: decode_file_def)
next
  case (Some e)
  with assms have "aead_ok e (fc_random cfg)" by (simp add: config_ok_def)
  then obtain raw where "Encrypt e (fc_random cfg i) v = Inr raw" "Decrypt e raw = Inr v"
    by (rule Decrypt_Encrypt)
  with Some show ?thesis by (intro that [of raw]) (simp_all add: decode_file_def)
qed

subsection \<open>Lemmas on the file system\<close>

lemma name_path_key_path: "key \<noteq> [] \<Longrightarrow> name_path (fragmentFileName key) = Inr (key_path key)"
  by (simp add: name_path_def fragmentFileName_empty_iff Split_fragmentFileName)

lemma parents_single [simp]: "parents [x] = []"
  by (simp add: parents_def)

lemma parents_proper: "q \<in> set (parents p) \<Longrightarrow> length q < length p"
  by (auto simp: parents_def)

lemma parents_append:
  assumes "p \<noteq> []" "r \<noteq> []"
  shows "\<exists>qs. parents (p @ r) = parents p @ p # qs"
proof -
  have "1 \<le> length p" using assms(1) by (cases p) simp_all
  then have u: "[1..<length p + length r] = [1..<length p] @ [length p..<length p + length r]"
    by (rule upt_add_eq_append)
  have "length p < length p + length r" using assms(2) by simp
  then have "[length p..<length p + length r] = length p # [Suc (length p)..<length p + length r]"
    by (rule upt_conv_Cons)
  with u have "parents (p @ r) = parents p @ p # map (\<lambda>n. take n (p @ r)) [Suc (length p)..<length p + length r]"
    by (simp add: parents_def del: upt_Suc)
  then show ?thesis by blast
qed

lemma mkdir_loop_success:
  "mkdir_loop f qs = (None, f') \<Longrightarrow>
   (\<forall>q \<in> set qs. is_dir f' q) \<and> (\<forall>q. is_dir f q \<longrightarrow> is_dir f' q) \<and> fs_files f' = fs_files f"
  by (induction f qs rule: mkdir_loop.induct) (auto simp: is_dir_def split: if_splits)

lemma mkdir_loop_keeps: "is_dir f q \<Longrightarrow> is_dir (snd (mkdir_loop f qs)) q"
  by (induction f qs rule: mkdir_loop.induct) (auto simp: is_dir_def)

lemma mkdir_loop_blocked:
  "q \<in> set qs \<Longrightarrow> is_file f q \<Longrightarrow> \<not> is_dir f q \<Longrightarrow> fst (mkdir_loop f qs) \<noteq> None"
proof (induction f qs rule: mkdir_loop.induct)
  case (2 f a qs)
  then show ?case by (cases "a = q") (auto simp: is_dir_def is_file_def)
qed simp

text \<open>A write that succeeds leaves a file below directories; it does not replace a directory.\<close>

lemma fs_set_success:
  assumes "fst (fs_set cfg c k v) = None" "name_path (fragmentFileName k) = Inr p"
  shows "(\<forall>q \<in> set (parents p). is_dir (fc_fs (snd (fs_set cfg c k v))) q) \<and>
    is_file (fc_fs (snd (fs_set cfg c k v))) p \<and> \<not> is_dir (fc_fs (snd (fs_set cfg c k v))) p"
proof -
  obtain data f g where d: "fs_mkdir_parents (fc_fs c) p = (None, f)"
    and w: "fs_write f p data = (None, g)" and g: "fc_fs (snd (fs_set cfg c k v)) = g"
    using assms by (auto simp: fs_set_def split: sum.splits prod.splits option.splits)
  have "\<forall>q \<in> set (parents p). is_dir f q" using mkdir_loop_success d by (simp add: fs_mkdir_parents_def)
  with w show ?thesis unfolding g
    by (auto simp: fs_write_def is_dir_def is_file_def split: option.splits if_splits)
qed

lemma fs_set_blocked:
  assumes "name_path (fragmentFileName k) = Inr p"
    and "(\<exists>q \<in> set (parents p). is_file (fc_fs c) q \<and> \<not> is_dir (fc_fs c) q) \<or> is_dir (fc_fs c) p"
  shows "fst (fs_set cfg c k v) \<noteq> None"
proof
  assume ok: "fst (fs_set cfg c k v) = None"
  then obtain data f g where d: "fs_mkdir_parents (fc_fs c) p = (None, f)" and w: "fs_write f p data = (None, g)"
    using assms(1) by (auto simp: fs_set_def split: sum.splits prod.splits option.splits)
  have "is_dir f p" if "is_dir (fc_fs c) p"
    using mkdir_loop_success [of "fc_fs c" "parents p" f] d that by (simp add: fs_mkdir_parents_def)
  moreover have "\<not> is_dir f p" using w by (auto simp: fs_write_def split: option.splits if_splits)
  moreover have "is_dir (fc_fs c) q" if "q \<in> set (parents p)" "is_file (fc_fs c) q" for q
    using mkdir_loop_blocked [OF that] d by (auto simp: fs_mkdir_parents_def)
  ultimately show False using assms(2) by blast
qed

lemma fs_Set_success: "fst (fs_Set cfg c k v) = None \<Longrightarrow> fst (fs_set cfg c k v) = None"
  by (auto simp: fs_Set_def case_prod_beta Let_def split: if_splits)

lemma fs_Set_fs: "fc_fs (snd (fs_Set cfg c k v)) = fc_fs (snd (fs_set cfg c k v))"
  by (simp add: fs_Set_def fs_tick_def case_prod_beta)

lemma fs_Set_blocked: "fst (fs_set cfg c k v) \<noteq> None \<Longrightarrow> fst (fs_Set cfg c k v) \<noteq> None"
  by (simp add: fs_Set_def case_prod_beta)

text \<open>A configuration with encryption, for the witnesses: the nonce is one byte.\<close>

definition ex_aead :: aead where
  "ex_aead = \<lparr>ae_NonceSize = 1, ae_Seal = (\<lambda>n d. rev d), ae_Open = (\<lambda>n d. Some (rev d))\<rparr>"

definition ex_config :: fsConfig where
  "ex_config = \<lparr>fc_enc = Some ex_aead, fc_updateMTime = True, fc_late = (\<lambda>_. False), fc_now = (\<lambda>_. 0),
     fc_random = (\<lambda>_. Some ''n'')\<rparr>"

lemma ex_config_ok: "config_ok ex_config"
  by (simp add: config_ok_def aead_ok_def ex_config_def ex_aead_def)

end
