(* ===== verification/FsContract.thy ===== *)
theory FsContract
  imports FsCache
begin

text \<open>
  What \<open>store/fscache\<close> promises: over a set of keys none of whose files is in the way of the
  directories of another, it is a map. Which keys are in each other's way is told by their lengths.
\<close>

subsection \<open>Keys in each other's way\<close>

text \<open>
  The file of \<open>k\<close> has the name of a directory on the path of \<open>k'\<close>: \<open>k\<close> is a proper prefix of the
  long key \<open>k'\<close> and fills its fragments, alone or as a file name of its own.
\<close>

definition clash :: "string \<Rightarrow> string \<Rightarrow> bool" where
  "clash k k' \<longleftrightarrow>
     length k < length k' \<and> take (length k) k' = k \<and> length k mod 36 = 0 \<and>
     (length k = 36 \<or> 216 \<le> length k) \<and> 192 \<le> length k'"

definition no_clash :: "string set \<Rightarrow> bool" where
  "no_clash K \<longleftrightarrow> [] \<notin> K \<and> (\<forall>k \<in> K. \<forall>k' \<in> K. \<not> clash k k')"

lemma key_path_fragments: "192 \<le> length k' \<Longrightarrow> key_path k' = fragments (b64_encode k')"
  by (auto simp: key_path_def Let_def length_b64_encode)

lemma long_key_path: "key_path k' \<noteq> [b64_encode k'] \<longleftrightarrow> 192 \<le> length k'"
proof -
  have l: "length (b64_encode k') \<le> 255 \<longleftrightarrow> length k' \<le> 191" by (auto simp: length_b64_encode)
  have "fragments (b64_encode k') \<noteq> [b64_encode k']" if "255 < length (b64_encode k')"
    using that fragments_bounds [of "b64_encode k'" "b64_encode k'"] by auto
  then show ?thesis using l by (auto simp: key_path_def Let_def)
qed

lemma fragments_short: "s \<noteq> [] \<Longrightarrow> length s \<le> 48 \<Longrightarrow> fragments s = [s]"
  by (simp add: fragments.simps [of s] fragments.simps [of "[]"] fragmentSize_def)

text \<open>The path of a key that fills its fragments is their list.\<close>

lemma framed_key_path:
  assumes "length k = 36 * n" "n = 1 \<or> 6 \<le> n"
  shows "key_path k = fragments (b64_encode k)" "length (b64_encode k) = 48 * n"
proof -
  show l: "length (b64_encode k) = 48 * n" by (simp add: length_b64_encode assms(1))
  have "b64_encode k \<noteq> []" using assms by auto
  then show "key_path k = fragments (b64_encode k)"
    using assms(2) l by (auto simp: key_path_def Let_def fragments_short)
qed

lemma sextet_count:
  "(4 * l + 2) div 3 = 48 * n \<Longrightarrow> l = 36 * (n::nat)"
  "48 * n < (4 * l + 2) div 3 \<Longrightarrow> 36 * (n::nat) < l"
proof -
  have d: "4 * l + 2 = 3 * ((4 * l + 2) div 3) + (4 * l + 2) mod 3" "(4 * l + 2) mod 3 < 3" by simp_all
  show "l = 36 * n" if "(4 * l + 2) div 3 = 48 * n" using d that by linarith
  show "36 * n < l" if "48 * n < (4 * l + 2) div 3" using d that by linarith
qed
lemma clash_framed:
  assumes "clash k k'"
  obtains n where "length k = 36 * n" "n = 1 \<or> 6 \<le> n"
proof -
  from assms obtain n where n: "length k = 36 * n" by (auto simp: clash_def)
  with assms have "n = 1 \<or> 6 \<le> n" by (auto simp: clash_def)
  with n show ?thesis by (rule that)
qed

lemma clash_path:
  assumes "clash k k'"
  obtains r where "r \<noteq> []" "key_path k' = key_path k @ r"
proof -
  obtain n where n: "length k = 36 * n" "n = 1 \<or> 6 \<le> n" by (rule clash_framed [OF assms])
  note p = framed_key_path [OF n]
  let ?x = "drop (length k) k'"
  have k': "k' = k @ ?x" using assms by (metis append_take_drop_id clash_def)
  have "length k = 3 * (12 * n)" using n(1) by simp
  then have "length k mod 3 = 0" by (metis mod_mult_self1_is_0)
  then have b: "b64_encode k' = b64_encode k @ b64_encode ?x" using k' b64_encode_append by metis
  have "fragments (b64_encode k') = key_path k @ fragments (b64_encode ?x)"
    unfolding b p(1) by (rule fragments_append) (simp add: p(2))
  moreover have "key_path k' = fragments (b64_encode k')"
    using assms by (simp add: clash_def key_path_fragments)
  moreover have "?x \<noteq> []" using assms by (simp add: clash_def)
  ultimately show ?thesis by (intro that [of "fragments (b64_encode ?x)"]) (auto intro!: fragments_nonempty)
qed

lemma parent_clash:
  assumes "key_path k \<in> set (parents (key_path k'))"
  shows "clash k k'"
proof -
  from assms obtain n where n: "1 \<le> n" "n < length (key_path k')" "key_path k = take n (key_path k')"
    by (auto simp: parents_def)
  then have "key_path k' \<noteq> [b64_encode k']" by auto
  then have long: "192 \<le> length k'" "key_path k' = fragments (b64_encode k')"
    using long_key_path key_path_fragments by blast+
  have l: "48 * n < length (b64_encode k')" using n(2) length_fragments by (simp add: long(2))
  have e: "b64_encode k = take (48 * n) (b64_encode k')"
    unfolding concat_key_path [of k, symmetric] n(3) long(2) by (rule take_fragments) (use n(2) long(2) in simp)
  then have "length (b64_encode k) = 48 * n" using l by simp
  then have k: "length k = 36 * n" unfolding length_b64_encode by (rule sextet_count(1))
  have lk: "36 * n < length k'" using l unfolding length_b64_encode by (rule sextet_count(2))
  have "36 * n = 3 * (12 * n)" by simp
  then have "length (take (36 * n) k') mod 3 = 0" using lk by (metis length_take min.absorb4 mod_mult_self1_is_0)
  then have "b64_encode k' = b64_encode (take (36 * n) k') @ b64_encode (drop (36 * n) k')"
    by (metis append_take_drop_id b64_encode_append)
  moreover have "length (b64_encode (take (36 * n) k')) = 48 * n" using lk by (simp add: length_b64_encode)
  ultimately have "b64_encode k = b64_encode (take (36 * n) k')" using e by simp
  then have "take (36 * n) k' = k" by (metis b64_encode_inject)
  moreover have "n = 1 \<or> 6 \<le> n"
  proof (cases "length (b64_encode k) \<le> 255")
    case True
    then have "length (key_path k) = 1" by (simp add: key_path_def Let_def)
    then show ?thesis using n by simp
  next
    case False
    then show ?thesis by (simp add: \<open>length (b64_encode k) = 48 * n\<close>)
  qed
  ultimately show ?thesis using k lk long(1) by (auto simp: clash_def)
qed

lemma clash_iff: "clash k k' \<longleftrightarrow> key_path k \<in> set (parents (key_path k'))"
proof
  assume "clash k k'"
  then obtain r where "r \<noteq> []" "key_path k' = key_path k @ r" by (rule clash_path)
  with parents_append [of "key_path k" r] show "key_path k \<in> set (parents (key_path k'))" by auto
qed (rule parent_clash)


lemma no_clash_path: "no_clash K \<Longrightarrow> k \<in> K \<Longrightarrow> k' \<in> K \<Longrightarrow> key_path k \<notin> set (parents (key_path k'))"
  by (auto simp: no_clash_def clash_iff [symmetric])

text \<open>Keys of one file name each are never in each other's way.\<close>

definition flat_key :: "string \<Rightarrow> bool" where
  "flat_key key \<longleftrightarrow> key \<noteq> [] \<and> length key \<le> 191"

lemma no_clash_flat: "K \<subseteq> {k. flat_key k} \<Longrightarrow> no_clash K"
  by (force simp: no_clash_def clash_def flat_key_def)

subsection \<open>Contents and invariant\<close>

definition fs_contents :: "fsConfig \<Rightarrow> string set \<Rightarrow> fsCache \<Rightarrow> string \<rightharpoonup> bytes" where
  "fs_contents cfg K c key =
     (if key \<in> K then Option.bind (map_of (fs_files (fc_fs c)) (key_path key)) (decode_file cfg) else None)"

definition fs_wf :: "fsConfig \<Rightarrow> string set \<Rightarrow> fs \<Rightarrow> bool" where
  "fs_wf cfg K f \<longleftrightarrow>
     distinct (map fst (fs_files f)) \<and>
     (\<forall>(p, raw) \<in> set (fs_files f).
        decode_file cfg raw \<noteq> None \<and> p \<in> key_path ` K \<and> set (parents p) \<subseteq> set (fs_dirs f)) \<and>
     set (fs_dirs f) \<subseteq> (\<Union>k \<in> K. set (parents (key_path k)))"

definition fs_invar :: "fsConfig \<Rightarrow> string set \<Rightarrow> fsCache \<Rightarrow> bool" where
  "fs_invar cfg K c \<longleftrightarrow> config_ok cfg \<and> no_clash K \<and> fs_wf cfg K (fc_fs c)"

lemma fs_invar_name: "fs_invar cfg K c \<Longrightarrow> k \<in> K \<Longrightarrow> name_path (fragmentFileName k) = Inr (key_path k)"
  by (rule name_path_key_path) (auto simp: fs_invar_def no_clash_def)

lemma fs_wf_fileD:
  assumes "fs_wf cfg K f" "map_of (fs_files f) p = Some raw"
  shows "decode_file cfg raw \<noteq> None" "p \<in> key_path ` K" "set (parents p) \<subseteq> set (fs_dirs f)"
  using assms(1) map_of_SomeD [OF assms(2)] by (auto simp: fs_wf_def)

lemma no_file_parent:
  assumes "no_clash K" "fs_wf cfg K f" "k \<in> K" "q \<in> set (parents (key_path k))"
  shows "\<not> is_file f q"
proof
  assume "is_file f q"
  then obtain raw where "map_of (fs_files f) q = Some raw" by (auto simp: is_file_def)
  then have "q \<in> key_path ` K" by (rule fs_wf_fileD(2) [OF assms(2)])
  then show False using no_clash_path [OF assms(1) _ assms(3)] assms(4) by auto
qed

lemma no_dir_key:
  assumes "no_clash K" "fs_wf cfg K f" "k \<in> K"
  shows "\<not> is_dir f (key_path k)"
  using assms(2,3) no_clash_path [OF assms(1,3)] by (fastforce simp: fs_wf_def is_dir_def)

text \<open>The path of a file is open; the path of an absent one lacks a directory or its last name.\<close>

lemma walk_file:
  assumes "fs_wf cfg K f" "map_of (fs_files f) p = Some raw"
  shows "walk_error f p = None"
proof -
  have "filter (\<lambda>q. \<not> is_dir f q) (parents p) = []"
    using fs_wf_fileD(3) [OF assms] by (auto simp: filter_empty_conv is_dir_def)
  then show ?thesis by (simp add: walk_error_def)
qed

lemma walk_key:
  assumes "no_clash K" "fs_wf cfg K f" "k \<in> K"
  shows "walk_error f (key_path k) \<in> {None, Some ENOENT}"
proof (cases "filter (\<lambda>q. \<not> is_dir f q) (parents (key_path k))")
  case (Cons q qs)
  then have "q \<in> set (filter (\<lambda>q. \<not> is_dir f q) (parents (key_path k)))" by (simp only: list.set_intros)
  then have "\<not> is_file f q" using no_file_parent [OF assms] by simp
  then show ?thesis using Cons by (simp add: walk_error_def)
qed (simp add: walk_error_def)

lemma fs_read_key:
  assumes "no_clash K" "fs_wf cfg K f" "k \<in> K"
  shows "fs_read f (key_path k) = (case map_of (fs_files f) (key_path k) of None \<Rightarrow> Inl ENOENT | Some raw \<Rightarrow> Inr raw)"
proof (cases "map_of (fs_files f) (key_path k)")
  case None
  then show ?thesis using walk_key [OF assms] no_dir_key [OF assms] by (auto simp: fs_read_def)
next
  case (Some raw)
  then show ?thesis using walk_file [OF assms(2) Some] by (simp add: fs_read_def)
qed

lemma fs_remove_key:
  assumes "no_clash K" "fs_wf cfg K f" "k \<in> K"
  shows "fs_remove f (key_path k) =
    (case map_of (fs_files f) (key_path k) of
       None \<Rightarrow> (Some ENOENT, f) | Some raw \<Rightarrow> (None, f\<lparr>fs_files := AList.delete (key_path k) (fs_files f)\<rparr>))"
proof (cases "map_of (fs_files f) (key_path k)")
  case None
  then show ?thesis using walk_key [OF assms] no_dir_key [OF assms] by (auto simp: fs_remove_def is_file_def)
next
  case (Some raw)
  then show ?thesis using walk_file [OF assms(2) Some] by (simp add: fs_remove_def is_file_def)
qed

lemma mkdir_loop_free:
  assumes "\<forall>q \<in> set qs. \<not> is_file f q"
  obtains ds where "mkdir_loop f qs = (None, f\<lparr>fs_dirs := ds\<rparr>)" "set ds = set (fs_dirs f) \<union> set qs"
proof -
  have "\<exists>ds. mkdir_loop f qs = (None, f\<lparr>fs_dirs := ds\<rparr>) \<and> set ds = set (fs_dirs f) \<union> set qs"
    using assms
  proof (induction f qs rule: mkdir_loop.induct)
    case (1 f)
    show ?case by (intro exI [of _ "fs_dirs f"]) simp
  next
    case (2 f q qs)
    show ?case
    proof (cases "is_dir f q")
      case True
      with 2 obtain ds where "mkdir_loop f qs = (None, f\<lparr>fs_dirs := ds\<rparr>)" "set ds = set (fs_dirs f) \<union> set qs" by auto
      with True show ?thesis by (intro exI [of _ ds]) (auto simp: is_dir_def)
    next
      case False
      with 2 obtain ds where "mkdir_loop (f\<lparr>fs_dirs := q # fs_dirs f\<rparr>) qs = (None, f\<lparr>fs_dirs := q # fs_dirs f, fs_dirs := ds\<rparr>)"
        "set ds = set (q # fs_dirs f) \<union> set qs" by (auto simp: is_file_def)
      with False 2(3) show ?thesis by (intro exI [of _ ds]) auto
    qed
  qed
  with that show ?thesis by blast
qed

lemma fs_write_key:
  assumes "no_clash K" "fs_wf cfg K f" "k \<in> K"
  obtains ds where "fs_mkdir_parents f (key_path k) = (None, f\<lparr>fs_dirs := ds\<rparr>)"
    "fs_write (f\<lparr>fs_dirs := ds\<rparr>) (key_path k) raw
      = (None, f\<lparr>fs_dirs := ds, fs_files := AList.update (key_path k) raw (fs_files f)\<rparr>)"
    "set ds = set (fs_dirs f) \<union> set (parents (key_path k))"
proof -
  have "\<forall>q \<in> set (parents (key_path k)). \<not> is_file f q" using no_file_parent [OF assms] by blast
  then obtain ds where ds: "mkdir_loop f (parents (key_path k)) = (None, f\<lparr>fs_dirs := ds\<rparr>)"
    "set ds = set (fs_dirs f) \<union> set (parents (key_path k))" by (rule mkdir_loop_free)
  have "filter (\<lambda>q. \<not> is_dir (f\<lparr>fs_dirs := ds\<rparr>) q) (parents (key_path k)) = []"
    using ds(2) by (auto simp: is_dir_def filter_empty_conv)
  then have "walk_error (f\<lparr>fs_dirs := ds\<rparr>) (key_path k) = None" by (simp add: walk_error_def)
  moreover have "\<not> is_dir (f\<lparr>fs_dirs := ds\<rparr>) (key_path k)"
    using no_dir_key [OF assms] no_clash_path [OF assms(1,3,3)] ds(2) by (simp add: is_dir_def)
  ultimately show ?thesis
    using ds by (intro that [of ds]) (simp_all add: fs_mkdir_parents_def fs_write_def)
qed


subsection \<open>The operations\<close>

lemma fs_get_result:
  assumes "fs_invar cfg K c" "k \<in> K"
  shows "fst (fs_get cfg c k) = (case fs_contents cfg K c k of None \<Rightarrow> Inl ErrNotExist | Some v \<Rightarrow> Inr v)"
    and "fs_files (fc_fs (snd (fs_get cfg c k))) = fs_files (fc_fs c)"
    and "fs_dirs (fc_fs (snd (fs_get cfg c k))) = fs_dirs (fc_fs c)"
proof -
  have i: "no_clash K" "fs_wf cfg K (fc_fs c)" using assms(1) by (simp_all add: fs_invar_def)
  note r = fs_get_def fs_invar_name [OF assms] fs_read_key [OF i assms(2)] fs_contents_def fs_lookup_error_def
  have "fst (fs_get cfg c k) = (case fs_contents cfg K c k of None \<Rightarrow> Inl ErrNotExist | Some v \<Rightarrow> Inr v) \<and>
    fs_files (fc_fs (snd (fs_get cfg c k))) = fs_files (fc_fs c) \<and>
    fs_dirs (fc_fs (snd (fs_get cfg c k))) = fs_dirs (fc_fs c)"
  proof (cases "map_of (fs_files (fc_fs c)) (key_path k)")
    case None
    then show ?thesis using assms(2) by (simp add: r)
  next
    case (Some raw)
    then obtain v where "decode_file cfg raw = Some v" using fs_wf_fileD(1) [OF i(2)] by blast
    then have "(case fc_enc cfg of None \<Rightarrow> Inr raw | Some e \<Rightarrow> Decrypt e raw) = Inr v"
      by (auto simp: decode_file_def split: option.splits sum.splits)
    with Some \<open>decode_file cfg raw = Some v\<close> assms(2) show ?thesis by (simp add: r fs_chtimes_def)
  qed
  then show "fst (fs_get cfg c k) = (case fs_contents cfg K c k of None \<Rightarrow> Inl ErrNotExist | Some v \<Rightarrow> Inr v)"
    "fs_files (fc_fs (snd (fs_get cfg c k))) = fs_files (fc_fs c)"
    "fs_dirs (fc_fs (snd (fs_get cfg c k))) = fs_dirs (fc_fs c)" by simp_all
qed

lemma fs_contents_files: "fs_files (fc_fs d) = fs_files (fc_fs c) \<Longrightarrow> fs_contents cfg K d = fs_contents cfg K c"
  by (simp add: fun_eq_iff fs_contents_def)

lemma fs_invar_files:
  "fs_files (fc_fs d) = fs_files (fc_fs c) \<Longrightarrow> fs_dirs (fc_fs d) = fs_dirs (fc_fs c) \<Longrightarrow>
   fs_invar cfg K d = fs_invar cfg K c"
  by (simp add: fs_invar_def fs_wf_def)

lemma fs_set_result:
  assumes "fs_invar cfg K c" "k \<in> K"
  shows "fst (fs_set cfg c k v) = None" (is ?A)
    and "fs_contents cfg K (snd (fs_set cfg c k v)) = (fs_contents cfg K c)(k \<mapsto> v)" (is ?B)
    and "fs_invar cfg K (snd (fs_set cfg c k v))" (is ?C)
proof -
  have i: "config_ok cfg" "no_clash K" "fs_wf cfg K (fc_fs c)" using assms(1) by (simp_all add: fs_invar_def)
  obtain raw where raw:
    "(case fc_enc cfg of None \<Rightarrow> Inr v | Some e \<Rightarrow> Encrypt e (fc_random cfg (fc_ops c)) v) = Inr raw"
    "decode_file cfg raw = Some v"
    using encode_file [OF i(1)] by blast
  let ?files = "AList.update (key_path k) raw (fs_files (fc_fs c))"
  obtain ds where ds: "fs_mkdir_parents (fc_fs c) (key_path k) = (None, fc_fs c\<lparr>fs_dirs := ds\<rparr>)"
    "fs_write (fc_fs c\<lparr>fs_dirs := ds\<rparr>) (key_path k) raw = (None, fc_fs c\<lparr>fs_dirs := ds, fs_files := ?files\<rparr>)"
    "set ds = set (fs_dirs (fc_fs c)) \<union> set (parents (key_path k))"
    by (rule fs_write_key [OF i(2,3) assms(2)])
  have s: "fs_set cfg c k v = (None, c\<lparr>fc_fs := fc_fs c\<lparr>fs_dirs := ds, fs_files := ?files\<rparr>\<rparr>)"
    by (simp add: fs_set_def fs_invar_name [OF assms] raw ds)
  show ?A by (simp add: s)
  show ?B using assms(2) raw(2) by (auto simp: s fun_eq_iff fs_contents_def key_path_inject)
  have "decode_file cfg r \<noteq> None \<and> p \<in> key_path ` K \<and> set (parents p) \<subseteq> set ds"
    if "(p, r) \<in> set ?files" for p r
    using in_update_cases [OF that] i(3) assms(2) raw(2) ds(3) by (auto simp: fs_wf_def)
  moreover have "distinct (map fst ?files)" using i(3) by (intro distinct_update) (simp add: fs_wf_def)
  moreover have "set ds \<subseteq> (\<Union>k \<in> K. set (parents (key_path k)))" using i(3) ds(3) assms(2) by (auto simp: fs_wf_def)
  ultimately show ?C using i by (auto simp: s fs_invar_def fs_wf_def)
qed

lemma fs_delete_result:
  assumes "fs_invar cfg K c" "k \<in> K"
  shows "fst (fs_delete cfg c k) = (if fs_contents cfg K c k = None then Some ErrNotExist else None)" (is ?A)
    and "fs_contents cfg K (snd (fs_delete cfg c k)) = (fs_contents cfg K c)(k := None)" (is ?B)
    and "fs_invar cfg K (snd (fs_delete cfg c k))" (is ?C)
proof -
  have i: "config_ok cfg" "no_clash K" "fs_wf cfg K (fc_fs c)" using assms(1) by (simp_all add: fs_invar_def)
  let ?files = "AList.delete (key_path k) (fs_files (fc_fs c))"
  have d: "fs_delete cfg c k =
      (if fs_contents cfg K c k = None then (Some ErrNotExist, c) else (None, c\<lparr>fc_fs := fc_fs c\<lparr>fs_files := ?files\<rparr>\<rparr>))"
  proof (cases "map_of (fs_files (fc_fs c)) (key_path k)")
    case None
    then show ?thesis
      by (simp add: fs_delete_def fs_invar_name [OF assms] fs_remove_key [OF i(2,3) assms(2)] fs_contents_def
          fs_lookup_error_def)
  next
    case (Some raw)
    then show ?thesis using fs_wf_fileD(1) [OF i(3) Some] assms(2)
      by (simp add: fs_delete_def fs_invar_name [OF assms] fs_remove_key [OF i(2,3) assms(2)] fs_contents_def)
  qed
  show ?A by (simp add: d)
  have "fs_contents cfg K (c\<lparr>fc_fs := fc_fs c\<lparr>fs_files := ?files\<rparr>\<rparr>) = (fs_contents cfg K c)(k := None)"
    by (auto simp: fun_eq_iff fs_contents_def key_path_inject)
  then show ?B by (auto simp: d fun_eq_iff)
  have "distinct (map fst ?files)" using i(3) by (intro distinct_delete) (simp add: fs_wf_def)
  moreover have "set ?files \<subseteq> set (fs_files (fc_fs c))" by (auto simp: AList.delete_eq)
  ultimately have "fs_wf cfg K (fc_fs c\<lparr>fs_files := ?files\<rparr>)" using i(3) unfolding fs_wf_def by simp blast
  then show ?C using i by (simp add: d fs_invar_def)
qed

lemma fs_tick_simps [simp]:
  "fs_contents cfg K (fs_tick c) = fs_contents cfg K c" "fs_invar cfg K (fs_tick c) = fs_invar cfg K c"
  by (simp_all add: fun_eq_iff fs_contents_def fs_invar_def fs_tick_def)

lemma fs_invar_in_time: "fs_invar cfg K c \<Longrightarrow> \<not> fc_late cfg n"
  by (simp add: fs_invar_def config_ok_def)

lemmas fs_ops = fs_Get_def fs_Set_def fs_Delete_def fscache_def case_prod_beta

text \<open>A file cache of a working configuration keeps the contract of \<open>driver.Conn\<close>.\<close>

interpretation fsc: driver_conn "fscache cfg" "fs_contents cfg K" "fs_invar cfg K" "\<lambda>k. k \<in> K" for cfg K
proof unfold_locales
  fix s :: fsCache and k v
  assume i: "fs_invar cfg K s" and k: "k \<in> K"
  note late = fs_invar_in_time [OF i] and get = fs_get_result [OF i k]
  show "fst (conn_Get (fscache cfg) s k) =
      (case fs_contents cfg K s k of None \<Rightarrow> Inl ErrNotExist | Some v \<Rightarrow> Inr v)"
    by (simp add: fs_ops late get(1))
  show "fs_contents cfg K (snd (conn_Get (fscache cfg) s k)) = fs_contents cfg K s"
    "fs_invar cfg K (snd (conn_Get (fscache cfg) s k))"
    using i fs_contents_files [OF get(2)] fs_invar_files [OF get(2,3)] by (simp_all add: fs_ops)
  show "fst (conn_Set (fscache cfg) s k v) = None"
    "fs_contents cfg K (snd (conn_Set (fscache cfg) s k v)) = (fs_contents cfg K s)(k \<mapsto> v)"
    "fs_invar cfg K (snd (conn_Set (fscache cfg) s k v))"
    using fs_set_result [OF i k] by (simp_all add: fs_ops late)
  show "fst (conn_Delete (fscache cfg) s k) = (if fs_contents cfg K s k = None then Some ErrNotExist else None)"
    "fs_contents cfg K (snd (conn_Delete (fscache cfg) s k)) = (fs_contents cfg K s)(k := None)"
    "fs_invar cfg K (snd (conn_Delete (fscache cfg) s k))"
    using fs_delete_result [OF i k] by (simp_all add: fs_ops late)
qed

lemma fscache_Open_contents: "fs_contents cfg K fscache_Open = Map.empty"
  by (simp add: fscache_Open_def fun_eq_iff fs_contents_def)

lemma fscache_Open_invar: "config_ok cfg \<Longrightarrow> no_clash K \<Longrightarrow> fs_invar cfg K fscache_Open"
  by (simp add: fs_invar_def fs_wf_def fscache_Open_def)


subsection \<open>Listing\<close>

lemma keys_loop_paths: "keys_loop prefix (map key_path ks) = Some (filter (has_prefix prefix) ks)"
  by (induction ks) (simp_all add: key_path_decodes)

lemma fs_keys_result:
  assumes "fs_wf cfg K (fc_fs c)"
  obtains ks where "fs_keys c prefix = Some ks" "distinct ks"
    "set ks = {k. fs_contents cfg K c k \<noteq> None \<and> has_prefix prefix k}"
proof -
  let ?paths = "map fst (fs_files (fc_fs c))"
  have "\<forall>p \<in> set (sort ?paths). p \<in> key_path ` K" using assms by (auto simp: fs_wf_def)
  then have "\<forall>p \<in> set (sort ?paths). \<exists>k. p = key_path k" by blast
  then obtain ks where ks: "sort ?paths = map key_path ks" using ex_map_conv [of "sort ?paths" key_path] by blast
  have "distinct (sort ?paths)" using assms by (simp add: fs_wf_def)
  then have "distinct ks" by (simp add: ks distinct_map)
  moreover have "fs_contents cfg K c k \<noteq> None \<longleftrightarrow> k \<in> set ks" for k
  proof -
    have "k \<in> set ks \<longleftrightarrow> key_path k \<in> set (sort ?paths)" by (auto simp: ks key_path_inject)
    also have "\<dots> \<longleftrightarrow> map_of (fs_files (fc_fs c)) (key_path k) \<noteq> None" by (simp add: map_of_eq_None_iff)
    also have "\<dots> \<longleftrightarrow> fs_contents cfg K c k \<noteq> None"
    proof (cases "map_of (fs_files (fc_fs c)) (key_path k)")
      case (Some raw)
      then have "k \<in> K" using fs_wf_fileD(2) [OF assms Some] by (auto simp: key_path_inject)
      then show ?thesis using Some fs_wf_fileD(1) [OF assms Some] by (simp add: fs_contents_def)
    qed (simp add: fs_contents_def)
    finally show ?thesis by blast
  qed
  ultimately show ?thesis
    by (intro that [of "filter (has_prefix prefix) ks"]) (auto simp: fs_keys_def ks keys_loop_paths)
qed

interpretation fsl: key_lister "fscache cfg" "fs_contents cfg K" "fs_invar cfg K" "\<lambda>k. k \<in> K" "fs_Keys cfg" for cfg K
proof unfold_locales
  fix s :: fsCache and prefix
  assume i: "fs_invar cfg K s"
  then have "fs_wf cfg K (fc_fs s)" by (simp add: fs_invar_def)
  then obtain ks where "fs_keys s prefix = Some ks" "distinct ks"
    "set ks = {k. fs_contents cfg K s k \<noteq> None \<and> has_prefix prefix k}" by (rule fs_keys_result)
  then show "\<exists>ks. fst (fs_Keys cfg s prefix) = Inr ks \<and> distinct ks \<and>
      set ks = {k. fs_contents cfg K s k \<noteq> None \<and> has_prefix prefix k}"
    by (simp add: fs_Keys_def fs_invar_in_time [OF i])
  show "fs_contents cfg K (snd (fs_Keys cfg s prefix)) = fs_contents cfg K s"
    "fs_invar cfg K (snd (fs_Keys cfg s prefix))" using i by (simp_all add: fs_Keys_def)
qed

lemma no_clash_acceptance: "no_clash (insert ''doesnotexist'' (set acceptance_keys))"
  by (simp add: no_clash_def clash_def acceptance_keys_def)

subsection \<open>Properties\<close>

text \<open>
  C24: The file-system backend refines a map on every set of non-empty keys none of which, 36 bytes
  or a multiple of 36 from 216 bytes on in length, is a proper prefix of another of at least 192
  bytes (these are the pairs that exclude each other), with encryption or without: Get returns the
  value or ErrNotExist, Set updates exactly its key, Delete removes exactly its key and reports
  ErrNotExist for an absent one, and each keeps the representation invariant, in which every file
  lies below existing directories and no directory has the name of a key.
\<close>

theorem file_cache_is_a_map:
  assumes "fs_invar cfg K c" and "k \<in> K"
  shows "fst (fs_Get cfg c k) = (case fs_contents cfg K c k of None \<Rightarrow> Inl ErrNotExist | Some v \<Rightarrow> Inr v) \<and>
    fs_contents cfg K (snd (fs_Get cfg c k)) = fs_contents cfg K c \<and>
    fst (fs_Set cfg c k v) = None \<and> fs_contents cfg K (snd (fs_Set cfg c k v)) = (fs_contents cfg K c)(k \<mapsto> v) \<and>
    fst (fs_Delete cfg c k) = (if fs_contents cfg K c k = None then Some ErrNotExist else None) \<and>
    fs_contents cfg K (snd (fs_Delete cfg c k)) = (fs_contents cfg K c)(k := None) \<and>
    fs_invar cfg K (snd (fs_Get cfg c k)) \<and> fs_invar cfg K (snd (fs_Set cfg c k v)) \<and>
    fs_invar cfg K (snd (fs_Delete cfg c k))"
  using fsc.conn_specs [of cfg K c k] assms by (simp add: fscache_def)

theorem file_cache_is_a_map_witness:
  "fst (fs_Get ex_config (snd (fs_Set ex_config fscache_Open (''baz'' @ replicate 255 (CHR ''x'')) ''value''))
     (''baz'' @ replicate 255 (CHR ''x''))) = Inr ''value''"
proof -
  let ?K = "set acceptance_keys" and ?k = "''baz'' @ replicate 255 (CHR ''x'')"
  have k: "?k \<in> ?K" by (simp add: acceptance_keys_def)
  have "no_clash ?K" using no_clash_acceptance by (simp add: no_clash_def)
  note i = fscache_Open_invar [OF ex_config_ok this]
  note opened = file_cache_is_a_map [OF i k, of "''value''"]
  note stored = file_cache_is_a_map [OF _ k, of ex_config "snd (fs_Set ex_config fscache_Open ?k ''value'')"]
  show ?thesis using opened stored by simp
qed

text \<open>
  C28: Both backends pass the acceptance suite on a fresh store: the in-memory one, which lists no
  keys, always; the file-system one, the listing with a key of 258 bytes included, whenever no
  operation times out and its cipher and random source keep their promises.
\<close>

theorem backends_pass_acceptance:
  "acceptance_Run memcache None memcache_Open \<and>
   (config_ok cfg \<longrightarrow> acceptance_Run (fscache cfg) (Some (fs_Keys cfg)) fscache_Open)"
proof
  show "acceptance_Run memcache None memcache_Open"
    by (rule mem.passes_acceptance) (simp_all add: memcache_Open_def testKeys_def)
  show "config_ok cfg \<longrightarrow> acceptance_Run (fscache cfg) (Some (fs_Keys cfg)) fscache_Open"
  proof
    let ?K = "insert ''doesnotexist'' (set acceptance_keys)"
    assume "config_ok cfg"
    then have i: "fs_invar cfg ?K fscache_Open" by (rule fscache_Open_invar [OF _ no_clash_acceptance])
    then have "testKeys (fscache cfg) (Some (fs_Keys cfg)) fscache_Open"
      by (rule fsl.passes_keys) (simp_all add: fscache_Open_contents)
    from fsc.passes_acceptance [OF i fscache_Open_contents _ _ this]
    show "acceptance_Run (fscache cfg) (Some (fs_Keys cfg)) fscache_Open" by (simp add: acceptance_keys_def)
  qed
qed

theorem backends_pass_acceptance_witness: "acceptance_Run (fscache ex_config) (Some (fs_Keys ex_config)) fscache_Open"
  using backends_pass_acceptance [of ex_config] ex_config_ok by simp

end
