(* ===== verification/LongKeys.thy ===== *)
theory LongKeys
  imports FsContract Example
begin

text \<open>
  Keys of \<open>store/fscache\<close> that are in each other's way: once one is stored, the other can be neither
  stored nor looked up. A URL key and its response ID are such a pair when the key fills its
  fragments.
\<close>

lemma clash_names:
  assumes "clash k k'"
  obtains r qs where "name_path (fragmentFileName k) = Inr (key_path k)"
    "name_path (fragmentFileName k') = Inr (key_path k @ r)" "parents (key_path k @ r) = parents (key_path k) @ key_path k # qs"
proof -
  obtain r where r: "r \<noteq> []" "key_path k' = key_path k @ r" by (rule clash_path [OF assms])
  have "k \<noteq> []" "k' \<noteq> []" using assms by (auto simp: clash_def)
  with r parents_append [of "key_path k" r] show ?thesis by (auto intro: that simp: name_path_key_path)
qed

lemma file_blocks_directory:
  assumes "clash k k'" "fst (fs_Set cfg c k v) = None"
  shows "fst (fs_Set cfg (snd (fs_Set cfg c k v)) k' v') \<noteq> None"
    and "\<exists>e. fst (fs_Get cfg (snd (fs_Set cfg c k v)) k') = Inl e \<and> e \<noteq> ErrNotExist"
proof -
  let ?c = "snd (fs_Set cfg c k v)" and ?p = "key_path k"
  obtain r qs where n: "name_path (fragmentFileName k) = Inr ?p" "name_path (fragmentFileName k') = Inr (?p @ r)"
    and qs: "parents (?p @ r) = parents ?p @ ?p # qs" by (rule clash_names [OF assms(1)])
  have f: "\<forall>q \<in> set (parents ?p). is_dir (fc_fs ?c) q" "is_file (fc_fs ?c) ?p" "\<not> is_dir (fc_fs ?c) ?p"
    using fs_set_success [OF fs_Set_success [OF assms(2)] n(1)] by (simp_all add: fs_Set_fs)
  show "fst (fs_Set cfg ?c k' v') \<noteq> None"
    by (intro fs_Set_blocked fs_set_blocked [OF n(2)] disjI1 bexI [of _ ?p]) (use f qs in auto)
  have "filter (\<lambda>q. \<not> is_dir (fc_fs ?c) q) (parents ?p) = []" using f(1) by (simp add: filter_empty_conv)
  then have "walk_error (fc_fs ?c) (?p @ r) = Some ENOTDIR" using f(2,3) by (simp add: walk_error_def qs)
  then have "fst (fs_get cfg ?c k') = Inl (fs_backend_error ENOTDIR)"
    by (simp add: fs_get_def n(2) fs_read_def fs_lookup_error_def)
  then show "\<exists>e. fst (fs_Get cfg ?c k') = Inl e \<and> e \<noteq> ErrNotExist"
    by (simp add: fs_Get_def case_prod_beta fs_backend_error_def)
qed

lemma directory_blocks_file:
  assumes "clash k k'" "fst (fs_Set cfg c k' v) = None"
  shows "fst (fs_Set cfg (snd (fs_Set cfg c k' v)) k v') \<noteq> None"
proof -
  let ?c = "snd (fs_Set cfg c k' v)" and ?p = "key_path k"
  obtain r qs where n: "name_path (fragmentFileName k) = Inr ?p" "name_path (fragmentFileName k') = Inr (?p @ r)"
    and qs: "parents (?p @ r) = parents ?p @ ?p # qs" by (rule clash_names [OF assms(1)])
  then have "is_dir (fc_fs ?c) ?p"
    using fs_set_success [OF fs_Set_success [OF assms(2)] n(2)] by (simp add: fs_Set_fs)
  then show ?thesis by (intro fs_Set_blocked fs_set_blocked [OF n(1)] disjI2)
qed

text \<open>
  In the file-system backend, a key of 36 bytes, or of at least 216 bytes and a length that is
  a multiple of 36, and any longer key of at least 192 bytes that begins with it exclude each other:
  once one is stored, storing the other fails, and reading the absent longer key fails with an error
  that is not ErrNotExist.
\<close>

theorem long_keys_exclude_each_other:
  assumes "length k mod 36 = 0" and "length k = 36 \<or> 216 \<le> length k" and "x \<noteq> []" and "192 \<le> length (k @ x)"
  shows "(fst (fs_Set cfg c k v) = None \<longrightarrow>
      fst (fs_Set cfg (snd (fs_Set cfg c k v)) (k @ x) v') \<noteq> None \<and>
      (\<exists>e. fst (fs_Get cfg (snd (fs_Set cfg c k v)) (k @ x)) = Inl e \<and> e \<noteq> ErrNotExist)) \<and>
    (fst (fs_Set cfg c (k @ x) v) = None \<longrightarrow> fst (fs_Set cfg (snd (fs_Set cfg c (k @ x) v)) k v') \<noteq> None)"
proof -
  have k: "clash k (k @ x)" using assms by (simp add: clash_def)
  note F = file_blocks_directory [OF k, of cfg c v]
  note D = directory_blocks_file [OF k, of cfg c v]
  from F D show ?thesis by blast
qed

text \<open>The first key of an empty cache can always be stored.\<close>

definition ex_plain :: fsConfig where
  "ex_plain = \<lparr>fc_enc = None, fc_updateMTime = False, fc_late = (\<lambda>_. False), fc_now = (\<lambda>_. 0), fc_random = (\<lambda>_. None)\<rparr>"

lemma mkdir_loop_no_files:
  "fs_files f = [] \<Longrightarrow> fst (mkdir_loop f qs) = None \<and> set (fs_dirs (snd (mkdir_loop f qs))) = set (fs_dirs f) \<union> set qs"
  by (induction f qs rule: mkdir_loop.induct) (auto simp: is_dir_def is_file_def)

lemma first_set_succeeds:
  assumes "name_path (fragmentFileName k) = Inr p"
  shows "fst (fs_Set ex_plain fscache_Open k v) = None"
proof -
  obtain f where f: "mkdir_loop (fc_fs fscache_Open) (parents p) = (None, f)"
    "set (fs_dirs f) = set (parents p)"
    using mkdir_loop_no_files [of "fc_fs fscache_Open" "parents p"]
    by (cases "mkdir_loop (fc_fs fscache_Open) (parents p)") (simp add: fscache_Open_def)
  have "walk_error f p = None" "\<not> is_dir f p"
    using parents_proper [of p p] by (auto simp: walk_error_def is_dir_def f(2) filter_empty_conv split: list.split)
  then show ?thesis
    by (simp add: fs_Set_def fs_set_def ex_plain_def assms fs_mkdir_parents_def f(1) fs_write_def case_prod_beta)
qed

theorem long_keys_exclude_each_other_witness:
  "fst (fs_Set ex_plain fscache_Open (replicate 216 (CHR ''a'')) ''refs'') = None \<and>
   fst (fs_Set ex_plain (snd (fs_Set ex_plain fscache_Open (replicate 216 (CHR ''a'')) ''refs''))
     (replicate 216 (CHR ''a'') @ ''#0'') ''entry'') \<noteq> None"
proof -
  let ?k = "replicate 216 (CHR ''a'')"
  have "?k \<noteq> []" by simp
  then have "name_path (fragmentFileName ?k) = Inr (key_path ?k)" by (rule name_path_key_path)
  note ok = first_set_succeeds [OF this, of "''refs''"]
  have l: "length ?k mod 36 = 0" "length ?k = 36 \<or> 216 \<le> length ?k" "''#0'' \<noteq> []" "192 \<le> length (?k @ ''#0'')"
    unfolding length_append length_replicate by simp_all
  from long_keys_exclude_each_other [OF l, of ex_plain fscache_Open "''refs''" "''entry''"] ok show ?thesis by blast
qed

text \<open>A URL key that fills its fragments is in the way of all its response IDs.\<close>

lemma clash_response_id:
  assumes "216 \<le> length urlKey" "length urlKey mod 36 = 0" "e = new_entry lib req resp urlKey rq rs"
  shows "clash urlKey (ent_ID e)"
proof -
  obtain h where "ent_ID e = urlKey @ CHR ''#'' # h"
    using makeVaryKey_split [of urlKey "response_variant lib req resp"] by (auto simp: assms(3) new_entry_def)
  then show ?thesis using assms(1,2) by (simp add: clash_def)
qed

lemma StoreResponse_clash:
  assumes "e = new_entry lib req resp urlKey rq rs" and "clash urlKey (ent_ID e)"
    and "fst (rc_Set cd (fscache cfg) s (ent_ID e) e) = None"
  shows "fst (StoreResponse lib cd (fscache cfg) s req resp urlKey refs rq rs i) \<noteq> None"
proof -
  obtain d where "MarshalBinary cd e = Some d"
    "rc_Set cd (fscache cfg) s (ent_ID e) e = fs_Set cfg s (ent_ID e) d"
    using assms(3) by (auto simp: rc_Set_def fscache_def split: option.splits)
  with assms(3) directory_blocks_file [OF assms(2), of cfg s d]
  have "fst (fs_Set cfg (snd (rc_Set cd (fscache cfg) s (ent_ID e) e)) urlKey v) \<noteq> None" for v by simp
  then show ?thesis
    by (simp add: StoreResponse_alt Let_def assms(1) [symmetric] rc_SetRefs_def fscache_def split: option.splits)
qed

text \<open>
  C21: Over the file-system backend, a URL whose key has at least 216 bytes and a length that is a
  multiple of 36 is never cached: storing its response and storing its references cannot both
  succeed, since the file of the references has the name of the directory of the response.
\<close>

theorem long_urls_are_not_cached:
  assumes "216 \<le> length urlKey" and "length urlKey mod 36 = 0"
    and "e = new_entry lib req resp urlKey rq rs"
    and "StoreResponse lib cd (fscache cfg) s req resp urlKey refs rq rs i = (err, resp', s')"
  shows "err \<noteq> None \<or> fst (rc_Set cd (fscache cfg) s (ent_ID e) e) \<noteq> None"
  using StoreResponse_clash [OF assms(3) clash_response_id [OF assms(1-3)], of cd cfg s refs i] assms(4) by auto

theorem long_urls_are_not_cached_witness:
  "\<exists>err resp' s'. StoreResponse ex_lib (ex_codec []) (fscache ex_plain) fscache_Open (ex_request ''GET'' []) (ex_response [])
      (replicate 216 (CHR ''a'')) [] 0 0 (-1) = (err, resp', s') \<and> err \<noteq> None"
proof -
  let ?k = "replicate 216 (CHR ''a'')" and ?req = "ex_request ''GET'' []" and ?resp = "ex_response []"
  define e where "e = new_entry ex_lib ?req ?resp ?k 0 0"
  obtain err resp' s' where st: "StoreResponse ex_lib (ex_codec []) (fscache ex_plain) fscache_Open ?req ?resp ?k [] 0 0 (-1)
    = (err, resp', s')" by (metis prod_cases3)
  have l: "216 \<le> length ?k" "length ?k mod 36 = 0" unfolding length_replicate by simp_all
  have "ent_ID e \<noteq> []" using clash_response_id [OF l e_def] by (auto simp: clash_def)
  then have "name_path (fragmentFileName (ent_ID e)) = Inr (key_path (ent_ID e))" by (rule name_path_key_path)
  then have "fst (rc_Set (ex_codec []) (fscache ex_plain) fscache_Open (ent_ID e) e) = None"
    using first_set_succeeds by (simp add: rc_Set_def fscache_def MarshalBinary_def ex_codec_def)
  with long_urls_are_not_cached [OF l e_def st] st show ?thesis by blast
qed

end
