(* ===== verification/Races.thy ===== *)
theory Races
  imports Example
begin

text \<open>
  Two ways to the wrong variant: response IDs are hashes of the nominated fields without separators,
  so two variants may share one; and the references of a URL are read, changed and written back, so
  of two variants fetched at the same time only one is kept.
\<close>

subsection \<open>Two variants of a URL\<close>






subsection \<open>An example\<close>

























subsection \<open>Witnesses\<close>





end
