(* ===== verification/Calls.thy ===== *)
theory Calls
  imports Example
begin

text \<open>
  One call of the backend at a time. \<open>StoreResponse\<close> writes twice and \<open>InvalidateCache\<close> deletes and
  reads many times, and nothing keeps other round trips from the backend in between. Here what a
  handler still has to do to the backend is a value, the calls one after the other with what becomes
  of their results; run without a break they are the handlers of \<open>Transport\<close>, and in the server of
  this theory they interleave with those of every other round trip.
\<close>

subsection \<open>Calls as values\<close>

datatype calls =
    Done outcome
  | Getting string "cache_error + bytes \<Rightarrow> calls"
  | Setting string bytes calls
  | Deleting string calls

primrec run_calls :: "'s conn \<Rightarrow> calls \<Rightarrow> 's \<Rightarrow> outcome \<times> 's" where
  "run_calls conn (Done out) s = (out, s)"
| "run_calls conn (Getting k c) s = run_calls conn (c (fst (conn_Get conn s k))) (snd (conn_Get conn s k))"
| "run_calls conn (Setting k d p) s = run_calls conn p (snd (conn_Set conn s k d))"
| "run_calls conn (Deleting k p) s = run_calls conn p (snd (conn_Delete conn s k))"

text \<open>What \<open>refs, _ := cache.GetRefs(urlKey)\<close> makes of the answer of the backend.\<close>

definition refs_read :: "codec \<Rightarrow> cache_error + bytes \<Rightarrow> ResponseRefs" where
  "refs_read cd r =
     (case r of
        Inl _ \<Rightarrow> []
      | Inr data \<Rightarrow> (case cd_UnmarshalRefs cd data of None \<Rightarrow> [] | Some refs \<Rightarrow> refs))"

text \<open>\<open>StoreResponse\<close>: what cannot be marshalled is not written, and no error is looked at.\<close>

definition store_calls ::
  "golib \<Rightarrow> codec \<Rightarrow> http_request \<Rightarrow> http_response \<Rightarrow> string \<Rightarrow> ResponseRefs \<Rightarrow> time \<Rightarrow> time \<Rightarrow> int \<Rightarrow>
   calls \<Rightarrow> calls" where
  "store_calls lib cd req resp urlKey refs reqTime respTime refIndex rest =
     (let respEntry = new_entry lib req resp urlKey reqTime respTime;
          refs = place_ref refs refIndex (new_ref lib req resp urlKey reqTime respTime);
          rest = (case cd_MarshalRefs cd refs of None \<Rightarrow> rest | Some data \<Rightarrow> Setting urlKey data rest)
      in case MarshalBinary cd respEntry of
           None \<Rightarrow> rest
         | Some data \<Rightarrow> Setting (ent_ID respEntry) data rest)"

text \<open>\<open>InvalidateCache\<close>: \<open>seen\<close> are the keys deleted so far.\<close>

fun delete_calls :: "string list \<Rightarrow> string list \<Rightarrow> (string list \<Rightarrow> calls) \<Rightarrow> calls" where
  "delete_calls seen [] rest = rest seen"
| "delete_calls seen (k # ks) rest =
     (if k \<in> set seen then delete_calls seen ks rest else Deleting k (delete_calls (k # seen) ks rest))"

fun location_calls ::
  "golib \<Rightarrow> codec \<Rightarrow> url \<Rightarrow> header \<Rightarrow> string list \<Rightarrow> string list \<Rightarrow> (string list \<Rightarrow> calls) \<Rightarrow> calls" where
  "location_calls lib cd reqURL respHeader [] seen rest = rest seen"
| "location_calls lib cd reqURL respHeader (hdr # hdrs) seen rest =
     (let loc = Header_Get respHeader hdr in
      if loc = [] then location_calls lib cd reqURL respHeader hdrs seen rest
      else case lib_url_Parse lib loc of
             None \<Rightarrow> location_calls lib cd reqURL respHeader hdrs seen rest
           | Some locURL0 \<Rightarrow>
               let locURL = ResolveReference reqURL locURL0 in
               if sameOrigin lib reqURL locURL then
                 (case Normalize lib locURL of
                    None \<Rightarrow> Done Panicked
                  | Some urlKey \<Rightarrow>
                      Getting urlKey (\<lambda>r. delete_calls seen (ResponseIDs (refs_read cd r) @ [urlKey])
                        (\<lambda>seen. location_calls lib cd reqURL respHeader hdrs seen rest)))
               else location_calls lib cd reqURL respHeader hdrs seen rest)"

definition invalidate_calls ::
  "golib \<Rightarrow> codec \<Rightarrow> url \<Rightarrow> header \<Rightarrow> ResponseRefs \<Rightarrow> string \<Rightarrow> calls \<Rightarrow> calls" where
  "invalidate_calls lib cd reqURL respHeader refs key rest =
     delete_calls [] (ResponseIDs refs)
       (\<lambda>seen. location_calls lib cd reqURL respHeader locationHeaders seen
          (\<lambda>seen. delete_calls seen [key] (\<lambda>_. rest)))"

text \<open>
  \<open>HandleValidationResponse\<close>: its calls and the number of clock readings after it; it looks at the
  clock before the first call.
\<close>

definition validation_calls ::
  "'s env \<Rightarrow> RevalidationContext \<Rightarrow> http_request \<Rightarrow> http_response \<Rightarrow> nat \<Rightarrow> calls \<times> nat" where
  "validation_calls env ctx req resp n =
     (let store = (\<lambda>r status. store_calls (e_lib env) (e_codec env) req r (rv_URLKey ctx) (rv_Refs ctx)
            (rv_Start ctx) (rv_End ctx) (rv_RefIndex ctx)
            (Done (Responded (apply_status status (removeHopByHopHeaders r)))))
      in if req_Method req = ''GET'' \<and> resp_StatusCode resp = 304 then
           (store (mergeResponseHeaders (ent_Data (rv_Stored ctx)) (resp_Header resp)) CacheStatusRevalidated, n)
         else
           let ccResp = ParseCCResponseDirectives (resp_Header resp);
               (staleOk, n) =
                 (if isStaleErrorAllowed (resp_StatusCode resp) \<and> req_Method req = ''GET''
                  then CanStaleOnError (e_clk env) n (rv_Freshness ctx) [Resp_StaleIfError ccResp]
                  else (False, n))
           in if staleOk then
                (let (data, n) = SetAgeHeader (e_clk env) n (ent_Data (rv_Stored ctx)) (fr_Age (rv_Freshness ctx))
                 in (Done (Responded (apply_status CacheStatusStale data)), n))
              else if canStoreResponse resp (rv_CCReq ctx) ccResp then (store resp CacheStatusMiss, n)
              else if IsUnsafeMethod (req_Method req) \<and> IsNonErrorStatus (resp_StatusCode resp) then
                (invalidate_calls (e_lib env) (e_codec env) (req_URL req) (resp_Header resp) (rv_Refs ctx)
                   (rv_URLKey ctx) (Done (Responded (apply_status CacheStatusBypass resp))), n)
              else (Done (Responded (apply_status CacheStatusBypass resp)), n))"

text \<open>What a round trip does to the backend once it has the answer of the origin.\<close>

fun end_calls :: "'s env \<Rightarrow> nat \<Rightarrow> flight \<Rightarrow> (calls \<times> nat) option" where
  "end_calls env n (AtInvalidate req urlKey resp) =
     Some (Getting urlKey (\<lambda>r. invalidate_calls (e_lib env) (e_codec env) (req_URL req) (resp_Header resp)
       (refs_read (e_codec env) r) urlKey (Done (Responded (apply_status CacheStatusBypass resp)))), n)"
| "end_calls env n (AtStore req urlKey refs refIndex resp start fin) =
     (let ccReq = ParseCCRequestDirectives (req_Header req);
          ccResp = ParseCCResponseDirectives (resp_Header resp)
      in Some (if canStoreResponse resp ccReq ccResp
               then store_calls (e_lib env) (e_codec env) req resp urlKey refs start fin refIndex
                      (Done (Responded (apply_status CacheStatusMiss (removeHopByHopHeaders resp))))
               else Done (Responded (apply_status CacheStatusMiss resp)), n))"
| "end_calls env n (AtValidate ctx req resp) = Some (validation_calls env ctx req resp n)"
| "end_calls env n _ = None"

subsection \<open>The calls of a handler are the handler\<close>

lemma rc_GetRefs_read:
  "refs_or_nil (fst (rc_GetRefs cd conn s k)) = refs_read cd (fst (conn_Get conn s k))"
  "snd (rc_GetRefs cd conn s k) = snd (conn_Get conn s k)"
  by (auto simp: rc_GetRefs_def refs_read_def refs_or_nil_def split: prod.split sum.split option.split)

lemma run_store_calls:
  "run_calls conn (store_calls lib cd req resp k refs rq rs i rest) s =
     run_calls conn rest (snd (snd (StoreResponse lib cd conn s req resp k refs rq rs i)))"
  by (auto simp: store_calls_def StoreResponse_alt Let_def rc_Set_def rc_SetRefs_def split: option.split)

lemma run_delete_calls:
  "run_calls conn (delete_calls seen ks rest) s =
     run_calls conn (rest (fst (fold (del_once conn) ks (seen, s)))) (snd (fold (del_once conn) ks (seen, s)))"
  by (induction ks arbitrary: seen s) (simp_all add: del_once_def rc_Delete_def)

lemma run_location_calls:
  "run_calls conn (location_calls lib cd u h hdrs seen rest) s =
     (let (panics, seen', s') = invalidateLocationHeaders lib cd conn u h hdrs (seen, s)
      in if panics then (Panicked, s') else run_calls conn (rest seen') s')"
proof (induction hdrs arbitrary: seen s)
  case (Cons hdr hdrs)
  have get: "rc_GetRefs cd conn s k = (r, t) \<Longrightarrow>
      refs_read cd (fst (conn_Get conn s k)) = refs_or_nil r \<and> snd (conn_Get conn s k) = t" for k r t
    using rc_GetRefs_read [of cd conn s k] by simp
  show ?case
    by (auto simp: Cons.IH run_delete_calls Let_def dest: get split: option.split prod.split)
qed simp

lemma run_invalidate_calls:
  "run_calls conn (invalidate_calls lib cd u h refs key (Done out)) s =
     (let (panics, s') = InvalidateCache lib cd conn s u h refs key in (if panics then Panicked else out, s'))"
  by (simp add: invalidate_calls_def InvalidateCache_def run_delete_calls run_location_calls Let_def split_beta
      del: delete_calls.simps)

lemma run_validation_calls:
  assumes "validation_calls env ctx req resp (w_tick w) = (p, n)"
  shows "HandleValidationResponse env ctx req resp w =
    (fst (run_calls (e_conn env) p (w_cache w)), w\<lparr>w_cache := snd (run_calls (e_conn env) p (w_cache w)), w_tick := n\<rparr>)"
  using assms
  by (auto simp: validation_calls_def HandleValidationResponse_def store_response_def run_store_calls
      run_invalidate_calls Let_def split_beta split: if_splits)

lemma run_end_calls:
  assumes "end_calls env (w_tick w) f = Some (p, n)"
  shows "advance env w f =
    (Inl (fst (run_calls (e_conn env) p (w_cache w))), w\<lparr>w_cache := snd (run_calls (e_conn env) p (w_cache w)), w_tick := n\<rparr>)"
proof (cases f)
  case (AtInvalidate req k resp)
  obtain q s where q: "rc_GetRefs (e_codec env) (e_conn env) (w_cache w) k = (q, s)" by fastforce
  with rc_GetRefs_read [of "e_codec env" "e_conn env" "w_cache w" k] assms AtInvalidate show ?thesis
    by (auto simp: run_invalidate_calls split: prod.split)
next
  case (AtStore req k refs i resp start fin)
  with assms show ?thesis by (auto simp: store_response_def run_store_calls Let_def split_beta)
next
  case (AtValidate ctx req resp)
  with assms run_validation_calls [of env ctx req resp w p n] show ?thesis by simp
qed (use assms in simp_all)

lemma end_calls_None: "end_calls env n f = None \<longleftrightarrow> steps_left f \<noteq> 0"
  by (cases f) (simp_all add: Let_def)

subsection \<open>The server with single calls\<close>

datatype thread = Flying flight | Calling calls

fun thread_step :: "'s env \<Rightarrow> 's world \<Rightarrow> thread \<Rightarrow> (outcome + thread) \<times> 's world" where
  "thread_step env w (Flying f) =
     (case end_calls env (w_tick w) f of
        Some (p, n) \<Rightarrow> (Inr (Calling p), w\<lparr>w_tick := n\<rparr>)
      | None \<Rightarrow> apfst (map_sum id Flying) (advance env w f))"
| "thread_step env w (Calling (Done out)) = (Inl out, w)"
| "thread_step env w (Calling (Getting k c)) =
     (let (r, s) = conn_Get (e_conn env) (w_cache w) k in (Inr (Calling (c r)), w\<lparr>w_cache := s\<rparr>))"
| "thread_step env w (Calling (Setting k d p)) =
     (Inr (Calling p), w\<lparr>w_cache := snd (conn_Set (e_conn env) (w_cache w) k d)\<rparr>)"
| "thread_step env w (Calling (Deleting k p)) =
     (Inr (Calling p), w\<lparr>w_cache := snd (conn_Delete (e_conn env) (w_cache w) k)\<rparr>)"

inductive call_step ::
  "'s env \<Rightarrow> (http_request \<Rightarrow> bool) \<Rightarrow> 's world \<times> thread list \<Rightarrow> 's world \<times> thread list \<Rightarrow> bool"
  for env ok where
  arrives: "ok req \<Longrightarrow> arrive env w req = (Some f, w') \<Longrightarrow> call_step env ok (w, ts) (w', ts @ [Flying f])"
| advances: "i < length ts \<Longrightarrow> thread_step env w (ts ! i) = (Inr t, w') \<Longrightarrow> call_step env ok (w, ts) (w', ts[i := t])"
| responds: "i < length ts \<Longrightarrow> thread_step env w (ts ! i) = (Inl out, w') \<Longrightarrow>
    call_step env ok (w, ts) (w', take i ts @ drop (Suc i) ts)"
| starts: "i < length (w_pending w) \<Longrightarrow>
    start_job env (w\<lparr>w_pending := take i (w_pending w) @ drop (Suc i) (w_pending w)\<rparr>) (w_pending w ! i) expired consumed
      = (f, w') \<Longrightarrow>
    call_step env ok (w, ts) (w', ts @ (case f of None \<Rightarrow> [] | Some f \<Rightarrow> [Flying f]))"

inductive call_serves :: "'s env \<Rightarrow> (http_request \<Rightarrow> bool) \<Rightarrow> 's world \<Rightarrow> 's world \<times> thread list \<Rightarrow> bool"
  for env ok w0 where
  opened: "call_serves env ok w0 (w0, [])"
| step: "call_serves env ok w0 c \<Longrightarrow> call_step env ok c c' \<Longrightarrow> call_serves env ok w0 c'"

inductive_cases call_stepE: "call_step env ok (w, ts) c"

text \<open>The calls of a thread may all be made at once.\<close>

lemma calls_at_once:
  assumes "call_serves env ok w0 (w, ts)" "i < length ts" "ts ! i = Calling p" "run_calls (e_conn env) p (w_cache w) = (out, s)"
  shows "call_serves env ok w0 (w\<lparr>w_cache := s\<rparr>, take i ts @ drop (Suc i) ts)"
  using assms
proof (induction p arbitrary: w ts)
  case (Done o1)
  then have "call_step env ok (w, ts) (w, take i ts @ drop (Suc i) ts)" by (intro call_step.responds) simp_all
  from call_serves.step [OF Done.prems(1) this] Done.prems(4) show ?case by auto
next
  case (Getting k c)
  let ?r = "fst (conn_Get (e_conn env) (w_cache w) k)"
  let ?c = "(w\<lparr>w_cache := snd (conn_Get (e_conn env) (w_cache w) k)\<rparr>, ts[i := Calling (c ?r)])"
  have "call_step env ok (w, ts) ?c" using Getting.prems by (intro call_step.advances) (simp_all add: split_beta)
  from call_serves.step [OF Getting.prems(1) this] show ?case
    using Getting.IH [of "c ?r"] Getting.prems by fastforce
next
  case (Setting k d p)
  let ?c = "(w\<lparr>w_cache := snd (conn_Set (e_conn env) (w_cache w) k d)\<rparr>, ts[i := Calling p])"
  have "call_step env ok (w, ts) ?c" using Setting.prems by (intro call_step.advances) simp_all
  from call_serves.step [OF Setting.prems(1) this] show ?case using Setting.IH Setting.prems by fastforce
next
  case (Deleting k p)
  let ?c = "(w\<lparr>w_cache := snd (conn_Delete (e_conn env) (w_cache w) k)\<rparr>, ts[i := Calling p])"
  have "call_step env ok (w, ts) ?c" using Deleting.prems by (intro call_step.advances) simp_all
  from call_serves.step [OF Deleting.prems(1) this] show ?case using Deleting.IH Deleting.prems by fastforce
qed

lemma serves_call_serves: "serves env ok w0 c \<Longrightarrow> call_serves env ok w0 (fst c, map Flying (snd c))"
proof (induction rule: serves.induct)
  case opened
  show ?case by (simp add: call_serves.opened)
next
  case (step c c')
  obtain w fs where c: "c = (w, fs)" by (cases c)
  have IH: "call_serves env ok w0 (w, map Flying fs)" using step.IH c by simp
  from step.hyps(2) show ?case unfolding c
  proof (cases rule: server_step.cases)
    case (arrives req f w')
    then have "call_step env ok (w, map Flying fs) (w', map Flying fs @ [Flying f])" by (intro call_step.arrives)
    from call_serves.step [OF IH this] arrives show ?thesis by simp
  next
    case (advances i f w')
    then have "end_calls env (w_tick w) (fs ! i) = None" using advance_steps by (fastforce simp: end_calls_None)
    then have "call_step env ok (w, map Flying fs) (w', (map Flying fs)[i := Flying f])"
      using advances by (intro call_step.advances) simp_all
    from call_serves.step [OF IH this] advances show ?thesis by (simp add: map_update)
  next
    case (responds i out w')
    show ?thesis
    proof (cases "end_calls env (w_tick w) (fs ! i)")
      case None
      then have "call_step env ok (w, map Flying fs) (w', take i (map Flying fs) @ drop (Suc i) (map Flying fs))"
        using responds by (intro call_step.responds) simp_all
      from call_serves.step [OF IH this] responds show ?thesis by (simp add: take_map drop_map)
    next
      case (Some x)
      obtain p n where x: "end_calls env (w_tick w) (fs ! i) = Some (p, n)" using Some by (cases x) simp
      let ?ts = "(map Flying fs)[i := Calling p]"
      have "call_step env ok (w, map Flying fs) (w\<lparr>w_tick := n\<rparr>, ?ts)"
        using responds x by (intro call_step.advances) simp_all
      from call_serves.step [OF IH this] have s: "call_serves env ok w0 (w\<lparr>w_tick := n\<rparr>, ?ts)" .
      obtain o2 s2 where r: "run_calls (e_conn env) p (w_cache w) = (o2, s2)" by fastforce
      then have w': "w' = w\<lparr>w_cache := s2, w_tick := n\<rparr>" using run_end_calls [OF x] responds by simp
      have "call_serves env ok w0 (w\<lparr>w_tick := n, w_cache := s2\<rparr>, take i ?ts @ drop (Suc i) ?ts)"
        using calls_at_once [OF s, of i p o2 s2] responds r by simp
      moreover have "w' = w\<lparr>w_tick := n, w_cache := s2\<rparr>" unfolding w' by (cases w) simp
      ultimately show ?thesis using responds by (simp add: take_map drop_map)
    qed
  next
    case (starts i expired consumed f w')
    have "call_step env ok (w, map Flying fs) (w', map Flying fs @ (case f of None \<Rightarrow> [] | Some f \<Rightarrow> [Flying f]))"
      using starts by (intro call_step.starts) simp_all
    from call_serves.step [OF IH this] starts show ?thesis by (simp split: option.splits)
  qed
qed

subsection \<open>The invariant, call by call\<close>

text \<open>Calls that only write what \<open>W\<close> admits, whatever the reads among them answer.\<close>

primrec writes :: "(string \<Rightarrow> bytes \<Rightarrow> bool) \<Rightarrow> calls \<Rightarrow> bool" where
  "writes W (Done out) \<longleftrightarrow> True"
| "writes W (Getting k c) \<longleftrightarrow> (\<forall>r. writes W (c r))"
| "writes W (Setting k d p) \<longleftrightarrow> W k d \<and> writes W p"
| "writes W (Deleting k p) \<longleftrightarrow> writes W p"

lemma writes_delete_calls: "(\<And>seen. writes W (rest seen)) \<Longrightarrow> writes W (delete_calls seen ks rest)"
  by (induction ks arbitrary: seen) simp_all

lemma writes_location_calls: "(\<And>seen. writes W (rest seen)) \<Longrightarrow> writes W (location_calls lib cd u h hdrs seen rest)"
  by (induction hdrs arbitrary: seen) (auto simp: Let_def intro!: writes_delete_calls split: option.split)

lemma writes_invalidate_calls: "writes W rest \<Longrightarrow> writes W (invalidate_calls lib cd u h refs key rest)"
  unfolding invalidate_calls_def by (intro writes_delete_calls writes_location_calls)

text \<open>A write that gives no URL a response ID of another.\<close>

definition own_write :: "(string \<Rightarrow> bool) \<Rightarrow> codec \<Rightarrow> string \<Rightarrow> bytes \<Rightarrow> bool" where
  "own_write txt cd k d \<longleftrightarrow> (\<forall>m. own_ids txt cd m \<longrightarrow> own_ids txt cd (m(k \<mapsto> d)))"

fun thread_ok :: "(string \<Rightarrow> bool) \<Rightarrow> codec \<Rightarrow> thread \<Rightarrow> bool" where
  "thread_ok txt cd (Flying f) \<longleftrightarrow> flight_ok txt f"
| "thread_ok txt cd (Calling p) \<longleftrightarrow> writes (own_write txt cd) p"

lemma writes_store_calls:
  assumes "ids_survive txt cd" "key_ok txt k" "\<forall>i \<in> set (ResponseIDs refs). id_of txt k i"
    and "writes (own_write txt cd) rest"
  shows "writes (own_write txt cd) (store_calls lib cd req resp k refs rq rs i rest)"
proof -
  let ?e = "new_entry lib req resp k rq rs" and ?r = "new_ref lib req resp k rq rs"
  have entry: "own_write txt cd (ent_ID ?e) d" for d
    using own_ids_entry makeVaryKey_hash by (simp add: own_write_def new_entry_def)
  have "id_of txt k (ref_ResponseID ?r)" using id_of_makeVaryKey [OF assms(2)] by (simp add: new_ref_def)
  then have place: "\<forall>j \<in> set (ResponseIDs (place_ref refs i ?r)). id_of txt k j"
    using set_place_ref [of refs i ?r] assms(3) by (auto simp: ResponseIDs_def)
  have refs: "own_write txt cd k d" if "cd_MarshalRefs cd (place_ref refs i ?r) = Some d" for d
    using own_ids_refs [OF _ assms(1) place that] by (simp add: own_write_def)
  show ?thesis using assms(4) by (auto simp: store_calls_def Let_def entry refs split: option.split)
qed

lemma end_calls_ok:
  assumes "end_calls env n f = Some (p, n')" "flight_ok txt f" "ids_survive txt (e_codec env)"
  shows "writes (own_write txt (e_codec env)) p"
proof (cases f)
  case (AtInvalidate req k resp)
  with assms(1) show ?thesis by (auto intro!: writes_invalidate_calls)
next
  case (AtStore req k refs i resp start fin)
  with assms show ?thesis by (auto simp: Let_def intro!: writes_store_calls)
next
  case (AtValidate ctx req resp)
  with assms show ?thesis
    by (auto simp: validation_calls_def Let_def intro!: writes_store_calls writes_invalidate_calls
        split: prod.splits if_splits)
qed (use assms(1) in simp_all)

definition threads_ok ::
  "('s \<Rightarrow> string \<rightharpoonup> bytes) \<Rightarrow> ('s \<Rightarrow> bool) \<Rightarrow> (string \<Rightarrow> bool) \<Rightarrow> codec \<Rightarrow> 's world \<times> thread list \<Rightarrow> bool" where
  "threads_ok contents invar txt cd c \<longleftrightarrow>
     world_ok contents invar txt cd (fst c) \<and> (\<forall>t \<in> set (snd c). thread_ok txt cd t)"

context driver_conn
begin

lemma thread_step_ok:
  assumes g: "\<forall>k. good k" and conn: "e_conn env = cache" and w: "world_ok contents invar txt (e_codec env) w"
    and cd: "ids_survive txt (e_codec env)" and t: "thread_ok txt (e_codec env) t"
    and a: "thread_step env w t = (r, w')"
  shows "world_ok contents invar txt (e_codec env) w' \<and> (\<forall>t'. r = Inr t' \<longrightarrow> thread_ok txt (e_codec env) t')"
proof (cases t)
  case (Flying f)
  show ?thesis
  proof (cases "end_calls env (w_tick w) f")
    case None
    then obtain q where "advance env w f = (q, w')" "r = map_sum id Flying q"
      using a Flying by (cases "advance env w f") auto
    then show ?thesis using advance_ok [OF g conn w cd, of f q w'] t Flying by (cases q) auto
  next
    case (Some x)
    obtain p n where x: "end_calls env (w_tick w) f = Some (p, n)" using Some by (cases x) simp
    then show ?thesis using end_calls_ok [OF x _ cd] a t w Flying by (auto simp: world_ok_def)
  qed
next
  case (Calling p)
  have i: "invar (w_cache w)" "own_ids txt (e_codec env) (contents (w_cache w))" using w by (simp_all add: world_ok_def)
  show ?thesis
  proof (cases p)
    case (Getting k c)
    obtain q s where q: "conn_Get cache (w_cache w) k = (q, s)" by fastforce
    then have "invar s" "contents s = contents (w_cache w)"
      using get_contents [OF i(1), of k] get_invar [OF i(1), of k] g by simp_all
    then show ?thesis using a t w q conn Calling Getting by (auto simp: world_ok_def)
  next
    case (Setting k d q)
    then show ?thesis using a t w g conn conn_specs i Calling by (auto simp: world_ok_def own_write_def)
  next
    case (Deleting k q)
    then show ?thesis
      using a t w g conn conn_specs i Calling own_ids_shrink [OF i(2), of "(contents (w_cache w))(k := None)"]
      by (auto simp: world_ok_def map_le_def)
  qed (use a w Calling in auto)
qed

lemma call_step_ok:
  assumes g: "\<forall>k. good k" and conn: "e_conn env = cache" and cd: "ids_survive txt (e_codec env)"
    and req: "\<forall>req. ok req \<longrightarrow> request_ok txt (e_lib env) req"
    and ok: "threads_ok contents invar txt (e_codec env) c" and step: "call_step env ok c c'"
  shows "threads_ok contents invar txt (e_codec env) c'"
proof -
  obtain w ts where c: "c = (w, ts)" by (cases c)
  have w: "world_ok contents invar txt (e_codec env) w" and ts: "\<forall>t \<in> set ts. thread_ok txt (e_codec env) t"
    using ok by (simp_all add: threads_ok_def c)
  have nth: "thread_ok txt (e_codec env) (ts ! i)" if "i < length ts" for i using ts that by simp
  show ?thesis using step unfolding c
  proof (cases rule: call_step.cases)
    case (arrives rq f w')
    then show ?thesis using arrive_ok [OF g conn w _ arrives(3)] req ts by (auto simp: threads_ok_def)
  next
    case (advances i t w')
    then show ?thesis using thread_step_ok [OF g conn w cd nth [OF advances(2)] advances(3)] ts
      by (auto simp: threads_ok_def dest!: set_update_subset_insert [THEN subsetD])
  next
    case (responds i out w')
    then show ?thesis using thread_step_ok [OF g conn w cd nth [OF responds(2)] responds(3)] ts
      by (auto simp: threads_ok_def dest: in_set_takeD in_set_dropD)
  next
    case (starts i expired consumed f w')
    let ?w = "w\<lparr>w_pending := take i (w_pending w) @ drop (Suc i) (w_pending w)\<rparr>"
    have job: "job_ok txt (w_pending w ! i)" using w starts(2) by (simp add: world_ok_def)
    have "world_ok contents invar txt (e_codec env) ?w"
      using w by (auto simp: world_ok_def dest: in_set_takeD in_set_dropD)
    then show ?thesis using start_job_world [OF starts(3) job] ts starts(1)
      by (auto simp: threads_ok_def world_ok_def split: option.splits)
  qed
qed

lemma call_serves_ok:
  assumes "call_serves env ok w0 c" and "\<forall>k. good k" and "e_conn env = cache" and "ids_survive txt (e_codec env)"
    and "\<forall>req. ok req \<longrightarrow> request_ok txt (e_lib env) req" and "world_ok contents invar txt (e_codec env) w0"
  shows "threads_ok contents invar txt (e_codec env) c"
  using assms(1)
proof (induction rule: call_serves.induct)
  case opened
  then show ?case using assms(6) by (simp add: threads_ok_def)
next
  case (step c c')
  show ?case by (rule call_step_ok [OF assms(2-5) step.IH step.hyps(2)])
qed

end

lemma world_ok_ids:
  assumes "world_ok contents invar txt cd w"
    and "CHR ''#'' \<notin> set k" and "i \<in> set (ResponseIDs (stored_refs cd (contents (w_cache w)) k))"
  shows "(\<exists>h. i = k @ CHR ''#'' # h \<and> CHR ''#'' \<notin> set h) \<and>
    (\<forall>k'. CHR ''#'' \<notin> set k' \<longrightarrow> i \<in> set (ResponseIDs (stored_refs cd (contents (w_cache w)) k')) \<longrightarrow> k' = k) \<and>
    (\<forall>job \<in> set (w_pending w). req_Method (job_req job) = ''GET'')"
proof -
  have ids: "id_of txt k' i'"
    if "CHR ''#'' \<notin> set k'" "i' \<in> set (ResponseIDs (stored_refs cd (contents (w_cache w)) k'))" for k' i'
    using that assms(1) by (simp add: world_ok_def own_ids_def)
  obtain h where h: "i = k @ CHR ''#'' # h" "CHR ''#'' \<notin> set h"
    using ids [OF assms(2,3)] by (auto simp: id_of_def)
  have "k' = k" if k': "CHR ''#'' \<notin> set k'"
    "i \<in> set (ResponseIDs (stored_refs cd (contents (w_cache w)) k'))" for k'
  proof -
    obtain h' where "i = k' @ CHR ''#'' # h'" using ids [OF k'] by (auto simp: id_of_def)
    then have "k @ CHR ''#'' # h = k' @ CHR ''#'' # h'" using h(1) by simp
    then show ?thesis using no_hash_suffix [OF assms(2) k'(1), of h h'] by blast
  qed
  moreover have "\<forall>job \<in> set (w_pending w). req_Method (job_req job) = ''GET''"
    using assms(1) by (simp add: world_ok_def job_ok_def)
  ultimately show ?thesis using h by blast
qed

lemma empty_world_ok: "invar s \<Longrightarrow> contents s = (\<lambda>_. None) \<Longrightarrow> world_ok contents invar txt cd (start_world s)"
  by (simp add: own_ids_def stored_refs_def ResponseIDs_def world_ok_def start_world_def)

subsection \<open>Properties\<close>

text \<open>
  C5: In every state a server reaches from an empty cache, with any number of round trips and
  background revalidations in flight and interleaved between any two calls of the backend, the two
  writes of a StoreResponse and the deletions of an InvalidateCache included, a response ID that the
  references of a URL key name is that key followed by a hash sign and a variant, so no other URL
  key ever refers to it; and every pending background job has method GET.
\<close>

theorem single_calls_keep_response_ids:
  assumes "driver_conn (e_conn env) contents invar (\<lambda>_. True)" and "ids_survive txt (e_codec env)"
    and "invar s" and "contents s = Map.empty"
    and "\<forall>req. ok req \<longrightarrow> request_ok txt (e_lib env) req"
    and "call_serves env ok (start_world s) (w, threads)"
    and "CHR ''#'' \<notin> set k" and "i \<in> set (ResponseIDs (stored_refs (e_codec env) (contents (w_cache w)) k))"
  shows "(\<exists>h. i = k @ CHR ''#'' # h \<and> CHR ''#'' \<notin> set h) \<and>
    (\<forall>k'. CHR ''#'' \<notin> set k' \<longrightarrow>
       i \<in> set (ResponseIDs (stored_refs (e_codec env) (contents (w_cache w)) k')) \<longrightarrow> k' = k) \<and>
    (\<forall>job \<in> set (w_pending w). req_Method (job_req job) = ''GET'')"
proof -
  have "world_ok contents invar txt (e_codec env) (start_world s)" using assms(3,4) by (rule empty_world_ok)
  then have "world_ok contents invar txt (e_codec env) w"
    using driver_conn.call_serves_ok [OF assms(1,6) _ refl assms(2,5)] by (simp add: threads_ok_def)
  then show ?thesis using assms(7,8) by (rule world_ok_ids)
qed

theorem single_calls_keep_response_ids_witness:
  "\<exists>w. call_serves (ex_env ''max-age=60'' (Inr (ex_response ''max-age=60''))) (\<lambda>req. req = ex_request ''GET'' []) ex_empty
       (w, []) \<and>
     (\<exists>h. ex_id = ''http://h/a'' @ CHR ''#'' # h) \<and> (\<forall>job \<in> set (w_pending w). req_Method (job_req job) = ''GET'')"
proof -
  let ?cc = "''max-age=60''"
  let ?env = "ex_env ?cc (Inr (ex_response ?cc))" and ?ok = "\<lambda>req. req = ex_request ''GET'' []"
  obtain out w' where rt: "RoundTrip ?env ex_empty (ex_request ''GET'' []) = (out, w')" by fastforce
  have "serves ?env ?ok ex_empty (w', [])"
    by (rule reachable_serves [OF reachable.step [OF reachable.start transport_step.request [OF refl rt]]])
  from serves_call_serves [OF this] have r: "call_serves ?env ?ok ex_empty (w', [])" by simp
  have surv: "ids_survive (\<lambda>i. newline \<notin> set i) (e_codec ?env)" by (simp add: ex_ids_survive)
  have ok: "\<forall>req. ?ok req \<longrightarrow> request_ok (\<lambda>i. newline \<notin> set i) (e_lib ?env) req" by (simp add: ex_request_ok)
  have mem: "ex_id \<in> set (ResponseIDs (stored_refs (e_codec ?env) (mem_store (w_cache w')) ''http://h/a''))"
    using ex_fetch [OF rt] by (simp add: ResponseIDs_def) (simp add: ex_ref_def)
  have nohash: "CHR ''#'' \<notin> set ''http://h/a''" by simp
  from single_calls_keep_response_ids [OF ex_conn surv TrueI _ ok r [unfolded ex_empty_def] nohash mem] r show ?thesis
    by (auto simp: memcache_Open_def)
qed

text \<open>
  C23: The calls of the backend that a round trip makes after the answer of the origin, run without
  a break, give the response and the backend that StoreResponse, InvalidateCache and
  HandleValidationResponse give, the panic on a location included; and every state of the server
  whose steps are whole handlers is a state of the server that interleaves single calls.
\<close>

theorem handlers_are_their_calls:
  assumes "serves env ok w0 (w, flights)"
  shows "call_serves env ok w0 (w, map Flying flights) \<and>
    (\<forall>f p n. end_calls env (w_tick w) f = Some (p, n) \<longrightarrow> advance env w f =
      (Inl (fst (run_calls (e_conn env) p (w_cache w))),
       w\<lparr>w_cache := snd (run_calls (e_conn env) p (w_cache w)), w_tick := n\<rparr>))"
  using serves_call_serves [OF assms] by (auto intro: run_end_calls)

theorem handlers_are_their_calls_witness:
  "\<exists>w p out s. call_serves (ex_env ''max-age=60'' (Inr (ex_response ''max-age=60''))) (\<lambda>_. True) ex_empty
       (w, [Flying (AtMiss (ex_request ''GET'' []) ''http://h/a'' [] (-1))]) \<and>
     end_calls (ex_env ''max-age=60'' (Inr (ex_response ''max-age=60''))) (w_tick w)
       (AtInvalidate (ex_request ''POST'' []) ''http://h/a'' (ex_response [])) = Some (p, w_tick w) \<and>
     run_calls memcache p (w_cache w) = (out, s) \<and>
     fst (advance (ex_env ''max-age=60'' (Inr (ex_response ''max-age=60''))) w
       (AtInvalidate (ex_request ''POST'' []) ''http://h/a'' (ex_response []))) = Inl out"
proof -
  let ?cc = "''max-age=60''"
  let ?env = "ex_env ?cc (Inr (ex_response ?cc))" and ?req = "ex_request ''GET'' []"
  let ?f = "AtInvalidate (ex_request ''POST'' []) ''http://h/a'' (ex_response [])"
  have conn: "e_conn ?env = memcache" by simp
  have k: "Normalize (e_lib ?env) (req_URL ?req) = Some ''http://h/a''" by (simp add: ex_key)
  have empty: "stored_refs (e_codec ?env) (mem_store (w_cache ex_empty)) ''http://h/a'' = []" by (simp add: ex_empty_refs)
  obtain w where "arrive ?env ex_empty ?req = (Some (AtMiss ?req ''http://h/a'' [] (-1)), w)"
    by (rule mem.arrive_miss [OF conn TrueI TrueI k ex_understood empty])
  then have "server_step ?env (\<lambda>_. True) (ex_empty, []) (w, [] @ [AtMiss ?req ''http://h/a'' [] (-1)])"
    by (intro server_step.arrives) simp_all
  then have s: "serves ?env (\<lambda>_. True) ex_empty (w, [AtMiss ?req ''http://h/a'' [] (-1)])"
    using serves.step [OF serves.opened] by simp
  obtain p where p: "end_calls ?env (w_tick w) ?f = Some (p, w_tick w)" by simp
  obtain out t where run: "run_calls memcache p (w_cache w) = (out, t)" by fastforce
  note T = handlers_are_their_calls [OF s]
  from conjunct1 [OF T] have served: "call_serves ?env (\<lambda>_. True) ex_empty (w, [Flying (AtMiss ?req ''http://h/a'' [] (-1))])"
    by simp
  from conjunct2 [OF T, rule_format, OF p] run conn have "fst (advance ?env w ?f) = Inl out" by simp
  with served p run show ?thesis by blast
qed

end
