(* ===== verification/LateStore.thy ===== *)
theory LateStore
  imports Example
begin

text \<open>
  An invalidation that is overtaken. A miss stores the answer it got whenever it gets to it; when an
  unsafe request for the same URL was answered and invalidated the cache in between, the answer from
  before it is in the cache afterwards.
\<close>

context driver_conn
begin

text \<open>What a miss leaves when its answer is stored in a later world.\<close>

lemma store_fetched:
  assumes good: "\<forall>k. good k" and conn: "e_conn env = cache" and inv: "invar (w_cache v)"
    and store: "canStoreResponse (dated_response env w resp) (req_cc req) (resp_cc (dated_response env w resp))"
    and codec: "storable (e_codec env) req2 (fetched_entry env w req k resp)"
      "storable_refs (e_codec env) [fetched_ref env w req k resp]"
    and vary: "response_vary (dated_response env w resp) \<noteq> ''*''"
      "\<forall>h \<in> set (TrimmedCSVCanonical (response_vary (dated_response env w resp))).
         nominated_value (e_lib env) (req_Header req2) h = nominated_value (e_lib env) (req_Header req) h"
    and run: "complete env v (AtStore req k [] (-1) (dated_response env w resp) (e_clk env (w_tick w))
      (e_clk env (Suc (w_tick w)))) = (out, w')"
  shows "w_sent w' = w_sent v"
    and "selects (e_lib env) (e_codec env) (contents (w_cache w')) k req2
      = Some ([fetched_ref env w req k resp], 0, fetched_entry env w req k resp)"
proof -
  let ?d = "dated_response env w resp"
  define S where "S = StoreResponse (e_lib env) (e_codec env) cache (w_cache v) req ?d k []
    (e_clk env (w_tick w)) (e_clk env (Suc (w_tick w))) (-1)"
  have w': "w' = v\<lparr>w_cache := snd (snd S)\<rparr>"
    using run store by (simp add: complete_AtStore Let_def store_response_def S_def conn case_prod_beta)
  then show "w_sent w' = w_sent v" by simp
  have place: "[fetched_ref env w req k resp] = place_ref [] (-1) (fetched_ref env w req k resp)"
    by (simp add: place_ref_def)
  note stored = StoreResponse_stored [OF inv good [rule_format] good [rule_format] fetched_entry_def codec(1)
      place [unfolded fetched_ref_def] codec(2) [unfolded fetched_ref_def], folded S_def fetched_ref_def]
  have "varyHeadersMatchOne (e_lib env) (fetched_ref env w req k resp) (req_Header req2)"
    using vary by (simp add: fetched_ref_def new_ref_match)
  then show "selects (e_lib env) (e_codec env) (contents (w_cache w')) k req2
      = Some ([fetched_ref env w req k resp], 0, fetched_entry env w req k resp)"
    using stored(1) by (simp add: selects_def w' stored(2) VaryHeadersMatch_single)
      (simp add: fetched_ref_def new_ref_def fetched_entry_def new_entry_def)
qed

end

lemma ask_miss_answered:
  assumes "\<not> Req_OnlyIfCached (req_cc req)" "e_upstream env (length (w_sent w)) req = Inr resp"
  shows "ask_miss env w req k refs i =
    (Inr (AtStore req k refs i (dated_response env w resp) (e_clk env (w_tick w)) (e_clk env (Suc (w_tick w)))),
     w\<lparr>w_sent := w_sent w @ [req], w_tick := Suc (Suc (w_tick w))\<rparr>)"
  using assms by (simp add: ask_miss_def roundTripTimed_eq dated_response_def)

subsection \<open>Properties\<close>

text \<open>
  C20: A server that is about to ask the origin for a URL that is not cached can answer an unsafe
  request for the URL before it stores what it got: the invalidation leaves nothing under the URL,
  the answer from before it is stored afterwards, and a later request that matches it selects it
  although no request was sent in between. Nothing in StoreResponse notices that the URL was
  invalidated since the request was sent.
\<close>

theorem overtaken_invalidation_is_undone:
  assumes "driver_conn (e_conn env) contents invar (\<lambda>_. True)" and "invar (w_cache w)"
    and "serves env ok w0 (w, [AtMiss req k [] (-1)])"
    and "\<not> Req_OnlyIfCached (req_cc req)" and "e_upstream env (length (w_sent w)) req = Inr resp"
    and "canStoreResponse (dated_response env w resp) (req_cc req) (resp_cc (dated_response env w resp))"
    and "storable (e_codec env) req2 (fetched_entry env w req k resp)"
    and "storable_refs (e_codec env) [fetched_ref env w req k resp]"
    and "response_vary (dated_response env w resp) \<noteq> ''*''"
    and "\<forall>h \<in> set (TrimmedCSVCanonical (response_vary (dated_response env w resp))).
         nominated_value (e_lib env) (req_Header req2) h = nominated_value (e_lib env) (req_Header req) h"
    and "ok post" and "Normalize (e_lib env) (req_URL post) = Some k" and "IsUnsafeMethod (req_Method post)"
    and "url_Scheme (req_URL post) \<noteq> []"
    and "e_upstream env (Suc (length (w_sent w))) post = Inr answer" and "IsNonErrorStatus (resp_StatusCode answer)"
    and "ids_hashed (e_codec env) (contents (w_cache w))" and "CHR ''#'' \<notin> set k"
    and "\<forall>hdr \<in> set locationHeaders. \<forall>k. location_key (e_lib env) (req_URL post) (resp_Header answer) hdr = Some k \<longrightarrow>
         CHR ''#'' \<notin> set k"
  shows "\<exists>v w'. serves env ok w0
      (v, [AtStore req k [] (-1) (dated_response env w resp) (e_clk env (w_tick w)) (e_clk env (Suc (w_tick w)))]) \<and>
    w_sent v = w_sent w @ [req, post] \<and> contents (w_cache v) k = None \<and>
    serves env ok w0 (w', []) \<and> w_sent w' = w_sent v \<and>
    selects (e_lib env) (e_codec env) (contents (w_cache w')) k req2
      = Some ([fetched_ref env w req k resp], 0, fetched_entry env w req k resp)"
proof -
  let ?f = "AtStore req k [] (-1) (dated_response env w resp) (e_clk env (w_tick w)) (e_clk env (Suc (w_tick w)))"
  define v1 where "v1 = w\<lparr>w_sent := w_sent w @ [req], w_tick := Suc (Suc (w_tick w))\<rparr>"
  have "server_step env ok (w, [AtMiss req k [] (-1)]) (v1, [AtMiss req k [] (-1)][0 := ?f])"
    by (rule server_step.advances) (simp_all add: ask_miss_answered [OF assms(4,5)] v1_def)
  then have s1: "serves env ok w0 (v1, [?f])" using serves.step [OF assms(3)] by simp
  have nu: "\<not> isRequestMethodUnderstood post" using assms(13) by (auto simp: IsUnsafeMethod_def isRequestMethodUnderstood_def)
  have "arrive env v1 post = (Some (AtBypass post k), v1)" using assms(12) nu by (simp add: arrive_def)
  with assms(11) have "server_step env ok (v1, [?f]) (v1, [?f] @ [AtBypass post k])" by (intro server_step.arrives)
  from serves.step [OF s1 this] have s2: "serves env ok w0 (v1, [?f] @ [AtBypass post k])" .
  obtain out v where rt: "RoundTrip env v1 post = (out, v)" by fastforce
  then have h: "handleUnrecognizedMethod env v1 post k = (out, v)" using assms(12) nu by (simp add: RoundTrip_def)
  have up: "e_upstream env (length (w_sent v1)) post = Inr answer" using assms(15) by (simp add: v1_def)
  obtain r where r: "out = Responded r"
    using RoundTrip_no_panic [OF rt assms(14)] handleUnrecognizedMethod_world(4) [OF h] up by auto
  note U = driver_conn.unsafe_invalidates [OF assms(1) refl _ assms(12,13) up assms(16) TrueI _ _ assms(18,19) rt [unfolded r]]
  have v: "invar (w_cache v)" "contents (w_cache v) k = None" "w_sent v = w_sent w @ [req, post]"
    using U(1,2,8) assms(2,17) by (simp_all add: v1_def)
  have s3: "serves env ok w0 (v, [?f])" using serves_complete [OF s2, of out v] h by (simp add: complete_AtBypass)
  obtain o2 w' where run: "complete env v ?f = (o2, w')" by fastforce
  have s4: "serves env ok w0 (w', [])" using serves_complete [of env ok w0 v "[]" ?f] s3 run by simp
  note F = driver_conn.store_fetched [OF assms(1) _ refl v(1) assms(6-10) run]
  show ?thesis by (intro exI [of _ v] exI [of _ w'] conjI) (use s3 v(2,3) s4 F in simp_all)
qed

theorem overtaken_invalidation_is_undone_witness:
  "\<exists>w v w'. serves (ex_env ''max-age=60'' (Inr (ex_response ''max-age=60''))) (\<lambda>_. True) ex_empty
       (w, [AtMiss (ex_request ''GET'' []) ''http://h/a'' [] (-1)]) \<and>
     (\<exists>f. serves (ex_env ''max-age=60'' (Inr (ex_response ''max-age=60''))) (\<lambda>_. True) ex_empty (v, [f])) \<and>
     w_sent v = [ex_request ''GET'' [], ex_request ''POST'' []] \<and> mem_store (w_cache v) ''http://h/a'' = None \<and>
     serves (ex_env ''max-age=60'' (Inr (ex_response ''max-age=60''))) (\<lambda>_. True) ex_empty (w', []) \<and>
     selects ex_lib (ex_codec ''max-age=60'') (mem_store (w_cache w')) ''http://h/a'' (ex_request ''GET'' [])
       = Some ([ex_ref ex_id], 0, ex_entry ''max-age=60'')"
proof -
  let ?cc = "''max-age=60''"
  let ?env = "ex_env ?cc (Inr (ex_response ?cc))" and ?req = "ex_request ''GET'' []" and ?post = "ex_request ''POST'' []"
  have conn: "e_conn ?env = memcache" by simp
  have k: "Normalize (e_lib ?env) (req_URL ?req) = Some ''http://h/a''" by (simp add: ex_key)
  have empty: "stored_refs (e_codec ?env) (mem_store (w_cache ex_empty)) ''http://h/a'' = []" by (simp add: ex_empty_refs)
  obtain w where w: "arrive ?env ex_empty ?req = (Some (AtMiss ?req ''http://h/a'' [] (-1)), w)"
    "mem_store (w_cache w) = mem_store (w_cache ex_empty)" "w_tick w = w_tick ex_empty" "w_sent w = w_sent ex_empty"
    by (rule mem.arrive_miss [OF conn TrueI TrueI k ex_understood empty])
  then have "server_step ?env (\<lambda>_. True) (ex_empty, []) (w, [] @ [AtMiss ?req ''http://h/a'' [] (-1)])"
    by (intro server_step.arrives) simp_all
  then have s: "serves ?env (\<lambda>_. True) ex_empty (w, [AtMiss ?req ''http://h/a'' [] (-1)])"
    using serves.step [OF serves.opened] by simp
  have same: "dated_response ?env w (ex_response ?cc) = ex_response ?cc"
    "fetched_entry ?env w ?req ''http://h/a'' (ex_response ?cc) = ex_entry ?cc"
    "fetched_ref ?env w ?req ''http://h/a'' (ex_response ?cc) = ex_ref ex_id"
    using ex_dated [of ?cc] ex_fetched [of ?cc]
    by (simp_all add: dated_response_def fetched_entry_def fetched_ref_def w(3))
  have noloc: "location_key ex_lib u (resp_Header (ex_response c)) hdr = None" if "hdr \<in> set locationHeaders" for hdr u c
    using that by (auto simp: locationHeaders_def location_key_def ex_response_def ex_header_def Header_Get_def
        Header_Values_def header_values_def)
  have hyps: "\<not> Req_OnlyIfCached (req_cc ?req)" "IsUnsafeMethod ''POST''" "IsNonErrorStatus (resp_StatusCode (ex_response ?cc))"
    "url_Scheme (ex_url ''/a'') \<noteq> []" "CHR ''#'' \<notin> set ''http://h/a''"
    by (simp_all add: Req_OnlyIfCached_def hasToken_def IsUnsafeMethod_def IsNonErrorStatus_def ex_response_def ex_url_def)
  have hashed: "ids_hashed (ex_codec ?cc) (mem_store (w_cache w))"
    by (simp add: w(2) ids_hashed_def ex_empty_refs ResponseIDs_def)
  have sent: "w_sent w = []" using w(4) by (simp add: ex_empty_def start_world_def)
  have "\<exists>v w'. (\<exists>f. serves ?env (\<lambda>_. True) ex_empty (v, [f])) \<and> w_sent v = [?req, ?post] \<and> mem_store (w_cache v) ''http://h/a'' = None \<and>
      serves ?env (\<lambda>_. True) ex_empty (w', []) \<and>
      selects ex_lib (ex_codec ?cc) (mem_store (w_cache w')) ''http://h/a'' ?req = Some ([ex_ref ex_id], 0, ex_entry ?cc)"
    using overtaken_invalidation_is_undone [OF ex_conn TrueI s hyps(1), of "ex_response ?cc" ?req ?post "ex_response ?cc"]
      hyps(2-5) hashed noloc ex_cacheable ex_storable [of ?cc ?req] ex_storable_refs [of ?cc]
    by (simp add: same ex_vary ex_key TrimmedCSVCanonical_def TrimmedCSV_def sent) blast
  with s show ?thesis by blast
qed

end
