(* ===== verification/References.thy ===== *)
theory References
  imports Example
begin

text \<open>
  References do not dangle. An entry is written before the reference to it, and deleted together with
  the references that name it; so while round trips and background revalidations run one at a time,
  every reference in the cache has its entry.
\<close>

subsection \<open>The invariant\<close>

definition no_dangling :: "codec \<Rightarrow> (string \<rightharpoonup> bytes) \<Rightarrow> bool" where
  "no_dangling cd m \<longleftrightarrow>
     (\<forall>k. CHR ''#'' \<notin> set k \<longrightarrow> (\<forall>i \<in> set (ResponseIDs (stored_refs cd m k)). m i \<noteq> None))"

text \<open>What the library can dump, it stores: \<open>httputil.DumpResponse\<close> never fails.\<close>

definition dumps_all :: "codec \<Rightarrow> bool" where
  "dumps_all cd \<longleftrightarrow> (\<forall>r. cd_DumpResponse cd r \<noteq> None)"

text \<open>The URL keys that the location headers of the origin's answers name have no hash sign.\<close>

definition locations_plain :: "'s env \<Rightarrow> bool" where
  "locations_plain env \<longleftrightarrow>
     (\<forall>n req resp hdr k. e_upstream env n req = Inr resp \<longrightarrow> hdr \<in> set locationHeaders \<longrightarrow>
        location_key (e_lib env) (req_URL req) (resp_Header resp) hdr = Some k \<longrightarrow> CHR ''#'' \<notin> set k)"

lemma id_of_hash: "id_of txt k i \<Longrightarrow> CHR ''#'' \<in> set i"
  by (auto simp: id_of_def)

lemma id_of_unique: "id_of txt k i \<Longrightarrow> id_of txt j i \<Longrightarrow> CHR ''#'' \<notin> set k \<Longrightarrow> CHR ''#'' \<notin> set j \<Longrightarrow> j = k"
  unfolding id_of_def using no_hash_suffix by metis

lemma own_idsD: "own_ids txt cd m \<Longrightarrow> CHR ''#'' \<notin> set k \<Longrightarrow> i \<in> set (ResponseIDs (stored_refs cd m k)) \<Longrightarrow> id_of txt k i"
  by (simp add: own_ids_def)

lemma no_danglingD: "no_dangling cd m \<Longrightarrow> CHR ''#'' \<notin> set k \<Longrightarrow> i \<in> set (ResponseIDs (stored_refs cd m k)) \<Longrightarrow> m i \<noteq> None"
  by (simp add: no_dangling_def)

text \<open>Entries may be written at any time; references only where they name what is there.\<close>

lemma no_dangling_entry:
  assumes "no_dangling cd m" "CHR ''#'' \<in> set i"
  shows "no_dangling cd (m(i \<mapsto> d))"
  unfolding no_dangling_def
proof (intro allI impI ballI)
  fix k j
  assume k: "CHR ''#'' \<notin> set k" and j: "j \<in> set (ResponseIDs (stored_refs cd (m(i \<mapsto> d)) k))"
  have "stored_refs cd (m(i \<mapsto> d)) k = stored_refs cd m k" using assms(2) k by (intro stored_refs_cong) auto
  then show "(m(i \<mapsto> d)) j \<noteq> None" using no_danglingD [OF assms(1) k] j by auto
qed

lemma no_dangling_refs:
  assumes "no_dangling cd m" "ids_survive txt cd" "cd_MarshalRefs cd refs = Some d"
    "\<forall>i \<in> set (ResponseIDs refs). txt i \<and> m i \<noteq> None"
  shows "no_dangling cd (m(k \<mapsto> d))"
  unfolding no_dangling_def
proof (intro allI impI ballI)
  fix j i
  assume j: "CHR ''#'' \<notin> set j" and i: "i \<in> set (ResponseIDs (stored_refs cd (m(k \<mapsto> d)) j))"
  have "m i \<noteq> None"
  proof (cases "j = k")
    case True
    then obtain refs' where "cd_UnmarshalRefs cd d = Some refs'" "i \<in> set (ResponseIDs refs')"
      using i by (cases "cd_UnmarshalRefs cd d") (auto simp: stored_refs_def ResponseIDs_def)
    then have "i \<in> set (ResponseIDs refs)" using assms(2-4) unfolding ids_survive_def by metis
    then show ?thesis using assms(4) by blast
  next
    case False
    then have "stored_refs cd (m(k \<mapsto> d)) j = stored_refs cd m j" by (intro stored_refs_cong) simp
    then show ?thesis using no_danglingD [OF assms(1) j] i by simp
  qed
  then show "(m(k \<mapsto> d)) i \<noteq> None" by simp
qed

subsection \<open>Storing, validating and invalidating\<close>

lemma selects_refs: "selects lib cd m k req = Some (refs, i, e) \<Longrightarrow> set refs \<subseteq> set (stored_refs cd m k)"
  using VaryHeadersMatch_sorted [of lib "stored_refs cd m k" "req_Header req"] vm.set_SortFunc
  by (auto simp: selects_def split: prod.splits option.splits)

context driver_conn
begin

lemma StoreResponse_no_dangling:
  assumes "\<forall>k. good k" "invar s" "no_dangling cd (contents s)" "ids_survive txt cd" "dumps_all cd" "key_ok txt k"
    and refs: "\<forall>i \<in> set (ResponseIDs refs). txt i \<and> contents s i \<noteq> None"
    and s'_def: "s' = snd (snd (StoreResponse lib cd cache s req resp k refs rq rs i))"
  shows "no_dangling cd (contents s')"
proof -
  let ?e = "new_entry lib req resp k rq rs" and ?r = "new_ref lib req resp k rq rs"
  define s1 where "s1 = snd (rc_Set cd cache s (ent_ID ?e) ?e)"
  have id: "CHR ''#'' \<in> set (ent_ID ?e)" "ref_ResponseID ?r = ent_ID ?e" "txt (ent_ID ?e)"
    using assms(6) makeVaryKey_hash by (simp_all add: new_entry_def new_ref_def key_ok_def)
  obtain d where d: "MarshalBinary cd ?e = Some d"
    using assms(5) unfolding dumps_all_def MarshalBinary_def by (metis not_None_eq option.case(2))
  have s1: "invar s1" "contents s1 = (contents s)(ent_ID ?e \<mapsto> d)"
    using assms(1,2) d by (simp_all add: s1_def rc_specs)
  have nd: "no_dangling cd (contents s1)" unfolding s1(2) by (rule no_dangling_entry [OF assms(3) id(1)])
  have place: "\<forall>j \<in> set (ResponseIDs (place_ref refs i ?r)). txt j \<and> contents s1 j \<noteq> None"
    using set_place_ref [of refs i ?r] refs id(2,3) s1(2) by (auto simp: ResponseIDs_def)
  have s': "s' = snd (rc_SetRefs cd cache s1 k (place_ref refs i ?r))"
    by (simp add: s'_def StoreResponse_alt Let_def s1_def)
  show ?thesis using nd s1(1) assms(1) no_dangling_refs [OF nd assms(4) _ place]
    by (auto simp: s' rc_specs split: option.split)
qed

text \<open>An invalidation removes the references that name a removed entry, since no others do.\<close>

lemma InvalidateCache_no_dangling:
  assumes "\<forall>k. good k" "invar s" "InvalidateCache lib cd cache s u h refs key = (False, s')"
    and own: "own_ids txt cd (contents s)" and nd: "no_dangling cd (contents s)"
    and refs: "refs = stored_refs cd (contents s) key" and key: "CHR ''#'' \<notin> set key"
    and loc: "\<forall>hdr \<in> set locationHeaders. \<forall>k. location_key lib u h hdr = Some k \<longrightarrow> CHR ''#'' \<notin> set k"
  shows "no_dangling cd (contents s')"
  unfolding no_dangling_def
proof (intro allI impI ballI)
  fix j i
  assume j: "CHR ''#'' \<notin> set j" and i: "i \<in> set (ResponseIDs (stored_refs cd (contents s') j))"
  have hashed: "ids_hashed cd (contents s)" "\<forall>i \<in> set (ResponseIDs refs). CHR ''#'' \<in> set i"
    using own_idsD [OF own] key id_of_hash unfolding ids_hashed_def refs by blast+
  note I = InvalidateCache_contents [OF assms(2,3) _ hashed loc]
  have shrunk: "contents s' \<subseteq>\<^sub>m contents s" by (rule InvalidateCache_shrinks [OF assms(1-3)])
  have "contents s' j \<noteq> None" using i by (cases "contents s' j") (auto simp: stored_refs_def ResponseIDs_def)
  moreover from this have "contents s' j = contents s j" using shrunk by (auto simp: map_le_def dom_def)
  ultimately have ij: "i \<in> set (ResponseIDs (stored_refs cd (contents s) j))" and kept: "contents s' j \<noteq> None"
    using i stored_refs_cong [of "contents s'" j "contents s" cd] by simp_all
  have own_i: "id_of txt j i" by (rule own_idsD [OF own j ij])
  have "i \<notin> invalidation_keys lib cd (contents s) u h refs key"
  proof
    assume "i \<in> invalidation_keys lib cd (contents s) u h refs key"
    then consider "i = key" | "i \<in> set (ResponseIDs refs)"
      | hdr k where "hdr \<in> set locationHeaders" "location_key lib u h hdr = Some k"
          "i = k \<or> i \<in> set (ResponseIDs (stored_refs cd (contents s) k))"
      by (auto simp: invalidation_keys_def split: option.splits)
    then show False
    proof cases
      case 1
      then show ?thesis using id_of_hash [OF own_i] key by simp
    next
      case 2
      then have "j = key" using id_of_unique [OF own_idsD [OF own key] own_i key j] by (simp add: refs)
      then show ?thesis using kept I(2) assms(1) by auto
    next
      case (3 hdr k)
      then have k: "CHR ''#'' \<notin> set k" "i \<in> set (ResponseIDs (stored_refs cd (contents s) k))"
        using loc id_of_hash [OF own_i] by auto
      then have "j = k" using id_of_unique [OF own_idsD [OF own k] own_i k(1) j] by blast
      then show ?thesis using kept I(3) [OF _ 3(1,2)] assms(1) by auto
    qed
  qed
  then have "contents s' i = contents s i" using I(5) assms(1) by blast
  then show "contents s' i \<noteq> None" using no_danglingD [OF nd j ij] by simp
qed

text \<open>What storing needs of the references it was given: they are of this URL and name what is stored.\<close>

definition refs_present :: "(string \<Rightarrow> bool) \<Rightarrow> (string \<rightharpoonup> bytes) \<Rightarrow> ResponseRefs \<Rightarrow> bool" where
  "refs_present txt m refs \<longleftrightarrow> (\<forall>i \<in> set (ResponseIDs refs). txt i \<and> m i \<noteq> None)"

lemma refs_present_stored:
  assumes "own_ids txt cd m" "no_dangling cd m" "CHR ''#'' \<notin> set k" "set refs \<subseteq> set (stored_refs cd m k)"
  shows "refs_present txt m refs"
proof -
  have "set (ResponseIDs refs) \<subseteq> set (ResponseIDs (stored_refs cd m k))" using assms(4) by (auto simp: ResponseIDs_def)
  then show ?thesis using own_idsD [OF assms(1,3)] no_danglingD [OF assms(2,3)]
    unfolding refs_present_def id_of_def by blast
qed

lemma store_response_no_dangling:
  assumes "\<forall>k. good k" "e_conn env = cache" "invar (w_cache w)" "no_dangling (e_codec env) (contents (w_cache w))"
    "ids_survive txt (e_codec env)" "dumps_all (e_codec env)" "key_ok txt k" "refs_present txt (contents (w_cache w)) refs"
  shows "no_dangling (e_codec env) (contents (w_cache (snd (store_response env w req resp k refs rq rs i))))"
  using StoreResponse_no_dangling [OF assms(1,3-7) _ refl] assms(2,8)
  by (simp add: store_response_def case_prod_beta refs_present_def)

lemma HandleValidationResponse_no_dangling:
  assumes "\<forall>k. good k" "e_conn env = cache" "invar (w_cache w)" "no_dangling (e_codec env) (contents (w_cache w))"
    "ids_survive txt (e_codec env)" "dumps_all (e_codec env)" "key_ok txt (rv_URLKey ctx)"
    "refs_present txt (contents (w_cache w)) (rv_Refs ctx)" "req_Method req = ''GET''"
    and res: "HandleValidationResponse env ctx req resp w = (out, w')"
  shows "no_dangling (e_codec env) (contents (w_cache w'))"
proof -
  have store: "no_dangling (e_codec env)
      (contents (w_cache (snd (store_response env w1 rq r (rv_URLKey ctx) (rv_Refs ctx) a b i))))"
    if "w_cache w1 = w_cache w" for w1 rq r a b i
    using store_response_no_dangling [OF assms(1,2) _ _ assms(5-7), of w1] assms(3,4,8) that by simp
  have get: "\<not> IsUnsafeMethod (req_Method req)" using assms(9) by (simp add: IsUnsafeMethod_def)
  show ?thesis using res assms(4) store get unfolding HandleValidationResponse_def Let_def
    by (auto simp: case_prod_beta split: if_splits)
qed

lemma handleCacheMiss_no_dangling:
  assumes "\<forall>k. good k" "e_conn env = cache" "invar (w_cache w)" "no_dangling (e_codec env) (contents (w_cache w))"
    "ids_survive txt (e_codec env)" "dumps_all (e_codec env)" "key_ok txt k" "refs_present txt (contents (w_cache w)) refs"
    and res: "handleCacheMiss env w req k refs i = (out, w')"
  shows "no_dangling (e_codec env) (contents (w_cache w'))"
proof -
  have store: "no_dangling (e_codec env) (contents (w_cache (snd (store_response env w1 rq r k refs a b j))))"
    if "w_cache w1 = w_cache w" for w1 rq r a b j
    using store_response_no_dangling [OF assms(1,2) _ _ assms(5-7), of w1] assms(3,4,8) that by simp
  show ?thesis using res assms(4) store unfolding handleCacheMiss_def roundTripTimed_eq Let_def
    by (auto simp: case_prod_beta split: if_splits sum.splits)
qed

lemma handleCacheHit_no_dangling:
  assumes "\<forall>k. good k" "e_conn env = cache" "invar (w_cache w)" "no_dangling (e_codec env) (contents (w_cache w))"
    "ids_survive txt (e_codec env)" "dumps_all (e_codec env)" "key_ok txt k" "refs_present txt (contents (w_cache w)) refs"
    "req_Method req = ''GET''"
    and res: "handleCacheHit env w req e k refs i = (out, w')"
  shows "no_dangling (e_codec env) (contents (w_cache w'))"
  using res
proof (cases rule: handleCacheHit_cases)
  case (serve w1)
  then show ?thesis using serveFromCache_world [OF serve(5)] assms(4) by simp
next
  case (stale w1)
  then show ?thesis using handleStaleWhileRevalidate_world [OF stale(6)] assms(4) by simp
next
  case (ask w1)
  have get: "req_Method (withConditionalHeaders req h) = ''GET''" for h
    using assms(9) by simp
  have hvr: "no_dangling (e_codec env) (contents (w_cache w'))"
    if "HandleValidationResponse env ctx (withConditionalHeaders req h) resp v = (out, w')" "w_cache v = w_cache w"
      "rv_URLKey ctx = k" "rv_Refs ctx = refs" for ctx h resp v
    using HandleValidationResponse_no_dangling [OF assms(1,2) _ _ assms(5,6) _ _ get that(1)] assms(3,4,7,8) that by simp
  show ?thesis using ask(4,6) assms(4) unfolding revalidate_def roundTripTimed_eq Let_def
    by (auto split: sum.splits intro: hvr)
qed

lemma handleUnrecognizedMethod_no_dangling:
  assumes "\<forall>k. good k" "e_conn env = cache" "invar (w_cache w)" "no_dangling (e_codec env) (contents (w_cache w))"
    "own_ids txt (e_codec env) (contents (w_cache w))" "CHR ''#'' \<notin> set k" "locations_plain env"
    "url_Scheme (req_URL req) \<noteq> []"
    and res: "handleUnrecognizedMethod env w req k = (out, w')"
  shows "no_dangling (e_codec env) (contents (w_cache w'))"
proof -
  obtain r s where r: "rc_GetRefs (e_codec env) cache (w_cache w) k = (r, s)" by fastforce
  have s: "refs_or_nil r = stored_refs (e_codec env) (contents s) k" "contents s = contents (w_cache w)" "invar s"
    using rc_GetRefs_result [OF assms(3), of k "e_codec env"] r assms(1) by simp_all
  have nd: "no_dangling (e_codec env) (contents s')"
    if "InvalidateCache (e_lib env) (e_codec env) cache s (req_URL req) (resp_Header resp) (refs_or_nil r) k = (b, s')"
      "e_upstream env (length (w_sent w)) req = Inr resp" for s' resp b
  proof -
    have b: "refs_or_nil r = stored_refs (e_codec env) (contents s) k" using s(1,2) by simp
    have "b = False"
      using InvalidateCache_total [OF assms(8), of "e_lib env" "e_codec env" cache s "resp_Header resp" "refs_or_nil r" k] that(1)
      by simp
    show ?thesis
      using InvalidateCache_no_dangling [OF assms(1) s(3) that(1) [unfolded \<open>b = False\<close>] _ _ b assms(6)] that(2) assms(4,5,7) s(2)
      unfolding locations_plain_def by simp
  qed
  show ?thesis using res assms(4) s(2) r nd
    unfolding handleUnrecognizedMethod_def upstream_RoundTrip_def Let_def prod.case assms(2)
    by (auto split: sum.splits if_splits prod.splits)
qed

lemma RoundTrip_no_dangling:
  assumes good: "\<forall>k. good k" and conn: "e_conn env = cache" and cd: "ids_survive txt (e_codec env)" "dumps_all (e_codec env)"
    and loc: "locations_plain env" and req: "request_ok txt (e_lib env) req" "url_Scheme (req_URL req) \<noteq> []"
    and ok: "world_ok contents invar txt (e_codec env) w" and nd: "no_dangling (e_codec env) (contents (w_cache w))"
    and rt: "RoundTrip env w req = (out, w')"
  shows "no_dangling (e_codec env) (contents (w_cache w'))"
proof (cases "Normalize (e_lib env) (req_URL req)")
  case None
  then show ?thesis using rt nd by (simp add: RoundTrip_def)
next
  case (Some k)
  have inv: "invar (w_cache w)" and own: "own_ids txt (e_codec env) (contents (w_cache w))" using ok by (simp_all add: world_ok_def)
  have key: "key_ok txt k" "CHR ''#'' \<notin> set k" using req(1) Some by (simp_all add: request_ok_def key_ok_def)
  show ?thesis
  proof (cases "isRequestMethodUnderstood req")
    case False
    then have "handleUnrecognizedMethod env w req k = (out, w')" using rt Some by (simp add: RoundTrip_def)
    then show ?thesis by (rule handleUnrecognizedMethod_no_dangling [OF good conn inv nd own key(2) loc req(2)])
  next
    case True
    let ?m = "contents (w_cache w)"
    have rg: "reads_good good (e_codec env) ?m k" using good by (simp add: reads_good_def)
    obtain w1 where w1: "contents (w_cache w1) = ?m" "invar (w_cache w1)"
      and sel: "case selects (e_lib env) (e_codec env) ?m k req of
         Some (refs, i, e) \<Rightarrow> RoundTrip env w req = handleCacheHit env w1 req e k refs i
       | None \<Rightarrow> \<exists>refs i. RoundTrip env w req = handleCacheMiss env w1 req k refs i \<and>
           set refs \<subseteq> set (stored_refs (e_codec env) ?m k)"
      by (rule RoundTrip_selects [OF conn inv Some True rg])
    have nd1: "no_dangling (e_codec env) (contents (w_cache w1))" using nd w1 by simp
    have present: "refs_present txt (contents (w_cache w1)) refs" if "set refs \<subseteq> set (stored_refs (e_codec env) ?m k)" for refs
      using refs_present_stored [OF own nd key(2) that] w1 by simp
    show ?thesis
    proof (cases "selects (e_lib env) (e_codec env) ?m k req")
      case None
      then obtain refs i where "handleCacheMiss env w1 req k refs i = (out, w')"
        "set refs \<subseteq> set (stored_refs (e_codec env) ?m k)" using sel rt by auto
      then show ?thesis
        using handleCacheMiss_no_dangling [OF good conn w1(2) nd1 cd key(1) present] by blast
    next
      case (Some x)
      obtain refs i e where x: "x = (refs, i, e)" by (cases x)
      have "handleCacheHit env w1 req e k refs i = (out, w')" using sel rt Some x by simp
      moreover have "set refs \<subseteq> set (stored_refs (e_codec env) ?m k)"
        using selects_refs [OF Some [unfolded x]] .
      moreover have "req_Method req = ''GET''" using True by (simp add: isRequestMethodUnderstood_def)
      ultimately show ?thesis using handleCacheHit_no_dangling [OF good conn w1(2) nd1 cd key(1) present] by blast
    qed
  qed
qed

lemma backgroundRevalidate_no_dangling:
  assumes good: "\<forall>k. good k" and conn: "e_conn env = cache" and cd: "ids_survive txt (e_codec env)" "dumps_all (e_codec env)"
    and "invar (w_cache w)" "no_dangling (e_codec env) (contents (w_cache w))" and job: "job_ok txt job"
  shows "no_dangling (e_codec env) (contents (w_cache (backgroundRevalidate env w job expired consumed)))"
proof -
  have hvr: "no_dangling (e_codec env) (contents (w_cache (snd (HandleValidationResponse env ctx (job_req job) resp v))))"
    if "w_cache v = w_cache w" "rv_URLKey ctx = job_urlKey job" "rv_Refs ctx = []" for ctx resp v
    using HandleValidationResponse_no_dangling [OF good conn _ _ cd, of v ctx "job_req job" resp] assms(5-7) that
    by (cases "HandleValidationResponse env ctx (job_req job) resp v")
      (auto simp: job_ok_def refs_present_def ResponseIDs_def)
  show ?thesis using assms(6) unfolding backgroundRevalidate_def roundTripTimed_eq Let_def prod.case
    by (auto split: sum.split intro!: hvr)
qed

lemma reachable_no_dangling:
  assumes good: "\<forall>k. good k" and conn: "e_conn env = cache" and cd: "ids_survive txt (e_codec env)" "dumps_all (e_codec env)"
    and loc: "locations_plain env" and req: "\<forall>req. ok req \<longrightarrow> request_ok txt (e_lib env) req \<and> url_Scheme (req_URL req) \<noteq> []"
    and start: "world_ok contents invar txt (e_codec env) w0" "no_dangling (e_codec env) (contents (w_cache w0))"
    and "reachable env ok w0 w"
  shows "no_dangling (e_codec env) (contents (w_cache w))"
  using assms(9)
proof (induction rule: reachable.induct)
  case start
  show ?case by (rule assms(8))
next
  case (step w w')
  have ok: "world_ok contents invar txt (e_codec env) w"
    using serves_ok [OF reachable_serves [OF step.hyps(1)] good conn cd(1) _ start(1)] req by (simp add: server_ok_def)
  from step.hyps(2) show ?case
  proof (cases rule: transport_step.cases)
    case (request rq out)
    then show ?thesis using RoundTrip_no_dangling [OF good conn cd loc _ _ ok step.IH] req by blast
  next
    case (background i expired consumed)
    have "job_ok txt (w_pending w ! i)" "invar (w_cache w)" using ok background(1) by (simp_all add: world_ok_def)
    then show ?thesis unfolding background(2) using step.IH by (intro backgroundRevalidate_no_dangling [OF good conn cd]) simp_all
  qed
qed

end

subsection \<open>Properties\<close>

text \<open>
  C6: In every state that a transport reaches from an empty backend by serving one request after
  another, with background revalidations running between them, every response a stored reference
  names is in the cache: storing writes the entry before the references, and an invalidation that
  deletes an entry deletes the references of its URL too. The backend takes every key and every
  response can be dumped, the response IDs survive the encoding of the references, and the URLs of
  the requests have a scheme: without one an invalidation may panic half-way.
\<close>

theorem references_do_not_dangle:
  assumes "driver_conn (e_conn env) contents invar (\<lambda>_. True)"
    and "ids_survive txt (e_codec env)" and "dumps_all (e_codec env)" and "locations_plain env"
    and "invar s" and "contents s = Map.empty" and "\<forall>req. ok req \<longrightarrow> request_ok txt (e_lib env) req \<and> url_Scheme (req_URL req) \<noteq> []"
    and "reachable env ok (start_world s) w"
    and "CHR ''#'' \<notin> set k" and "i \<in> set (ResponseIDs (stored_refs (e_codec env) (contents (w_cache w)) k))"
  shows "contents (w_cache w) i \<noteq> None"
proof -
  have "own_ids txt (e_codec env) Map.empty" "no_dangling (e_codec env) Map.empty"
    by (simp_all add: own_ids_def no_dangling_def stored_refs_def ResponseIDs_def)
  then have "world_ok contents invar txt (e_codec env) (start_world s)"
    "no_dangling (e_codec env) (contents (w_cache (start_world s)))"
    using assms(5,6) by (simp_all add: world_ok_def start_world_def)
  from driver_conn.reachable_no_dangling [OF assms(1) _ refl assms(2-4,7) this assms(8)]
  show ?thesis using no_danglingD assms(9,10) by blast
qed

theorem references_do_not_dangle_witness:
  "\<exists>w. reachable (ex_env ''max-age=60'' (Inr (ex_response ''max-age=60''))) (\<lambda>req. req = ex_request ''GET'' []) ex_empty w \<and>
     stored_refs (ex_codec ''max-age=60'') (mem_store (w_cache w)) ''http://h/a'' = [ex_ref ex_id] \<and>
     mem_store (w_cache w) ex_id \<noteq> None"
proof -
  let ?cc = "''max-age=60''"
  let ?env = "ex_env ?cc (Inr (ex_response ?cc))" and ?ok = "\<lambda>req. req = ex_request ''GET'' []"
  obtain out w' where rt: "RoundTrip ?env ex_empty (ex_request ''GET'' []) = (out, w')" by fastforce
  have r: "reachable ?env ?ok ex_empty w'"
    by (rule reachable.step [OF reachable.start transport_step.request [OF refl rt]])
  have surv: "ids_survive (\<lambda>i. newline \<notin> set i) (e_codec ?env)" by (simp add: ex_ids_survive)
  have dump: "dumps_all (e_codec ?env)" by (simp add: dumps_all_def ex_codec_def)
  have loc: "locations_plain ?env"
    by (auto simp: locations_plain_def locationHeaders_def location_key_def ex_response_def ex_header_def Header_Get_def
        Header_Values_def header_values_def)
  have ok: "\<forall>req. ?ok req \<longrightarrow> request_ok (\<lambda>i. newline \<notin> set i) (e_lib ?env) req \<and> url_Scheme (req_URL req) \<noteq> []"
    using ex_request_ok [of "''GET''" "[]"] by simp (simp add: ex_request_def ex_url_def)
  have refs: "stored_refs (e_codec ?env) (mem_store (w_cache w')) ''http://h/a'' = [ex_ref ex_id]"
    using ex_fetch [OF rt] by simp
  have mem: "ex_id \<in> set (ResponseIDs (stored_refs (e_codec ?env) (mem_store (w_cache w')) ''http://h/a''))"
    unfolding refs by (simp add: ResponseIDs_def ex_ref_def)
  have nohash: "CHR ''#'' \<notin> set ''http://h/a''" by simp
  from references_do_not_dangle [OF ex_conn surv dump loc TrueI _ ok r [unfolded ex_empty_def] nohash mem] r refs
  show ?thesis by (auto simp: memcache_Open_def)
qed

end
