(* ===== verification/Drain.thy ===== *)
theory Drain
  imports Concurrent Example
begin

text \<open>
  Why a server comes to rest. Every round trip and every background job has a weight that bounds the
  steps it may still cause, the job that a hit may queue included; a step other than an arrival
  lowers the sum of the weights. So there is no livelock in any schedule, and a server that nobody
  asks any more stops with no round trip in flight and no job left.
\<close>

subsection \<open>The weight of what is in flight\<close>

fun flight_weight :: "flight \<Rightarrow> nat" where
  "flight_weight (AtFetch _ _ _ _) = 4"
| "flight_weight (AtHit _ _ _ _ _) = 3"
| "flight_weight (AtMiss _ _ _ _) = 2"
| "flight_weight (AtBypass _ _) = 2"
| "flight_weight _ = 1"

definition work :: "'s world \<times> flight list \<Rightarrow> nat" where
  "work c = sum_list (map flight_weight (snd c)) + 2 * length (w_pending (fst c))"

lemma flight_weight_bounds: "1 \<le> flight_weight f" "flight_weight f \<le> 4"
  by (cases f; simp)+

lemma steps_left_weight: "steps_left f = 0 \<Longrightarrow> flight_weight f = 1"
  by (cases f) simp_all

lemmas ask_weights = ask_steps [THEN steps_left_weight]

lemma ask_hit_drains:
  assumes "ask_hit env w req e k refs i = (r, w')"
  shows "case r of Inl out \<Rightarrow> length (w_pending w') \<le> Suc (length (w_pending w))
    | Inr f \<Rightarrow> steps_left f = 0 \<and> w_pending w' = w_pending w"
proof (cases r)
  case (Inl out)
  then show ?thesis using ask_hit_world(2) [OF assms] by auto
next
  case (Inr f)
  have swr: "swr_window env (w\<lparr>w_tick := n\<rparr>) fr cc = (b, v) \<Longrightarrow> w_pending v = w_pending w" for n fr cc b v
    using swr_window_world by fastforce
  have rev: "ask_revalidate env v req e k refs i fr cc = (Inr f, w') \<Longrightarrow> w_pending w' = w_pending v" for v fr cc
    by (simp add: ask_world(3))
  have "w_pending w' = w_pending w"
    using assms Inr
    by (auto simp: ask_hit_def Let_def apfst_def map_prod_def dest!: rev swr split: prod.splits if_splits)
  then show ?thesis using ask_hit_steps assms Inr by auto
qed
lemma advance_drains:
  assumes "advance env w f = (r, w')"
  shows "case r of Inl out \<Rightarrow> 2 * length (w_pending w') < flight_weight f + 2 * length (w_pending w)
    | Inr f' \<Rightarrow> flight_weight f' < flight_weight f \<and> w_pending w' = w_pending w"
proof (cases f)
  case (AtHit req e k refs i)
  then show ?thesis using ask_hit_drains [of env w req e k refs i r w'] assms
    by (auto simp: steps_left_weight split: sum.splits)
next
  case (AtBypass req k)
  then have a: "ask_bypass env w req k = (r, w')" using assms by simp
  show ?thesis using ask_world(1) [OF a] a AtBypass by (auto simp: ask_weights(1) split: sum.splits)
next
  case (AtMiss req k refs i)
  then have a: "ask_miss env w req k refs i = (r, w')" using assms by simp
  show ?thesis using ask_world(2) [OF a] a AtMiss by (auto simp: ask_weights(2) split: sum.splits)
next
  case (AtStore req k refs i resp start fin)
  then show ?thesis using assms
    by (auto simp: Let_def store_response_pending case_prod_beta split: if_splits)
next
  case (AtValidate ctx req resp)
  then obtain out where "HandleValidationResponse env ctx req resp w = (out, w')" "r = Inl out"
    using assms by (cases "HandleValidationResponse env ctx req resp w") simp
  then show ?thesis using HandleValidationResponse_outcome(2) AtValidate by fastforce
qed (use assms in \<open>auto simp: Let_def split: prod.splits sum.splits option.splits\<close>)

lemma start_job_drains:
  assumes "start_job env w job expired consumed = (f, w')"
  shows "w_pending w' = w_pending w" "f = Some g \<Longrightarrow> flight_weight g = 1"
  using assms by (auto simp: start_job_def roundTripTimed_eq Let_def split: sum.splits if_splits)

subsection \<open>Every step drains\<close>

lemma sum_list_drop_nth:
  fixes g :: "'b \<Rightarrow> nat"
  assumes "i < length xs"
  shows "sum_list (map g xs) = g (xs ! i) + sum_list (map g (take i xs @ drop (Suc i) xs))"
  by (subst id_take_nth_drop [OF assms]) simp

lemma sum_list_update_nth:
  fixes g :: "'b \<Rightarrow> nat"
  assumes "i < length xs"
  shows "sum_list (map g (xs[i := y])) = g y + sum_list (map g (take i xs @ drop (Suc i) xs))"
  by (simp add: upd_conv_take_nth_drop assms)

lemma server_step_drains:
  assumes "server_step env (\<lambda>_. False) c c'"
  shows "work c' < work c"
  using assms
proof (cases rule: server_step.cases)
  case (advances i fs w f w')
  then show ?thesis using advance_drains [OF advances(4)]
    by (simp add: work_def sum_list_update_nth sum_list_drop_nth [of i fs])
next
  case (responds i fs w out w')
  then show ?thesis using advance_drains [OF responds(4)]
    by (simp add: work_def sum_list_drop_nth [of i fs])
next
  case (starts i w expired consumed f w' fs)
  then show ?thesis using start_job_drains [OF starts(4)]
    by (auto simp: work_def split: option.split)
qed simp

lemma server_step_enabled:
  assumes "fs \<noteq> [] \<or> w_pending w \<noteq> []"
  shows "\<exists>c. server_step env ok (w, fs) c"
proof (cases fs)
  case Nil
  then have "0 < length (w_pending w)" using assms by simp
  then show ?thesis by (metis server_step.starts surj_pair)
next
  case (Cons f gs)
  obtain r w' where a: "advance env w (fs ! 0) = (r, w')" by fastforce
  have "0 < length fs" using Cons by simp
  then show ?thesis using a by (cases r) (metis server_step.responds server_step.advances)+
qed

lemma server_step_idle: "\<not> server_step env (\<lambda>_. False) (w, []) c" if "w_pending w = []"
  using that by (auto elim: server_stepE)

lemma steps_drain: "(server_step env (\<lambda>_. False) ^^ n) c c' \<Longrightarrow> n + work c' \<le> work c"
proof (induction n arbitrary: c')
  case (Suc n)
  then obtain c1 where "(server_step env (\<lambda>_. False) ^^ n) c c1" "server_step env (\<lambda>_. False) c1 c'" by auto
  with Suc.IH [of c1] server_step_drains [of env c1 c'] show ?case by simp
qed simp

lemma work_bound: "work (w, fs) \<le> 4 * length fs + 2 * length (w_pending w)"
  using sum_list_mono [of fs flight_weight "\<lambda>_. 4"] flight_weight_bounds(2)
  by (simp add: work_def sum_list_triv mult.commute)

lemma server_step_mono: "server_step env (\<lambda>_. False) c c' \<Longrightarrow> server_step env ok c c'"
  by (induction rule: server_step.induct) (auto intro: server_step.intros)

lemma serves_steps: "serves env ok w0 c \<Longrightarrow> (server_step env (\<lambda>_. False) ^^ n) c c' \<Longrightarrow> serves env ok w0 c'"
proof (induction n arbitrary: c')
  case (Suc n)
  then show ?case by (auto intro: serves.step server_step_mono)
qed simp

lemma drained: "\<exists>n w. (server_step env (\<lambda>_. False) ^^ n) c (w, []) \<and> w_pending w = []"
proof (induction "work c" arbitrary: c rule: less_induct)
  case less
  obtain w fs where c: "c = (w, fs)" by (cases c)
  show ?case
  proof (cases "fs \<noteq> [] \<or> w_pending w \<noteq> []")
    case True
    then obtain c1 where step: "server_step env (\<lambda>_. False) c c1" using server_step_enabled c by blast
    obtain n v where "(server_step env (\<lambda>_. False) ^^ n) c1 (v, []) \<and> w_pending v = []"
      using less [OF server_step_drains [OF step]] by blast
    with step show ?thesis by (meson relpowp_Suc_I2)
  next
    case False
    then have "(server_step env (\<lambda>_. False) ^^ 0) c (w, []) \<and> w_pending w = []" using c by simp
    then show ?thesis by blast
  qed
qed

lemma background_jobs_can_finish:
  "serves env ok w0 c \<Longrightarrow> \<exists>w'. serves env ok w0 (w', []) \<and> w_pending w' = []"
  using drained serves_steps by metis

subsection \<open>Properties\<close>

text \<open>
  C18: Once no more requests arrive, every schedule of the round trips in flight and the pending
  background revalidations of a server ends: from any state the server reaches, at most four steps
  are taken for each round trip and two for each job, whatever order they are taken in, every state
  on the way is one the server reaches, and a state has no next step exactly when no round trip is
  in flight and no job is pending. A hit may queue a job while it is served; the job never queues
  another.
\<close>

theorem every_schedule_ends:
  assumes "serves env ok w0 (w, flights)" and "(server_step env (\<lambda>_. False) ^^ n) (w, flights) (w', flights')"
  shows "n \<le> 4 * length flights + 2 * length (w_pending w) \<and> serves env ok w0 (w', flights') \<and>
    ((\<exists>c. server_step env (\<lambda>_. False) (w', flights') c) \<longleftrightarrow> flights' \<noteq> [] \<or> w_pending w' \<noteq> [])"
  using steps_drain [OF assms(2)] work_bound [of w flights] serves_steps [OF assms]
    server_step_enabled [of flights' w' env "\<lambda>_. False"] server_step_idle [of w' env]
  by fastforce

theorem every_schedule_ends_witness:
  "\<exists>w w'. (server_step (ex_env [] (Inl [])) (\<lambda>_. False) ^^ 1) (w, [AtMiss (ex_request ''GET'' []) ''http://h/a'' [] (-1)]) (w', []) \<and>
     serves (ex_env [] (Inl [])) (\<lambda>_. True) ex_empty (w', []) \<and>
     ((\<exists>c. server_step (ex_env [] (Inl [])) (\<lambda>_. False) (w', []) c) \<longleftrightarrow> w_pending w' \<noteq> [])"
proof -
  let ?env = "ex_env [] (Inl [])" and ?req = "ex_request ''GET'' []" and ?f = "AtMiss (ex_request ''GET'' []) ''http://h/a'' [] (-1)"
  have "e_conn ?env = memcache" "Normalize (e_lib ?env) (req_URL ?req) = Some ''http://h/a''"
    "stored_refs (e_codec ?env) (mem_store (w_cache ex_empty)) ''http://h/a'' = []"
    by (simp_all add: ex_key ex_empty_refs)
  then obtain w where "arrive ?env ex_empty ?req = (Some ?f, w)"
    using mem.arrive_miss [OF _ TrueI TrueI _ ex_understood] by blast
  then have "server_step ?env (\<lambda>_. True) (ex_empty, []) (w, [] @ [?f])" by (intro server_step.arrives) simp_all
  then have s: "serves ?env (\<lambda>_. True) ex_empty (w, [?f])" using serves.step [OF serves.opened] by simp
  have "\<exists>w'. advance ?env w ?f = (Inl (Failed []), w')"
    by (simp add: ask_miss_def roundTripTimed_eq ex_env_def ex_request_def Req_OnlyIfCached_def hasToken_iff)
  then obtain w' where "advance ?env w ([?f] ! 0) = (Inl (Failed []), w')" by auto
  then have "server_step ?env (\<lambda>_. False) (w, [?f]) (w', take 0 [?f] @ drop (Suc 0) [?f])"
    by (intro server_step.responds) simp_all
  then have "(server_step ?env (\<lambda>_. False) ^^ 1) (w, [?f]) (w', [])" by (simp add: eq_OO)
  with every_schedule_ends [OF s this] show ?thesis by blast
qed

end
