(* ===== verification/Logging.thy ===== *)
theory Logging
  imports ResponseCache
begin

text \<open>
  \<open>internal/log.go\<close>, \<open>context.go\<close> and the \<open>LogValue\<close> methods of the cache's types: what the cache
  hands to the handler of its logger. A handler of \<open>log/slog\<close> is a parameter: the levels it has
  enabled, and what \<open>WithAttrs\<close> and \<open>WithGroup\<close> make of it. So are the text of a URL, the host, the
  context of a request and the status line of a response, which the logger alone reads. The time and
  the program counter that a record carries are left out.
\<close>

subsection \<open>Trace identifiers\<close>

text \<open>
  The values of a context, innermost first; only a string is a trace identifier. All keys of the
  type \<open>contextKey\<close> are equal, so the key of the trace identifier is one name.
\<close>

datatype ctx_value = CtxString string | CtxOther

type_synonym ctx = "(string \<times> ctx_value) list"

definition TraceIDKey :: string where
  "TraceIDKey = ''httpcache context key''"

definition ContextWithTraceID :: "ctx \<Rightarrow> string \<Rightarrow> ctx" where
  "ContextWithTraceID c traceID = (TraceIDKey, CtxString traceID) # c"

definition TraceIDFromContext :: "ctx \<Rightarrow> string \<times> bool" where
  "TraceIDFromContext c =
     (case map_of c TraceIDKey of
        Some (CtxString traceID) \<Rightarrow> (traceID, True)
      | _ \<Rightarrow> ([], False))"

subsection \<open>Values, records and handlers\<close>

datatype log_value =
    LString string
  | LBool bool
  | LInt int
  | LDuration duration
  | LTime time
  | LMap "(string \<times> string) list"
  | LError cache_error
  | LGroup "(string \<times> log_value) list"

type_synonym log_attr = "string \<times> log_value"

datatype log_level = LevelDebug | LevelWarn

record log_record =
  lr_Level :: log_level
  lr_Message :: string
  lr_Attrs :: "log_attr list"

record 'h Logger =
  lg_handler :: 'h

record 'h slog =
  sl_Logger :: "'h Logger"
  sl_Enabled :: "'h \<Rightarrow> ctx \<Rightarrow> log_level \<Rightarrow> bool"
  sl_WithAttrs :: "'h \<Rightarrow> log_attr list \<Rightarrow> 'h"
  sl_WithGroup :: "'h \<Rightarrow> string \<Rightarrow> 'h"
  sl_Context :: "http_request \<Rightarrow> ctx"
  sl_URL :: "url \<Rightarrow> string"
  sl_Host :: "http_request \<Rightarrow> string"
  sl_Status :: "http_response \<Rightarrow> string"

definition NewLogger :: "'h \<Rightarrow> 'h Logger" where
  "NewLogger h = \<lparr>lg_handler = h\<rparr>"

definition Logger_Handler :: "'h Logger \<Rightarrow> 'h" where
  "Logger_Handler l = lg_handler l"

definition Logger_Enabled :: "'h slog \<Rightarrow> 'h Logger \<Rightarrow> ctx \<Rightarrow> log_level \<Rightarrow> bool" where
  "Logger_Enabled sl l c level = sl_Enabled sl (lg_handler l) c level"

definition Logger_With :: "'h slog \<Rightarrow> 'h Logger \<Rightarrow> log_attr list \<Rightarrow> 'h Logger" where
  "Logger_With sl l attrs =
     (if attrs = [] then l else \<lparr>lg_handler = sl_WithAttrs sl (lg_handler l) attrs\<rparr>)"

definition Logger_WithGroup :: "'h slog \<Rightarrow> 'h Logger \<Rightarrow> string \<Rightarrow> 'h Logger" where
  "Logger_WithGroup sl l name =
     (if name = [] then l else \<lparr>lg_handler = sl_WithGroup sl (lg_handler l) name\<rparr>)"

subsection \<open>The values of the cache's types\<close>

definition CacheStatus_LogValue :: "CacheStatus \<Rightarrow> log_value" where
  "CacheStatus_LogValue s =
     LGroup [(''value'', LString (cs_Value s)), (''from_cache'', LBool (cs_Legacy s = FromCache))]"

definition Age_LogValue :: "Age \<Rightarrow> log_value" where
  "Age_LogValue a = LGroup [(''value'', LDuration (age_Value a)), (''timestamp'', LTime (age_Timestamp a))]"

definition Freshness_LogValue :: "Freshness \<Rightarrow> log_value" where
  "Freshness_LogValue f =
     LGroup [(''is_stale'', LBool (fr_IsStale f)), (''age'', Age_LogValue (fr_Age f)),
       (''useful_life'', LDuration (fr_UsefulLife f))]"

definition Response_LogValue :: "'h slog \<Rightarrow> entry \<Rightarrow> log_value" where
  "Response_LogValue sl r =
     LGroup [(''id'', LString (ent_ID r)), (''requested_at'', LTime (ent_RequestedAt r)),
       (''received_at'', LTime (ent_ReceivedAt r)), (''status'', LString (sl_Status sl (ent_Data r))),
       (''status_code'', LInt (resp_StatusCode (ent_Data r)))]"

definition ResponseRef_LogValue :: "ResponseRef \<Rightarrow> log_value" where
  "ResponseRef_LogValue r =
     LGroup [(''response_id'', LString (ref_ResponseID r)), (''vary'', LString (ref_Vary r)),
       (''vary_resolved'', LMap (ref_VaryResolved r)), (''received_at'', LTime (ref_ReceivedAt r))]"

text \<open>Directives are absent when their map is nil, which is when the header has no \<open>Cache-Control\<close>.\<close>

record Misc =
  misc_CCReq :: "directive_map option"
  misc_CCResp :: "directive_map option"
  misc_Stored :: "entry option"
  misc_Freshness :: "Freshness option"
  misc_Refs :: ResponseRefs
  misc_RefIndex :: int

definition no_misc :: Misc where
  "no_misc = \<lparr>misc_CCReq = None, misc_CCResp = None, misc_Stored = None, misc_Freshness = None,
     misc_Refs = [], misc_RefIndex = 0\<rparr>"

definition cc_map :: "header \<Rightarrow> directive_map \<Rightarrow> directive_map option" where
  "cc_map h d = (if Header_Get h ''Cache-Control'' = [] then None else Some d)"

definition opt_attr :: "string \<Rightarrow> log_value option \<Rightarrow> log_attr list" where
  "opt_attr name v = (case v of None \<Rightarrow> [] | Some v \<Rightarrow> [(name, v)])"

definition Misc_LogValue :: "'h slog \<Rightarrow> Misc \<Rightarrow> log_value" where
  "Misc_LogValue sl m =
     LGroup
       (opt_attr ''cc_request'' (map_option LMap (misc_CCReq m)) @
        opt_attr ''cc_response'' (map_option LMap (misc_CCResp m)) @
        opt_attr ''stored'' (map_option (Response_LogValue sl) (misc_Stored m)) @
        opt_attr ''freshness'' (map_option Freshness_LogValue (misc_Freshness m)) @
        (if 0 \<le> misc_RefIndex m \<and> misc_RefIndex m < int (length (misc_Refs m))
         then [(''ref'', ResponseRef_LogValue (misc_Refs m ! nat (misc_RefIndex m)))] else []))"

subsection \<open>The log of the cache\<close>

text \<open>A provider is the closure that makes the entry: it runs only when the level is enabled.\<close>

record LogEntry =
  le_URLKey :: string
  le_Misc :: "Misc option"
  le_Error :: "cache_error option"

type_synonym LogProvider = "CacheStatus \<times> http_request \<times> LogEntry"

text \<open>\<open>logCache\<close>: the records that it hands to the handler, one or none.\<close>

definition logCache :: "'h slog \<Rightarrow> ctx \<Rightarrow> log_level \<Rightarrow> string \<Rightarrow> LogProvider \<Rightarrow> log_record list" where
  "logCache sl c level msg lp =
     (if \<not> sl_Enabled sl (lg_handler (sl_Logger sl)) c level then []
      else
        let (event, req, cl) = lp;
            (tracedID, ok) = TraceIDFromContext c
        in [\<lparr>lr_Level = level, lr_Message = msg,
             lr_Attrs =
               [(''service'', LString ''httpcache''), (''event'', LString (cs_Value event))] @
               opt_attr ''error'' (map_option LError (le_Error cl)) @
               (if ok \<and> tracedID \<noteq> [] then [(''trace_id'', LString tracedID)] else []) @
               [(''request'', LGroup
                   [(''method'', LString (req_Method req)), (''url'', LString (sl_URL sl (req_URL req))),
                    (''host'', LString (sl_Host sl req))]),
                (''cache'', LGroup
                   [(''status'', CacheStatus_LogValue event), (''url_key'', LString (le_URLKey cl))])] @
               opt_attr ''misc'' (map_option (Misc_LogValue sl) (le_Misc cl))\<rparr>])"

definition LogCacheHit :: "'h slog \<Rightarrow> http_request \<Rightarrow> string \<Rightarrow> Misc option \<Rightarrow> log_record list" where
  "LogCacheHit sl req urlKey mp =
     logCache sl (sl_Context sl req) LevelDebug ''Hit; served from cache.''
       (CacheStatusHit, req, \<lparr>le_URLKey = urlKey, le_Misc = mp, le_Error = None\<rparr>)"

definition LogCacheMiss :: "'h slog \<Rightarrow> http_request \<Rightarrow> string \<Rightarrow> Misc option \<Rightarrow> log_record list" where
  "LogCacheMiss sl req urlKey mp =
     logCache sl (sl_Context sl req) LevelDebug ''Miss; served from origin.''
       (CacheStatusMiss, req, \<lparr>le_URLKey = urlKey, le_Misc = mp, le_Error = None\<rparr>)"

definition LogCacheStale :: "'h slog \<Rightarrow> http_request \<Rightarrow> string \<Rightarrow> Misc option \<Rightarrow> log_record list" where
  "LogCacheStale sl req urlKey mp =
     logCache sl (sl_Context sl req) LevelDebug ''Stale; served from cache.''
       (CacheStatusStale, req, \<lparr>le_URLKey = urlKey, le_Misc = mp, le_Error = None\<rparr>)"

definition LogCacheStaleIfError :: "'h slog \<Rightarrow> http_request \<Rightarrow> string \<Rightarrow> Misc option \<Rightarrow> log_record list" where
  "LogCacheStaleIfError sl req urlKey mp =
     logCache sl (sl_Context sl req) LevelDebug ''Stale; served from cache; stale-if-error policy applied.''
       (CacheStatusStale, req, \<lparr>le_URLKey = urlKey, le_Misc = mp, le_Error = None\<rparr>)"

definition LogCacheStaleRevalidate :: "'h slog \<Rightarrow> http_request \<Rightarrow> string \<Rightarrow> Misc option \<Rightarrow> log_record list" where
  "LogCacheStaleRevalidate sl req urlKey mp =
     logCache sl (sl_Context sl req) LevelDebug ''Stale; served from cache; revalidating.''
       (CacheStatusStale, req, \<lparr>le_URLKey = urlKey, le_Misc = mp, le_Error = None\<rparr>)"

definition LogCacheRevalidated :: "'h slog \<Rightarrow> http_request \<Rightarrow> string \<Rightarrow> Misc option \<Rightarrow> log_record list" where
  "LogCacheRevalidated sl req urlKey mp =
     logCache sl (sl_Context sl req) LevelDebug ''Revalidated; served cached response.''
       (CacheStatusRevalidated, req, \<lparr>le_URLKey = urlKey, le_Misc = mp, le_Error = None\<rparr>)"

definition LogCacheBypass :: "'h slog \<Rightarrow> string \<Rightarrow> http_request \<Rightarrow> string \<Rightarrow> Misc option \<Rightarrow> log_record list" where
  "LogCacheBypass sl msg req urlKey mp =
     logCache sl (sl_Context sl req) LevelDebug msg
       (CacheStatusBypass, req, \<lparr>le_URLKey = urlKey, le_Misc = mp, le_Error = None\<rparr>)"

definition LogCacheError ::
  "'h slog \<Rightarrow> string \<Rightarrow> cache_error \<Rightarrow> http_request \<Rightarrow> string \<Rightarrow> Misc option \<Rightarrow> log_record list" where
  "LogCacheError sl msg err req urlKey mp =
     logCache sl (sl_Context sl req) LevelWarn msg
       (\<lparr>cs_Value = ''error'', cs_Legacy = []\<rparr>, req, \<lparr>le_URLKey = urlKey, le_Misc = mp, le_Error = Some err\<rparr>)"

lemmas log_calls =
  LogCacheHit_def LogCacheMiss_def LogCacheStale_def LogCacheStaleIfError_def LogCacheStaleRevalidate_def
  LogCacheRevalidated_def LogCacheBypass_def LogCacheError_def

subsection \<open>The shape of a record\<close>

text \<open>
  A type of log values. A group lists its attributes in order, each with whether it is always there;
  so no attribute occurs twice or under another name.
\<close>

datatype log_type =
    TString
  | TBool
  | TInt
  | TDuration
  | TTime
  | TMap
  | TError
  | TGroup "(string \<times> bool \<times> log_type) list"

fun conforms :: "log_type \<Rightarrow> log_value \<Rightarrow> bool" and
  attrs_conform :: "(string \<times> bool \<times> log_type) list \<Rightarrow> log_attr list \<Rightarrow> bool" where
  "conforms TString v = (case v of LString _ \<Rightarrow> True | _ \<Rightarrow> False)"
| "conforms TBool v = (case v of LBool _ \<Rightarrow> True | _ \<Rightarrow> False)"
| "conforms TInt v = (case v of LInt _ \<Rightarrow> True | _ \<Rightarrow> False)"
| "conforms TDuration v = (case v of LDuration _ \<Rightarrow> True | _ \<Rightarrow> False)"
| "conforms TTime v = (case v of LTime _ \<Rightarrow> True | _ \<Rightarrow> False)"
| "conforms TMap v = (case v of LMap _ \<Rightarrow> True | _ \<Rightarrow> False)"
| "conforms TError v = (case v of LError _ \<Rightarrow> True | _ \<Rightarrow> False)"
| "conforms (TGroup fs) v = (case v of LGroup attrs \<Rightarrow> attrs_conform fs attrs | _ \<Rightarrow> False)"
| "attrs_conform [] attrs = (attrs = [])"
| "attrs_conform ((k, required, t) # fs) [] = (\<not> required \<and> attrs_conform fs [])"
| "attrs_conform ((k, required, t) # fs) ((k', v) # attrs) =
     (if k' = k then conforms t v \<and> attrs_conform fs attrs
      else \<not> required \<and> attrs_conform fs ((k', v) # attrs))"

definition age_type :: log_type where
  "age_type = TGroup [(''value'', True, TDuration), (''timestamp'', True, TTime)]"

definition misc_type :: log_type where
  "misc_type = TGroup
     [(''cc_request'', False, TMap),
      (''cc_response'', False, TMap),
      (''stored'', False, TGroup
         [(''id'', True, TString), (''requested_at'', True, TTime), (''received_at'', True, TTime),
          (''status'', True, TString), (''status_code'', True, TInt)]),
      (''freshness'', False, TGroup
         [(''is_stale'', True, TBool), (''age'', True, age_type), (''useful_life'', True, TDuration)]),
      (''ref'', False, TGroup
         [(''response_id'', True, TString), (''vary'', True, TString), (''vary_resolved'', True, TMap),
          (''received_at'', True, TTime)])]"

text \<open>The attributes of a record at each level: an error is there at the level of warnings only.\<close>

definition record_fields :: "log_level \<Rightarrow> (string \<times> bool \<times> log_type) list" where
  "record_fields level =
     [(''service'', True, TString), (''event'', True, TString)] @
     (case level of LevelWarn \<Rightarrow> [(''error'', True, TError)] | LevelDebug \<Rightarrow> []) @
     [(''trace_id'', False, TString),
      (''request'', True, TGroup [(''method'', True, TString), (''url'', True, TString), (''host'', True, TString)]),
      (''cache'', True, TGroup
         [(''status'', True, TGroup [(''value'', True, TString), (''from_cache'', True, TBool)]),
          (''url_key'', True, TString)]),
      (''misc'', False, misc_type)]"

definition record_conforms :: "log_record \<Rightarrow> bool" where
  "record_conforms r = attrs_conform (record_fields (lr_Level r)) (lr_Attrs r)"

subsection \<open>Lemmas\<close>

text \<open>What the event of a record is, and that every call hands over one well-shaped record, or none.\<close>

definition event_of :: "log_record \<Rightarrow> string" where
  "event_of r = (case map_of (lr_Attrs r) ''event'' of Some (LString e) \<Rightarrow> e | _ \<Rightarrow> [])"

lemma misc_conforms: "conforms misc_type (Misc_LogValue sl m)"
  by (simp add: misc_type_def age_type_def Misc_LogValue_def opt_attr_def Response_LogValue_def
      Freshness_LogValue_def Age_LogValue_def ResponseRef_LogValue_def split: option.split)

lemma logCache_conforms:
  assumes "x \<in> set (logCache sl c level msg (event, req, cl))" "le_Error cl \<noteq> None \<longleftrightarrow> level = LevelWarn"
  shows "record_conforms x"
proof (cases level)
  case LevelDebug
  then have "le_Error cl = None" using assms(2) by simp
  then show ?thesis using assms(1) LevelDebug misc_conforms
    by (auto simp: logCache_def Let_def record_conforms_def record_fields_def opt_attr_def CacheStatus_LogValue_def
        split: if_splits prod.splits option.split)
next
  case LevelWarn
  then obtain err where "le_Error cl = Some err" using assms(2) by auto
  then show ?thesis using assms(1) LevelWarn misc_conforms
    by (auto simp: logCache_def Let_def record_conforms_def record_fields_def opt_attr_def CacheStatus_LogValue_def
        split: if_splits prod.splits option.split)
qed

lemma logCache_event:
  "x \<in> set (logCache sl c level msg (event, req, cl)) \<Longrightarrow> event_of x = cs_Value event \<and> lr_Level x = level"
  by (auto simp: logCache_def Let_def event_of_def split: if_splits prod.splits)

lemma logCache_one:
  "sl_Enabled sl (lg_handler (sl_Logger sl)) c level \<Longrightarrow> \<exists>x. logCache sl c level msg lp = [x]"
  by (auto simp: logCache_def Let_def split: prod.split)

lemma logCache_off: "\<not> sl_Enabled sl (lg_handler (sl_Logger sl)) c level \<Longrightarrow> logCache sl c level msg lp = []"
  by (simp add: logCache_def)

lemma trace_id_in_context: "TraceIDFromContext (ContextWithTraceID c i) = (i, True)"
  by (simp add: TraceIDFromContext_def ContextWithTraceID_def)

end
