(* ===== verification/TransportLog.thy ===== *)
theory TransportLog
  imports Logging Example Reuse
begin

text \<open>
  The handlers of \<open>roundtripper.go\<close> and \<open>internal/validationresponsehandler.go\<close> with the records they
  log. Each returns, after its outcome and the world, the records it hands to the logger's handler, in
  order. Without the records it is the handler of \<open>Transport\<close>: logging changes nothing.
\<close>

type_synonym 's logged = "outcome \<times> 's world \<times> log_record list"

definition erase :: "'s logged \<Rightarrow> outcome \<times> 's world" where
  "erase x = (fst x, fst (snd x))"

subsection \<open>Validation responses\<close>

definition ToMisc :: "RevalidationContext \<Rightarrow> header \<Rightarrow> directive_map option \<Rightarrow> Misc" where
  "ToMisc r h ccResp =
     \<lparr>misc_CCReq = cc_map h (rv_CCReq r), misc_CCResp = ccResp, misc_Stored = Some (rv_Stored r),
      misc_Freshness = Some (rv_Freshness r), misc_Refs = rv_Refs r, misc_RefIndex = rv_RefIndex r\<rparr>"

definition logged_HandleValidationResponse ::
  "'h slog \<Rightarrow> 's env \<Rightarrow> RevalidationContext \<Rightarrow> http_request \<Rightarrow> http_response \<Rightarrow> 's world \<Rightarrow> 's logged" where
  "logged_HandleValidationResponse sl env ctx req resp w =
     (if req_Method req = ''GET'' \<and> resp_StatusCode resp = 304 then
        (let data = mergeResponseHeaders (ent_Data (rv_Stored ctx)) (resp_Header resp);
             (data, w) = store_response env w req data (rv_URLKey ctx) (rv_Refs ctx) (rv_Start ctx)
                           (rv_End ctx) (rv_RefIndex ctx)
         in (Responded (apply_status CacheStatusRevalidated data), w,
             LogCacheRevalidated sl req (rv_URLKey ctx) (Some (ToMisc ctx (req_Header req) None))))
      else
        let ccResp = ParseCCResponseDirectives (resp_Header resp);
            misc = Some (ToMisc ctx (req_Header req) (cc_map (resp_Header resp) ccResp));
            (staleOk, n) =
              (if isStaleErrorAllowed (resp_StatusCode resp) \<and> req_Method req = ''GET''
               then CanStaleOnError (e_clk env) (w_tick w) (rv_Freshness ctx) [Resp_StaleIfError ccResp]
               else (False, w_tick w));
            w = w\<lparr>w_tick := n\<rparr>
        in if staleOk then
             (let (data, n) = SetAgeHeader (e_clk env) (w_tick w) (ent_Data (rv_Stored ctx))
                                (fr_Age (rv_Freshness ctx))
              in (Responded (apply_status CacheStatusStale data), w\<lparr>w_tick := n\<rparr>,
                  LogCacheStaleIfError sl req (rv_URLKey ctx) misc))
           else if canStoreResponse resp (rv_CCReq ctx) ccResp then
             (let (resp, w) = store_response env w req resp (rv_URLKey ctx) (rv_Refs ctx) (rv_Start ctx)
                                (rv_End ctx) (rv_RefIndex ctx)
              in (Responded (apply_status CacheStatusMiss resp), w, LogCacheMiss sl req (rv_URLKey ctx) misc))
           else if IsUnsafeMethod (req_Method req) \<and> IsNonErrorStatus (resp_StatusCode resp) then
             (let (panics, s) = InvalidateCache (e_lib env) (e_codec env) (e_conn env) (w_cache w) (req_URL req)
                    (resp_Header resp) (rv_Refs ctx) (rv_URLKey ctx)
              in if panics then (Panicked, w\<lparr>w_cache := s\<rparr>, [])
                 else (Responded (apply_status CacheStatusBypass resp), w\<lparr>w_cache := s\<rparr>,
                  LogCacheBypass sl ''Bypass; serving upstream response'' req (rv_URLKey ctx) misc))
           else (Responded (apply_status CacheStatusBypass resp), w,
                  LogCacheBypass sl ''Bypass; serving upstream response'' req (rv_URLKey ctx) misc))"

subsection \<open>Unrecognized methods and cache misses\<close>

definition logged_handleUnrecognizedMethod ::
  "'h slog \<Rightarrow> 's env \<Rightarrow> 's world \<Rightarrow> http_request \<Rightarrow> string \<Rightarrow> 's logged" where
  "logged_handleUnrecognizedMethod sl env w req urlKey =
     (let (r, w) = upstream_RoundTrip env w req in
      case r of
        Inl err \<Rightarrow> (Failed err, w, [])
      | Inr resp \<Rightarrow>
          if \<not> IsUnsafeMethod (req_Method req) then
            (Responded (apply_status CacheStatusBypass resp), w,
             LogCacheBypass sl ''Bypass; unrecognized (safe) method, served from upstream.'' req urlKey None)
          else if IsNonErrorStatus (resp_StatusCode resp) then
            (let (refs, s) = rc_GetRefs (e_codec env) (e_conn env) (w_cache w) urlKey;
                 (panics, s) = InvalidateCache (e_lib env) (e_codec env) (e_conn env) s (req_URL req)
                   (resp_Header resp) (refs_or_nil refs) urlKey
             in if panics then (Panicked, w\<lparr>w_cache := s\<rparr>, [])
                else (Responded (apply_status CacheStatusBypass resp), w\<lparr>w_cache := s\<rparr>,
                 LogCacheBypass sl ''Bypass; unrecognized (unsafe) method, served from upstream.'' req urlKey None))
          else
            (Responded (apply_status CacheStatusBypass resp), w,
             LogCacheBypass sl ''Bypass; unrecognized (unsafe) method, served from upstream.'' req urlKey None))"

definition logged_handleCacheMiss ::
  "'h slog \<Rightarrow> 's env \<Rightarrow> 's world \<Rightarrow> http_request \<Rightarrow> string \<Rightarrow> ResponseRefs \<Rightarrow> int \<Rightarrow> 's logged" where
  "logged_handleCacheMiss sl env w req urlKey refs refIndex =
     (let ccReq = ParseCCRequestDirectives (req_Header req);
          misc = no_misc\<lparr>misc_CCReq := cc_map (req_Header req) ccReq, misc_Refs := refs, misc_RefIndex := refIndex\<rparr> in
      if Req_OnlyIfCached ccReq then (Responded make504Response, w, LogCacheMiss sl req urlKey (Some misc))
      else
        let (r, start, fin, w) = roundTripTimed env w req in
        case r of
          Inl err \<Rightarrow> (Failed err, w, [])
        | Inr resp \<Rightarrow>
            let ccResp = ParseCCResponseDirectives (resp_Header resp);
                misc = misc\<lparr>misc_CCResp := cc_map (resp_Header resp) ccResp\<rparr>;
                (resp, w) =
                  (if canStoreResponse resp ccReq ccResp
                   then store_response env w req resp urlKey refs start fin refIndex else (resp, w))
            in (Responded (apply_status CacheStatusMiss resp), w, LogCacheMiss sl req urlKey (Some misc)))"

subsection \<open>Cache hits\<close>

text \<open>The stored response is logged as it was read: its headers, which change, are not logged.\<close>

definition logged_serveFromCache ::
  "'h slog \<Rightarrow> 's env \<Rightarrow> 's world \<Rightarrow> http_request \<Rightarrow> string \<Rightarrow> entry \<Rightarrow> Freshness \<Rightarrow> bool \<Rightarrow> string list \<Rightarrow> 's logged" where
  "logged_serveFromCache sl env w req urlKey stored freshness noCacheQualified noCacheFieldsSeq =
     (let data = ent_Data stored;
          data = (if noCacheQualified
                  then data\<lparr>resp_Header := foldl Header_Del (resp_Header data) noCacheFieldsSeq\<rparr> else data);
          (data, n) = SetAgeHeader (e_clk env) (w_tick w) data (fr_Age freshness)
      in (Responded (apply_status CacheStatusHit data), w\<lparr>w_tick := n\<rparr>,
          LogCacheHit sl req urlKey
            (Some (no_misc\<lparr>misc_Stored := Some stored, misc_Freshness := Some freshness\<rparr>))))"

definition logged_handleStaleWhileRevalidate ::
  "'h slog \<Rightarrow> 's env \<Rightarrow> 's world \<Rightarrow> http_request \<Rightarrow> entry \<Rightarrow> string \<Rightarrow> Freshness \<Rightarrow> directive_map \<Rightarrow> 's logged" where
  "logged_handleStaleWhileRevalidate sl env w req stored urlKey freshness ccReq =
     (let req2 = withConditionalHeaders req (resp_Header (ent_Data stored));
          marked = stored\<lparr>ent_Data := apply_status CacheStatusStale (ent_Data stored)\<rparr>;
          job = \<lparr>job_req = req2, job_stored = marked, job_urlKey = urlKey, job_freshness = freshness,
            job_ccReq = ccReq\<rparr>
      in (Responded (ent_Data marked), w\<lparr>w_pending := w_pending w @ [job]\<rparr>,
          LogCacheStaleRevalidate sl req urlKey
            (Some (no_misc\<lparr>misc_CCReq := cc_map (req_Header req) ccReq, misc_Stored := Some stored,
              misc_Freshness := Some freshness\<rparr>))))"

definition logged_revalidate ::
  "'h slog \<Rightarrow> 's env \<Rightarrow> 's world \<Rightarrow> http_request \<Rightarrow> entry \<Rightarrow> string \<Rightarrow> ResponseRefs \<Rightarrow> nat \<Rightarrow> Freshness \<Rightarrow>
   directive_map \<Rightarrow> 's logged" where
  "logged_revalidate sl env w req stored urlKey refs refIndex freshness ccReq =
     (let req = withConditionalHeaders req (resp_Header (ent_Data stored));
          (r, start, fin, w) = roundTripTimed env w req
      in case r of
           Inl err \<Rightarrow> (Failed err, w, [])
         | Inr resp \<Rightarrow>
             logged_HandleValidationResponse sl env
               \<lparr>rv_URLKey = urlKey, rv_Start = start, rv_End = fin, rv_CCReq = ccReq, rv_Stored = stored,
                rv_Freshness = freshness, rv_Refs = refs, rv_RefIndex = int refIndex\<rparr> req resp w)"

definition logged_handleCacheHit ::
  "'h slog \<Rightarrow> 's env \<Rightarrow> 's world \<Rightarrow> http_request \<Rightarrow> entry \<Rightarrow> string \<Rightarrow> ResponseRefs \<Rightarrow> nat \<Rightarrow> 's logged" where
  "logged_handleCacheHit sl env w req stored urlKey refs refIndex =
     (let ccReq = ParseCCRequestDirectives (req_Header req);
          ccResp = ParseCCResponseDirectives (resp_Header (ent_Data stored));
          (freshness, n) = CalculateFreshness (e_lib env) (e_clk env) (w_tick w) stored ccReq ccResp;
          w = w\<lparr>w_tick := n\<rparr>;
          hasRespNoCache = (Resp_NoCache ccResp \<noteq> None);
          fields = (case Resp_NoCache ccResp of Some raw \<Rightarrow> RawCSV_Value raw | None \<Rightarrow> None);
          isRespNoCacheQualified = (fields \<noteq> None);
          fieldsSeq = (case fields of Some fs \<Rightarrow> fs | None \<Rightarrow> [])
      in if \<not> fr_IsStale freshness \<and> Resp_Immutable ccResp \<and> \<not> Req_NoCache ccReq then
           logged_serveFromCache sl env w req urlKey stored freshness isRespNoCacheQualified fieldsSeq
         else if (fr_IsStale freshness \<and> Resp_MustRevalidate ccResp) \<or>
           (hasRespNoCache \<and> \<not> isRespNoCacheQualified) then
           logged_revalidate sl env w req stored urlKey refs refIndex freshness ccReq
         else if Req_OnlyIfCached ccReq \<or> (\<not> fr_IsStale freshness \<and> \<not> Req_NoCache ccReq) then
           logged_serveFromCache sl env w req urlKey stored freshness isRespNoCacheQualified fieldsSeq
         else
           let (swr, w) = swr_window env w freshness ccResp in
           if swr then logged_handleStaleWhileRevalidate sl env w req stored urlKey freshness ccReq
           else logged_revalidate sl env w req stored urlKey refs refIndex freshness ccReq)"

subsection \<open>The round trip and the background revalidation\<close>

text \<open>An entry that cannot be read is logged as an error before it is treated as a miss.\<close>

definition logged_RoundTrip :: "'h slog \<Rightarrow> 's env \<Rightarrow> 's world \<Rightarrow> http_request \<Rightarrow> 's logged" where
  "logged_RoundTrip sl env w req =
     (case Normalize (e_lib env) (req_URL req) of
        None \<Rightarrow> (Panicked, w, [])
      | Some urlKey \<Rightarrow>
          if \<not> isRequestMethodUnderstood req then logged_handleUnrecognizedMethod sl env w req urlKey
          else
            let (r, s) = rc_GetRefs (e_codec env) (e_conn env) (w_cache w) urlKey;
                w = w\<lparr>w_cache := s\<rparr>
            in case r of
                 Inl err \<Rightarrow> logged_handleCacheMiss sl env w req urlKey [] (-1)
               | Inr [] \<Rightarrow> logged_handleCacheMiss sl env w req urlKey [] (-1)
               | Inr (ref # rest) \<Rightarrow>
                   let (refs, found) = VaryHeadersMatch (e_lib env) (ref # rest) (req_Header req) in
                   case found of
                     None \<Rightarrow> logged_handleCacheMiss sl env w req urlKey refs (-1)
                   | Some refIndex \<Rightarrow>
                       let (r, s) = rc_Get (e_codec env) (e_conn env) (w_cache w)
                                      (ref_ResponseID (refs ! refIndex)) req;
                           w = w\<lparr>w_cache := s\<rparr>
                       in case r of
                            Inl err \<Rightarrow>
                              (let (out, w, records) =
                                 logged_handleCacheMiss sl env w req urlKey refs (int refIndex)
                               in (out, w,
                                   LogCacheError sl ''Error retrieving cache entry; possible corruption.'' err req
                                     urlKey (Some (no_misc\<lparr>misc_Refs := refs, misc_RefIndex := int refIndex\<rparr>)) @
                                   records))
                          | Inr entry \<Rightarrow> logged_handleCacheHit sl env w req entry urlKey refs refIndex)"

definition logged_backgroundRevalidate ::
  "'h slog \<Rightarrow> 's env \<Rightarrow> 's world \<Rightarrow> bg_job \<Rightarrow> bool \<Rightarrow> nat \<Rightarrow> 's world \<times> log_record list" where
  "logged_backgroundRevalidate sl env w job expired consumed =
     (let (r, start, fin, w) = roundTripTimed env w (job_req job) in
      case r of
        Inl err \<Rightarrow> (w, [])
      | Inr resp \<Rightarrow>
          if expired then (w, [])
          else snd (logged_HandleValidationResponse sl env
            \<lparr>rv_URLKey = job_urlKey job, rv_Start = start, rv_End = fin, rv_CCReq = job_ccReq job,
             rv_Stored = rest_of_body consumed (job_stored job), rv_Freshness = job_freshness job,
             rv_Refs = [], rv_RefIndex = 0\<rparr>
            (job_req job) resp w))"

subsection \<open>Logging changes nothing\<close>

lemma erase_simps [simp]: "erase (out, w, records) = (out, w)"
  by (simp add: erase_def)

lemma erase_case [simp]: "erase (case x of (out, w, records) \<Rightarrow> (out, w, f records)) = erase x"
  by (simp add: erase_def case_prod_beta)

lemma snd_erase: "fst (snd x) = snd (erase x)"
  by (simp add: erase_def)

lemma erase_HandleValidationResponse:
  "erase (logged_HandleValidationResponse sl env ctx req resp w) = HandleValidationResponse env ctx req resp w"
  by (simp add: logged_HandleValidationResponse_def HandleValidationResponse_def Let_def
      if_distrib [of erase] split: prod.split option.split)

lemma erase_handleUnrecognizedMethod:
  "erase (logged_handleUnrecognizedMethod sl env w req k) = handleUnrecognizedMethod env w req k"
  by (simp add: logged_handleUnrecognizedMethod_def handleUnrecognizedMethod_def Let_def
      split: prod.split option.split sum.split)

lemma erase_handleCacheMiss:
  "erase (logged_handleCacheMiss sl env w req k refs i) = handleCacheMiss env w req k refs i"
  by (simp add: logged_handleCacheMiss_def handleCacheMiss_def Let_def split: prod.split sum.split)

lemma erase_serveFromCache:
  "erase (logged_serveFromCache sl env w req k e f q fs) = serveFromCache env w e f q fs"
  by (simp add: logged_serveFromCache_def serveFromCache_def Let_def split: prod.split)

lemma erase_handleStaleWhileRevalidate:
  "erase (logged_handleStaleWhileRevalidate sl env w req e k f cc) = handleStaleWhileRevalidate env w req e k f cc"
  by (simp add: logged_handleStaleWhileRevalidate_def handleStaleWhileRevalidate_def Let_def)

lemma erase_revalidate:
  "erase (logged_revalidate sl env w req e k refs i f cc) = revalidate env w req e k refs i f cc"
  by (simp add: logged_revalidate_def revalidate_def erase_HandleValidationResponse Let_def
      split: prod.split sum.split)

lemma erase_handleCacheHit:
  "erase (logged_handleCacheHit sl env w req e k refs i) = handleCacheHit env w req e k refs i"
  by (simp only: logged_handleCacheHit_def handleCacheHit_def Let_def case_prod_beta if_distrib [of erase]
      erase_serveFromCache erase_handleStaleWhileRevalidate erase_revalidate)

lemma erase_RoundTrip: "erase (logged_RoundTrip sl env w req) = RoundTrip env w req"
  by (simp add: logged_RoundTrip_def RoundTrip_def erase_handleUnrecognizedMethod erase_handleCacheMiss
      erase_handleCacheHit Let_def split: prod.split option.split sum.split list.split)

lemma fst_backgroundRevalidate:
  "fst (logged_backgroundRevalidate sl env w job expired consumed) = backgroundRevalidate env w job expired consumed"
  by (simp add: logged_backgroundRevalidate_def backgroundRevalidate_def snd_erase
      erase_HandleValidationResponse Let_def split: prod.split sum.split)

subsection \<open>What is logged\<close>

text \<open>One call of the logger for event \<open>e\<close>, about a request and without an error.\<close>

definition one_call :: "'h slog \<Rightarrow> string \<Rightarrow> log_record list \<Rightarrow> bool" where
  "one_call sl e records \<longleftrightarrow>
     (\<exists>req msg status k m. cs_Value status = e \<and>
        records = logCache sl (sl_Context sl req) LevelDebug msg
          (status, req, \<lparr>le_URLKey = k, le_Misc = m, le_Error = None\<rparr>))"

definition tells :: "'h slog \<Rightarrow> (http_response \<Rightarrow> string) \<Rightarrow> 's logged \<Rightarrow> bool" where
  "tells sl event x \<longleftrightarrow>
     (case fst x of Responded r \<Rightarrow> one_call sl (event r) (snd (snd x)) | _ \<Rightarrow> snd (snd x) = [])"

lemma one_callI:
  "one_call sl (cs_Value status) (logCache sl (sl_Context sl req) LevelDebug msg
     (status, req, \<lparr>le_URLKey = k, le_Misc = m, le_Error = None\<rparr>))"
  unfolding one_call_def by blast

lemma one_call_calls [simp]:
  "one_call sl ''HIT'' (LogCacheHit sl req k m)"
  "one_call sl ''MISS'' (LogCacheMiss sl req k m)"
  "one_call sl ''STALE'' (LogCacheStaleIfError sl req k m)"
  "one_call sl ''STALE'' (LogCacheStaleRevalidate sl req k m)"
  "one_call sl ''REVALIDATED'' (LogCacheRevalidated sl req k m)"
  "one_call sl ''BYPASS'' (LogCacheBypass sl msg req k m)"
  using one_callI [of sl CacheStatusHit] one_callI [of sl CacheStatusMiss] one_callI [of sl CacheStatusStale]
    one_callI [of sl CacheStatusRevalidated] one_callI [of sl CacheStatusBypass]
  by (simp_all add: log_calls)

lemma tells_simps [simp]:
  "tells sl event (Responded r, w, records) \<longleftrightarrow> one_call sl (event r) records"
  "tells sl event (Failed err, w, records) \<longleftrightarrow> records = []"
  "tells sl event (Panicked, w, records) \<longleftrightarrow> records = []"
  by (simp_all add: tells_def)

lemma tells_HandleValidationResponse: "tells sl status_of (logged_HandleValidationResponse sl env ctx req resp w)"
  by (simp add: logged_HandleValidationResponse_def Let_def if_distrib [of "tells sl status_of"]
      split: prod.split option.split)

lemma tells_handleUnrecognizedMethod: "tells sl status_of (logged_handleUnrecognizedMethod sl env w req k)"
  by (simp add: logged_handleUnrecognizedMethod_def Let_def split: prod.split option.split sum.split)

lemma tells_handleCacheMiss:
  "tells sl (\<lambda>r. if Req_OnlyIfCached (req_cc req) then ''MISS'' else status_of r)
     (logged_handleCacheMiss sl env w req k refs i)"
  by (simp add: logged_handleCacheMiss_def Let_def split: prod.split sum.split)

lemma tells_handleCacheHit: "tells sl status_of (logged_handleCacheHit sl env w req e k refs i)"
  by (simp add: logged_handleCacheHit_def logged_serveFromCache_def logged_handleStaleWhileRevalidate_def
      logged_revalidate_def tells_HandleValidationResponse Let_def split: prod.split sum.split)

text \<open>The 504 that answers an only-if-cached request is logged as a miss, but marked as a bypass.\<close>

definition logged_event :: "'s world \<Rightarrow> 's world \<Rightarrow> http_response \<Rightarrow> string" where
  "logged_event w w' r = (if status_of r = ''BYPASS'' \<and> w_sent w' = w_sent w then ''MISS'' else status_of r)"

lemma tells_mono:
  assumes "tells sl event (out, w', records)" "\<And>r. out = Responded r \<Longrightarrow> event r = event' r"
  shows "tells sl event' (out, w', records)"
  using assms by (cases out) simp_all

text \<open>A round trip calls the logger once for its response, after an entry that could not be read.\<close>

definition told :: "'h slog \<Rightarrow> 's world \<Rightarrow> 's logged \<Rightarrow> bool" where
  "told sl w x \<longleftrightarrow>
     (\<exists>errors rest. snd (snd x) = errors @ rest \<and>
        tells sl (logged_event w (fst (snd x))) (fst x, fst (snd x), rest) \<and>
        (errors = [] \<or> (\<exists>msg err req k m. errors = LogCacheError sl msg err req k m)))"

lemma told_tells: "tells sl (logged_event w w') (out, w', records) \<Longrightarrow> told sl w (out, w', records)"
  unfolding told_def by force

lemma tells_unrecognized: "told sl w (logged_handleUnrecognizedMethod sl env w req k)"
proof -
  obtain out w' records where x: "logged_handleUnrecognizedMethod sl env w req k = (out, w', records)" by (metis surj_pair)
  have "handleUnrecognizedMethod env w req k = (out, w')"
    using erase_handleUnrecognizedMethod [of sl env w req k] x by simp
  then have s: "w_sent w' = w_sent w @ [req]" by (rule handleUnrecognizedMethod_world)
  have "tells sl status_of (out, w', records)" using tells_handleUnrecognizedMethod [of sl env w req k] x by simp
  then have "tells sl (logged_event w w') (out, w', records)"
    by (rule tells_mono) (simp add: logged_event_def s)
  then show ?thesis unfolding x by (rule told_tells)
qed

lemma tells_miss:
  assumes "logged_handleCacheMiss sl env w req k refs i = (out, w', records)" "w_sent w = w_sent w0"
  shows "tells sl (logged_event w0 w') (out, w', records)"
proof -
  have h: "handleCacheMiss env w req k refs i = (out, w')"
    using erase_handleCacheMiss [of sl env w req k refs i] assms(1) by simp
  have "tells sl (\<lambda>r. if Req_OnlyIfCached (req_cc req) then ''MISS'' else status_of r) (out, w', records)"
    using tells_handleCacheMiss [of sl req env w k refs i] assms(1) by simp
  then show ?thesis
    by (rule tells_mono)
      (use handleCacheMiss_world(2) [OF h] assms(2) in \<open>auto simp: logged_event_def status_504 split: if_splits\<close>)
qed

lemma told_miss: "w_sent w = w_sent w0 \<Longrightarrow> told sl w0 (logged_handleCacheMiss sl env w req k refs i)"
  using tells_miss told_tells by (metis surj_pair)

lemma told_error:
  assumes "logged_handleCacheMiss sl env w req k refs i = (out, w', records)" "w_sent w = w_sent w0"
  shows "told sl w0 (out, w', LogCacheError sl msg err rq k' m @ records)"
  using tells_miss [OF assms] unfolding told_def by fastforce

lemma told_hit:
  assumes "w_sent w = w_sent w0"
  shows "told sl w0 (logged_handleCacheHit sl env w req e k refs i)"
proof -
  obtain out w' records where x: "logged_handleCacheHit sl env w req e k refs i = (out, w', records)" by (metis surj_pair)
  have h: "handleCacheHit env w req e k refs i = (out, w')"
    using erase_handleCacheHit [of sl env w req e k refs i] x by simp
  have "tells sl status_of (out, w', records)" using tells_handleCacheHit [of sl env w req e k refs i] x by simp
  then have "tells sl (logged_event w0 w') (out, w', records)"
    by (rule tells_mono) (use handleCacheHit_outcome [OF h] assms in \<open>auto simp: logged_event_def\<close>)
  then show ?thesis unfolding x by (rule told_tells)
qed

lemma told_RoundTrip: "told sl w (logged_RoundTrip sl env w req)"
proof -
  have "told sl w (Panicked, w, [])" by (rule told_tells) simp
  then show ?thesis unfolding logged_RoundTrip_def Let_def
    by (auto intro!: tells_unrecognized told_miss told_hit elim!: told_error split: prod.split option.split sum.split list.split
        simp del: case_prod_conv)
qed

text \<open>A record that the handler gets has the shape of its level, and the level is enabled.\<close>

definition record_ok :: "'h slog \<Rightarrow> log_record \<Rightarrow> bool" where
  "record_ok sl x \<longleftrightarrow> record_conforms x \<and> (\<exists>c. sl_Enabled sl (lg_handler (sl_Logger sl)) c (lr_Level x))"

lemma logCache_record:
  assumes "x \<in> set (logCache sl c level msg (event, req, cl))" "le_Error cl \<noteq> None \<longleftrightarrow> level = LevelWarn"
  shows "record_ok sl x \<and> lr_Level x = level \<and> event_of x = cs_Value event"
proof -
  have "sl_Enabled sl (lg_handler (sl_Logger sl)) c level" using assms(1) by (metis logCache_off empty_iff list.set(1))
  then show ?thesis using logCache_conforms [OF assms] logCache_event [OF assms(1)] by (auto simp: record_ok_def)
qed

lemma one_call_record:
  assumes "one_call sl e records" "x \<in> set records"
  shows "record_ok sl x \<and> lr_Level x = LevelDebug \<and> event_of x = e"
proof -
  obtain req msg status k m where e: "cs_Value status = e" and
    r: "records = logCache sl (sl_Context sl req) LevelDebug msg (status, req, \<lparr>le_URLKey = k, le_Misc = m, le_Error = None\<rparr>)"
    using assms(1) unfolding one_call_def by blast
  from logCache_record [OF assms(2) [unfolded r]] e show ?thesis by simp
qed

lemma error_record:
  assumes "x \<in> set (LogCacheError sl msg err req k m)"
  shows "record_ok sl x \<and> lr_Level x = LevelWarn \<and> event_of x = ''error''"
  using logCache_record [OF assms [unfolded LogCacheError_def]] by simp

lemma tells_records: "tells sl event x \<Longrightarrow> y \<in> set (snd (snd x)) \<Longrightarrow> record_ok sl y"
  by (auto simp: tells_def dest: one_call_record split: outcome.splits)

lemma told_records:
  assumes "told sl w x" "y \<in> set (snd (snd x))"
  shows "record_ok sl y"
proof -
  obtain errors rest where r: "snd (snd x) = errors @ rest"
    "tells sl (logged_event w (fst (snd x))) (fst x, fst (snd x), rest)"
    and e: "errors = [] \<or> (\<exists>msg err req k m. errors = LogCacheError sl msg err req k m)"
    using assms(1) unfolding told_def by blast
  have "y \<in> set errors \<or> y \<in> set rest" using assms(2) r(1) by simp
  then show ?thesis using tells_records [OF r(2), unfolded snd_conv] e by (auto dest: error_record)
qed

lemma background_records:
  "y \<in> set (snd (logged_backgroundRevalidate sl env w job expired consumed)) \<Longrightarrow> record_ok sl y"
  using tells_records [OF tells_HandleValidationResponse]
  by (auto simp: logged_backgroundRevalidate_def Let_def split: prod.splits sum.splits if_splits)

lemma log_call_one:
  assumes "\<forall>c level. sl_Enabled sl (lg_handler (sl_Logger sl)) c level"
  shows "\<exists>x. LogCacheError sl msg err req k m = [x]" "one_call sl e records \<Longrightarrow> \<exists>x. records = [x]"
  using assms logCache_one unfolding LogCacheError_def one_call_def by blast+

lemma told_enabled:
  assumes "told sl w (out, w', records)" "\<forall>c level. sl_Enabled sl (lg_handler (sl_Logger sl)) c level"
  shows "\<exists>errors. length errors \<le> 1 \<and> (\<forall>x \<in> set errors. lr_Level x = LevelWarn \<and> event_of x = ''error'') \<and>
      (case out of
         Responded r \<Rightarrow> \<exists>x. records = errors @ [x] \<and> lr_Level x = LevelDebug \<and> event_of x = logged_event w w' r
       | _ \<Rightarrow> records = errors)"
proof -
  obtain errors rest where r: "records = errors @ rest" "tells sl (logged_event w w') (out, w', rest)"
    and e: "errors = [] \<or> (\<exists>msg err req k m. errors = LogCacheError sl msg err req k m)"
    using assms(1) unfolding told_def fst_conv snd_conv by blast
  have "length errors \<le> 1 \<and> (\<forall>x \<in> set errors. lr_Level x = LevelWarn \<and> event_of x = ''error'')"
  proof (cases "errors = []")
    case False
    then obtain msg err req k m where c: "errors = LogCacheError sl msg err req k m" using e by blast
    obtain x where "errors = [x]" using log_call_one(1) [OF assms(2)] c by metis
    then show ?thesis using error_record [of x sl msg err req k m] c by simp
  qed simp
  moreover have "case out of Responded r \<Rightarrow> \<exists>x. records = errors @ [x] \<and> lr_Level x = LevelDebug \<and> event_of x = logged_event w w' r
       | _ \<Rightarrow> records = errors"
  proof (cases out)
    case (Responded r)
    then have o: "one_call sl (logged_event w w' r) rest" using r(2) by simp
    obtain x where "rest = [x]" using log_call_one(2) [OF assms(2) o] by blast
    then show ?thesis using one_call_record [OF o, of x] r(1) Responded by simp
  qed (use r in simp_all)
  ultimately show ?thesis by blast
qed

text \<open>A logger that has every level enabled.\<close>

definition ex_slog :: "unit slog" where
  "ex_slog = \<lparr>sl_Logger = NewLogger (), sl_Enabled = (\<lambda>_ _ _. True), sl_WithAttrs = (\<lambda>h _. h),
     sl_WithGroup = (\<lambda>h _. h), sl_Context = (\<lambda>_. ContextWithTraceID [] ''t''), sl_URL = url_Path,
     sl_Host = (\<lambda>_. ''h''), sl_Status = (\<lambda>_. ''200 OK'')\<rparr>"

subsection \<open>Properties\<close>

text \<open>
  C12: A round trip with its log is the round trip without it, and with a logger that has every
  level enabled: a response carries one of the five values of the cache status header, a HIT, STALE
  or REVALIDATED one the from-cache header 1 too; a HIT sent no request, a MISS or REVALIDATED
  exactly one; and exactly one debug record is logged for it, the last one, whose event is the value
  of its status header, except that the 504 of an only-if-cached request, marked as BYPASS, is
  logged as MISS. Before it there is at most one warning, about an entry that could not be read. A
  round trip that fails or panics logs nothing else.
\<close>

theorem every_answer_is_marked_and_logged:
  assumes "logged_RoundTrip sl env w req = (out, w', records)"
    and "\<forall>c level. sl_Enabled sl (lg_handler (sl_Logger sl)) c level"
  shows "RoundTrip env w req = (out, w') \<and>
    (\<exists>errors. length errors \<le> 1 \<and> (\<forall>x \<in> set errors. lr_Level x = LevelWarn \<and> event_of x = ''error'') \<and>
      (case out of
         Responded r \<Rightarrow>
           (status_of r \<in> {''HIT'', ''STALE'', ''REVALIDATED''} \<and> from_cache r = ''1'' \<or>
             status_of r \<in> {''MISS'', ''BYPASS''}) \<and>
           (status_of r = ''HIT'' \<longrightarrow> w_sent w' = w_sent w) \<and>
           (status_of r \<in> {''MISS'', ''REVALIDATED''} \<longrightarrow> length (w_sent w') = Suc (length (w_sent w))) \<and>
           (\<exists>x. records = errors @ [x] \<and> lr_Level x = LevelDebug \<and>
             event_of x = (if status_of r = ''BYPASS'' \<and> w_sent w' = w_sent w then ''MISS'' else status_of r))
       | _ \<Rightarrow> records = errors))"
proof -
  have rt: "RoundTrip env w req = (out, w')" using erase_RoundTrip [of sl env w req] assms(1) by simp
  note t = told_enabled [OF told_RoundTrip [of sl w env req, unfolded assms(1)] assms(2)]
  show ?thesis
  proof (cases out)
    case (Responded r)
    show ?thesis using t rt RoundTrip_outcome [OF rt [unfolded Responded]]
      unfolding logged_event_def Responded outcome.case by blast
  qed (use t rt in simp_all)
qed

theorem every_answer_is_marked_and_logged_witness:
  "\<exists>r w' errors x. logged_RoundTrip ex_slog (ex_env ''max-age=60'' (Inl [])) (ex_stored ''max-age=60'') (ex_request ''GET'' []) =
      (Responded r, w', errors @ [x]) \<and> event_of x \<in> {status_of r, ''MISS''}"
proof -
  let ?rt = "logged_RoundTrip ex_slog (ex_env ''max-age=60'' (Inl [])) (ex_stored ''max-age=60'') (ex_request ''GET'' [])"
  obtain out w' records where x: "?rt = (out, w', records)" by (metis surj_pair)
  have on: "\<forall>c level. sl_Enabled ex_slog (lg_handler (sl_Logger ex_slog)) c level" by (simp add: ex_slog_def)
  obtain r v where "RoundTrip (ex_env ''max-age=60'' (Inl [])) (ex_stored ''max-age=60'') (ex_request ''GET'' []) = (Responded r, v)"
    by (rule ex_hit)
  with every_answer_is_marked_and_logged [OF x on] x show ?thesis by (auto split: if_splits)
qed

text \<open>
  C37: Every record that a round trip or a background revalidation hands to the handler of the
  logger has the type of its level: the attributes service, event, error (of a warning, and of no
  other), trace_id, request, cache and misc in this order, each at most once, the required ones all
  there, with values and groups of their types down to the stored response, its freshness and its
  reference; and its level is enabled. These are the types the code writes; docs/log.schema.md
  differs from them in the status of the cache group, a group of the value and whether it came from
  the cache rather than a string, and in the freshness group, which has a useful life and no
  timestamp.
\<close>

theorem log_records_are_well_formed:
  assumes "x \<in> set (snd (snd (logged_RoundTrip sl env w req))) \<union>
      set (snd (logged_backgroundRevalidate sl env v job expired consumed))"
  shows "record_conforms x \<and> (\<exists>c. sl_Enabled sl (lg_handler (sl_Logger sl)) c (lr_Level x))"
  using assms told_records [OF told_RoundTrip [of sl w env req]] background_records
  unfolding record_ok_def [symmetric] by blast

theorem log_records_are_well_formed_witness:
  "\<exists>x \<in> set (snd (snd (logged_RoundTrip ex_slog (ex_env ''max-age=60'' (Inl [])) (ex_stored ''max-age=60'') (ex_request ''GET'' [])))).
     record_conforms x"
proof -
  let ?rt = "logged_RoundTrip ex_slog (ex_env ''max-age=60'' (Inl [])) (ex_stored ''max-age=60'') (ex_request ''GET'' [])"
  have on: "\<forall>c level. sl_Enabled ex_slog (lg_handler (sl_Logger ex_slog)) c level" by (simp add: ex_slog_def)
  obtain r v where "RoundTrip (ex_env ''max-age=60'' (Inl [])) (ex_stored ''max-age=60'') (ex_request ''GET'' []) = (Responded r, v)"
    by (rule ex_hit)
  then obtain w' records where x: "?rt = (Responded r, w', records)"
    using erase_RoundTrip [of ex_slog "ex_env ''max-age=60'' (Inl [])" "ex_stored ''max-age=60''" "ex_request ''GET'' []"]
    by (cases ?rt) simp
  have "told ex_slog (ex_stored ''max-age=60'') (Responded r, w', records)"
    using told_RoundTrip [of ex_slog _ "ex_env ''max-age=60'' (Inl [])"] unfolding x [symmetric] .
  from told_enabled [OF this on] obtain errors y where "records = errors @ [y]"
    unfolding outcome.case by blast
  then have "y \<in> set (snd (snd ?rt))" using x by simp
  then show ?thesis using log_records_are_well_formed by blast
qed

end
