(* ===== verification/Refinement.thy ===== *)
theory Refinement
  imports FsContract Example
begin

text \<open>
  The backend is invisible: a transport over any backend that keeps its contract does what a
  transport over a plain map does. \<open>in_memory\<close> forgets the representation of the backend and keeps
  its contents, as the state of the in-memory backend; each operation commutes with it.
\<close>

subsection \<open>The abstraction\<close>

definition as_map :: "('s \<Rightarrow> string \<rightharpoonup> bytes) \<Rightarrow> 's \<Rightarrow> memCache" where
  "as_map contents s = \<lparr>mem_store = contents s\<rparr>"

definition in_memory :: "('s \<Rightarrow> string \<rightharpoonup> bytes) \<Rightarrow> 's world \<Rightarrow> memCache world" where
  "in_memory contents w =
     \<lparr>w_cache = as_map contents (w_cache w), w_tick = w_tick w, w_sent = w_sent w, w_pending = w_pending w\<rparr>"

definition over_memory :: "'s env \<Rightarrow> memCache env" where
  "over_memory env =
     \<lparr>e_lib = e_lib env, e_codec = e_codec env, e_conn = memcache, e_clk = e_clk env, e_upstream = e_upstream env,
      e_swrTimeout = e_swrTimeout env\<rparr>"

lemma over_memory_simps [simp]:
  "e_lib (over_memory env) = e_lib env" "e_codec (over_memory env) = e_codec env" "e_conn (over_memory env) = memcache"
  "e_clk (over_memory env) = e_clk env" "e_upstream (over_memory env) = e_upstream env"
  by (simp_all add: over_memory_def)

lemma in_memory_simps [simp]:
  "w_cache (in_memory c w) = as_map c (w_cache w)" "w_tick (in_memory c w) = w_tick w"
  "w_sent (in_memory c w) = w_sent w" "w_pending (in_memory c w) = w_pending w"
  "(in_memory c w)\<lparr>w_tick := n\<rparr> = in_memory c (w\<lparr>w_tick := n\<rparr>)"
  "(in_memory c w)\<lparr>w_sent := l\<rparr> = in_memory c (w\<lparr>w_sent := l\<rparr>)"
  "(in_memory c w)\<lparr>w_pending := p\<rparr> = in_memory c (w\<lparr>w_pending := p\<rparr>)"
  "(in_memory c w)\<lparr>w_cache := as_map c s\<rparr> = in_memory c (w\<lparr>w_cache := s\<rparr>)"
  by (simp_all add: in_memory_def)

lemma roundTripTimed_in_memory:
  "roundTripTimed (over_memory env) (in_memory c w) req =
     (let (r, a, b, w') = roundTripTimed env w req in (r, a, b, in_memory c w'))"
  by (simp add: roundTripTimed_eq Let_def split: sum.split)

text \<open>The response IDs of the references of a served key are served.\<close>

definition refs_good :: "(string \<Rightarrow> bool) \<Rightarrow> codec \<Rightarrow> (string \<rightharpoonup> bytes) \<Rightarrow> bool" where
  "refs_good good cd m \<longleftrightarrow> (\<forall>k. good k \<longrightarrow> (\<forall>i \<in> set (ResponseIDs (stored_refs cd m k)). good i))"

lemma refs_good_delete: "refs_good good cd m \<Longrightarrow> refs_good good cd (m(k := None))"
  by (auto simp: refs_good_def stored_refs_def ResponseIDs_def)

text \<open>The backend serves a URL key and all its variants, and the location keys of the next answer.\<close>

definition serves_variants :: "(string \<Rightarrow> bool) \<Rightarrow> string \<Rightarrow> bool" where
  "serves_variants good k \<longleftrightarrow> good k \<and> (\<forall>v. good (makeVaryKey k v))"

definition serves_locations :: "(string \<Rightarrow> bool) \<Rightarrow> 's env \<Rightarrow> 's world \<Rightarrow> http_request \<Rightarrow> bool" where
  "serves_locations good env w req \<longleftrightarrow>
     (\<forall>resp. e_upstream env (length (w_sent w)) req = Inr resp \<longrightarrow>
        (\<forall>hdr \<in> set locationHeaders. \<forall>k.
           location_key (e_lib env) (req_URL req) (resp_Header resp) hdr = Some k \<longrightarrow> good k))"

text \<open>One location header of an invalidation, apart from the test that it is of the same origin.\<close>

definition delete_location :: "'s conn \<Rightarrow> codec \<Rightarrow> string \<Rightarrow> 's deletions \<Rightarrow> 's deletions" where
  "delete_location conn cd k st =
     (let (r, s) = rc_GetRefs cd conn (snd st) k
      in del_once conn k (fold (del_once conn) (ResponseIDs (refs_or_nil r)) (fst st, s)))"

lemma invalidateLocationHeaders_step:
  "invalidateLocationHeaders lib cd conn u h (hdr # hdrs) st =
     (case location_key lib u h hdr of
        Some k \<Rightarrow> invalidateLocationHeaders lib cd conn u h hdrs (delete_location conn cd k st)
      | None \<Rightarrow>
          if Header_Get h hdr \<noteq> [] \<and> (\<exists>v. lib_url_Parse lib (Header_Get h hdr) = Some v \<and>
            sameOrigin lib u (ResolveReference u v)) then (True, st)
          else invalidateLocationHeaders lib cd conn u h hdrs st)"
  by (auto simp: location_key_def Let_def delete_location_def split: option.split prod.split)

subsection \<open>The operations commute with the abstraction\<close>

context driver_conn
begin

lemma conn_sim:
  assumes "invar s" "good k"
  shows "conn_Get memcache (as_map contents s) k = apsnd (as_map contents) (conn_Get cache s k)"
    and "conn_Set memcache (as_map contents s) k v = apsnd (as_map contents) (conn_Set cache s k v)"
    and "conn_Delete memcache (as_map contents s) k = apsnd (as_map contents) (conn_Delete cache s k)"
  using conn_specs [OF assms]
  by (auto simp: mem_defs as_map_def prod_eq_iff fun_upd_idem split: option.split)

lemma rc_sim:
  assumes "invar s" "good k"
  shows "rc_Get cd memcache (as_map contents s) k req = apsnd (as_map contents) (rc_Get cd cache s k req)"
    and "rc_Set cd memcache (as_map contents s) k e = apsnd (as_map contents) (rc_Set cd cache s k e)"
    and "rc_GetRefs cd memcache (as_map contents s) k = apsnd (as_map contents) (rc_GetRefs cd cache s k)"
    and "rc_SetRefs cd memcache (as_map contents s) k refs = apsnd (as_map contents) (rc_SetRefs cd cache s k refs)"
    and "rc_Delete memcache (as_map contents s) k = apsnd (as_map contents) (rc_Delete cache s k)"
  using assms
  by (simp_all add: rc_Get_def rc_Set_def rc_GetRefs_def rc_SetRefs_def rc_Delete_def conn_sim apsnd_def
      split: prod.split sum.split option.split)

lemma StoreResponse_sim:
  assumes "invar s" "good urlKey" "good (makeVaryKey urlKey (response_variant lib req resp))"
  shows "StoreResponse lib cd memcache (as_map contents s) req resp urlKey refs rq rs i =
    apsnd (apsnd (as_map contents)) (StoreResponse lib cd cache s req resp urlKey refs rq rs i)"
  using assms by (simp add: StoreResponse_alt Let_def rc_sim rc_specs new_entry_def)

lemma del_once_sim:
  assumes "invar (snd st)" "good k"
  shows "del_once memcache k (apsnd (as_map contents) st) = apsnd (as_map contents) (del_once cache k st)"
    and "invar (snd (del_once cache k st))"
  using assms by (simp_all add: del_once_def rc_sim rc_specs apsnd_def split_beta)

lemma del_all_sim:
  assumes "invar (snd st)" "\<forall>k \<in> set ks. good k"
  shows "fold (del_once memcache) ks (apsnd (as_map contents) st) = apsnd (as_map contents) (fold (del_once cache) ks st) \<and>
    invar (snd (fold (del_once cache) ks st))"
  using assms by (induction ks arbitrary: st) (simp_all add: del_once_sim)

lemma del_once_refs_good:
  "invar (snd st) \<Longrightarrow> good k \<Longrightarrow> refs_good good cd (contents (snd st)) \<Longrightarrow>
   refs_good good cd (contents (snd (del_once cache k st)))"
  by (simp add: del_once_def rc_specs refs_good_delete)

lemma del_all_refs_good:
  "invar (snd st) \<Longrightarrow> \<forall>k \<in> set ks. good k \<Longrightarrow> refs_good good cd (contents (snd st)) \<Longrightarrow>
   refs_good good cd (contents (snd (fold (del_once cache) ks st)))"
  by (induction ks arbitrary: st) (simp_all add: del_once_sim del_once_refs_good)

lemma delete_location_sim:
  assumes "invar (snd st)" "good k" "refs_good good cd (contents (snd st))"
  shows "delete_location memcache cd k (apsnd (as_map contents) st) = apsnd (as_map contents) (delete_location cache cd k st)"
    and "invar (snd (delete_location cache cd k st))"
    and "refs_good good cd (contents (snd (delete_location cache cd k st)))"
proof -
  obtain r s where r: "rc_GetRefs cd cache (snd st) k = (r, s)" by fastforce
  have s: "invar s" "contents s = contents (snd st)"
    using rc_GetRefs_result(2,3) [OF assms(1,2), of cd] r by simp_all
  have ids: "\<forall>i \<in> set (ResponseIDs (refs_or_nil r)). good i"
    using rc_GetRefs_result(1) [OF assms(1,2), of cd] r assms(2,3) by (simp add: refs_good_def)
  let ?st = "fold (del_once cache) (ResponseIDs (refs_or_nil r)) (fst st, s)"
  have all: "fold (del_once memcache) (ResponseIDs (refs_or_nil r)) (fst st, as_map contents s)
      = apsnd (as_map contents) ?st" "invar (snd ?st)"
    using del_all_sim [of "(fst st, s)", OF _ ids] s by simp_all
  have rg: "refs_good good cd (contents (snd ?st))" using s assms(3) ids by (intro del_all_refs_good) simp_all
  have mem: "rc_GetRefs cd memcache (as_map contents (snd st)) k = (r, as_map contents s)"
    using rc_sim(3) [OF assms(1,2), of cd] r by simp
  show "delete_location memcache cd k (apsnd (as_map contents) st) = apsnd (as_map contents) (delete_location cache cd k st)"
    "invar (snd (delete_location cache cd k st))" "refs_good good cd (contents (snd (delete_location cache cd k st)))"
    using del_once_sim [OF all(2) assms(2)] del_once_refs_good [OF all(2) assms(2) rg]
    by (simp_all add: delete_location_def r mem all(1))
qed

lemma invalidateLocationHeaders_sim:
  assumes "invar (snd st)" "refs_good good cd (contents (snd st))"
    and "\<forall>hdr \<in> set hdrs. \<forall>k. location_key lib u h hdr = Some k \<longrightarrow> good k"
  shows "invalidateLocationHeaders lib cd memcache u h hdrs (apsnd (as_map contents) st) =
      apsnd (apsnd (as_map contents)) (invalidateLocationHeaders lib cd cache u h hdrs st) \<and>
    invar (snd (snd (invalidateLocationHeaders lib cd cache u h hdrs st)))"
  using assms
proof (induction hdrs arbitrary: st)
  case (Cons hdr hdrs)
  have good: "location_key lib u h hdr = Some k \<Longrightarrow> good k" for k using Cons.prems(3) by simp
  show ?case
    unfolding invalidateLocationHeaders_step
    using Cons.IH [OF Cons.prems(1,2)] Cons.IH [OF delete_location_sim(2,3) [OF Cons.prems(1) good Cons.prems(2)]]
      delete_location_sim(1) [OF Cons.prems(1) good Cons.prems(2)] Cons.prems(1,3)
    by (auto split: option.splits)
qed simp

lemma InvalidateCache_sim:
  assumes "invar s" "refs_good good cd (contents s)" "good key" "\<forall>i \<in> set (ResponseIDs refs). good i"
    and "\<forall>hdr \<in> set locationHeaders. \<forall>k. location_key lib u h hdr = Some k \<longrightarrow> good k"
  shows "InvalidateCache lib cd memcache (as_map contents s) u h refs key =
      apsnd (as_map contents) (InvalidateCache lib cd cache s u h refs key)"
    and "invar (snd (InvalidateCache lib cd cache s u h refs key))"
proof -
  let ?st = "fold (del_once cache) (ResponseIDs refs) ([], s)"
  have st: "fold (del_once memcache) (ResponseIDs refs) ([], as_map contents s) = apsnd (as_map contents) ?st" "invar (snd ?st)"
    using del_all_sim [of "([], s)", OF _ assms(4)] assms(1) by simp_all
  have "refs_good good cd (contents (snd ?st))" using assms by (intro del_all_refs_good) simp_all
  note L = invalidateLocationHeaders_sim [OF st(2) this assms(5)]
  then show "InvalidateCache lib cd memcache (as_map contents s) u h refs key =
      apsnd (as_map contents) (InvalidateCache lib cd cache s u h refs key)"
    using del_once_sim(1) [OF _ assms(3)] by (auto simp: InvalidateCache_def Let_def st split_beta)
  show "invar (snd (InvalidateCache lib cd cache s u h refs key))"
    using L del_once_sim(2) [OF _ assms(3)] by (auto simp: InvalidateCache_def Let_def split_beta)
qed

lemma store_response_sim:
  assumes "e_conn env = cache" "invar (w_cache w)" "serves_variants good k"
  shows "store_response (over_memory env) (in_memory contents w) req resp k refs rq rs i =
      apsnd (in_memory contents) (store_response env w req resp k refs rq rs i)"
    and "invar (w_cache (snd (store_response env w req resp k refs rq rs i)))"
  using assms StoreResponse_sim [OF assms(2), of k "e_lib env" req resp "e_codec env" refs rq rs i]
    StoreResponse_invar [OF assms(2), of k "e_lib env" req resp "e_codec env" refs rq rs i]
  by (simp_all add: store_response_def serves_variants_def case_prod_beta Let_def)

lemma HandleValidationResponse_sim:
  assumes "e_conn env = cache" "invar (w_cache w)" "serves_variants good (rv_URLKey ctx)" "req_Method req = ''GET''"
  shows "HandleValidationResponse (over_memory env) ctx req resp (in_memory contents w) =
      apsnd (in_memory contents) (HandleValidationResponse env ctx req resp w)"
    and "invar (w_cache (snd (HandleValidationResponse env ctx req resp w)))"
proof -
  have safe: "req_Method req = ''GET''" "\<not> IsUnsafeMethod ''GET''" using assms(4) by (simp_all add: IsUnsafeMethod_def)
  note S = store_response_sim [OF assms(1) _ assms(3)]
  show "HandleValidationResponse (over_memory env) ctx req resp (in_memory contents w) =
      apsnd (in_memory contents) (HandleValidationResponse env ctx req resp w)"
    using assms(2) safe by (simp add: HandleValidationResponse_def S case_prod_beta Let_def)
  show "invar (w_cache (snd (HandleValidationResponse env ctx req resp w)))"
    using assms(2) safe S(2) by (simp add: HandleValidationResponse_def case_prod_beta Let_def)
qed

lemma handleCacheMiss_sim:
  assumes "e_conn env = cache" "invar (w_cache w)" "serves_variants good k"
  shows "handleCacheMiss (over_memory env) (in_memory contents w) req k refs i =
      apsnd (in_memory contents) (handleCacheMiss env w req k refs i)"
    and "invar (w_cache (snd (handleCacheMiss env w req k refs i)))"
proof -
  obtain r a b w1 where r: "roundTripTimed env w req = (r, a, b, w1)" by (metis prod_cases4)
  then have w1: "invar (w_cache w1)" using roundTripTimed_cache [OF r] assms(2) by simp
  note S = store_response_sim [OF assms(1) w1 assms(3)]
  have m: "roundTripTimed (over_memory env) (in_memory contents w) req = (r, a, b, in_memory contents w1)"
    by (simp add: roundTripTimed_in_memory r)
  show "handleCacheMiss (over_memory env) (in_memory contents w) req k refs i =
      apsnd (in_memory contents) (handleCacheMiss env w req k refs i)"
    by (simp add: handleCacheMiss_def r m S(1) case_prod_beta Let_def split: sum.split)
  show "invar (w_cache (snd (handleCacheMiss env w req k refs i)))"
    using assms(2) w1 S(2) by (simp add: handleCacheMiss_def r case_prod_beta Let_def split: sum.split)
qed

lemma revalidate_sim:
  assumes "e_conn env = cache" "invar (w_cache w)" "serves_variants good k" "req_Method req = ''GET''"
  shows "revalidate (over_memory env) (in_memory contents w) req e k refs i f reqCC =
      apsnd (in_memory contents) (revalidate env w req e k refs i f reqCC)"
    and "invar (w_cache (snd (revalidate env w req e k refs i f reqCC)))"
proof -
  let ?req = "withConditionalHeaders req (resp_Header (ent_Data e))"
  obtain r a b w1 where r: "roundTripTimed env w ?req = (r, a, b, w1)" by (metis prod_cases4)
  then have w1: "invar (w_cache w1)" using roundTripTimed_cache [OF r] assms(2) by simp
  have m: "roundTripTimed (over_memory env) (in_memory contents w) ?req = (r, a, b, in_memory contents w1)"
    by (simp add: roundTripTimed_in_memory r)
  note H = HandleValidationResponse_sim [OF assms(1) w1]
  show "revalidate (over_memory env) (in_memory contents w) req e k refs i f reqCC =
      apsnd (in_memory contents) (revalidate env w req e k refs i f reqCC)"
    using assms(3,4) by (simp add: revalidate_def r m H(1) split: sum.split)
  show "invar (w_cache (snd (revalidate env w req e k refs i f reqCC)))"
    using assms(3,4) w1 by (simp add: revalidate_def r H(2) split: sum.split)
qed

lemma handleCacheHit_sim:
  assumes "e_conn env = cache" "invar (w_cache w)" "serves_variants good k" "req_Method req = ''GET''"
  shows "handleCacheHit (over_memory env) (in_memory contents w) req e k refs i =
      apsnd (in_memory contents) (handleCacheHit env w req e k refs i)"
    and "invar (w_cache (snd (handleCacheHit env w req e k refs i)))"
proof -
  have swr: "swr_window (over_memory env) (in_memory contents v) f cc = apsnd (in_memory contents) (swr_window env v f cc)"
    "invar (w_cache v) \<Longrightarrow> invar (w_cache (snd (swr_window env v f cc)))" for v f cc
    by (simp_all add: swr_window_def Let_def split: option.split)
  have srv: "serveFromCache (over_memory env) (in_memory contents v) e f q fs
      = apsnd (in_memory contents) (serveFromCache env v e f q fs)"
    "invar (w_cache v) \<Longrightarrow> invar (w_cache (snd (serveFromCache env v e f q fs)))" for v f q fs
    by (simp_all add: serveFromCache_def case_prod_beta Let_def)
  have sw: "handleStaleWhileRevalidate (over_memory env) (in_memory contents v) req e k f cc
      = apsnd (in_memory contents) (handleStaleWhileRevalidate env v req e k f cc)"
    "invar (w_cache v) \<Longrightarrow> invar (w_cache (snd (handleStaleWhileRevalidate env v req e k f cc)))" for v f cc
    by (simp_all add: handleStaleWhileRevalidate_def Let_def)
  note R = revalidate_sim [OF assms(1) _ assms(3,4)]
  show "handleCacheHit (over_memory env) (in_memory contents w) req e k refs i =
      apsnd (in_memory contents) (handleCacheHit env w req e k refs i)"
    using assms(2) swr(2)
    by (cases "Resp_NoCache (resp_cc (ent_Data e))")
      (simp_all add: handleCacheHit_def case_prod_beta Let_def swr(1) srv(1) sw(1) R(1))
  show "invar (w_cache (snd (handleCacheHit env w req e k refs i)))"
    using assms(2) by (simp add: handleCacheHit_def case_prod_beta Let_def swr(2) srv(2) sw(2) R(2))
qed

lemma handleUnrecognizedMethod_sim:
  assumes "e_conn env = cache" "invar (w_cache w)" "good k" "refs_good good (e_codec env) (contents (w_cache w))"
    and "serves_locations good env w req"
  shows "handleUnrecognizedMethod (over_memory env) (in_memory contents w) req k =
      apsnd (in_memory contents) (handleUnrecognizedMethod env w req k)"
    and "invar (w_cache (snd (handleUnrecognizedMethod env w req k)))"
proof -
  obtain r s where r: "rc_GetRefs (e_codec env) cache (w_cache w) k = (r, s)" by fastforce
  have s: "invar s" "contents s = contents (w_cache w)" "refs_or_nil r = stored_refs (e_codec env) (contents (w_cache w)) k"
    using rc_GetRefs_result [OF assms(2,3), of "e_codec env"] r by simp_all
  have mem: "rc_GetRefs (e_codec env) memcache (as_map contents (w_cache w)) k = (r, as_map contents s)"
    using rc_sim(3) [OF assms(2,3), of "e_codec env"] r by simp
  have "\<forall>i \<in> set (ResponseIDs (refs_or_nil r)). good i" using s(3) assms(3,4) by (simp add: refs_good_def)
  note I = InvalidateCache_sim [OF s(1) _ assms(3) this, where lib = "e_lib env" and u = "req_URL req"]
  have I1: "InvalidateCache (e_lib env) (e_codec env) memcache (as_map contents s) (req_URL req) (resp_Header resp)
      (refs_or_nil r) k = apsnd (as_map contents) (InvalidateCache (e_lib env) (e_codec env) cache s (req_URL req)
      (resp_Header resp) (refs_or_nil r) k)"
    "invar (snd (InvalidateCache (e_lib env) (e_codec env) cache s (req_URL req) (resp_Header resp) (refs_or_nil r) k))"
    if "e_upstream env (length (w_sent w)) req = Inr resp" for resp
    using I [of "e_codec env" "resp_Header resp"] s(2) assms(4,5) that
    by (simp_all add: serves_locations_def)
  show "handleUnrecognizedMethod (over_memory env) (in_memory contents w) req k =
      apsnd (in_memory contents) (handleUnrecognizedMethod env w req k)"
    by (auto simp: handleUnrecognizedMethod_def upstream_RoundTrip_def assms(1) r mem I1(1) Let_def
        split_beta split: sum.split)
  show "invar (w_cache (snd (handleUnrecognizedMethod env w req k)))"
    using assms(2) s(1) I1(2)
    by (auto simp: handleUnrecognizedMethod_def upstream_RoundTrip_def assms(1) r Let_def split_beta
        split: sum.split)
qed

lemma RoundTrip_sim:
  assumes "e_conn env = cache" "invar (w_cache w)" "refs_good good (e_codec env) (contents (w_cache w))"
    and "\<forall>k. Normalize (e_lib env) (req_URL req) = Some k \<longrightarrow> serves_variants good k"
    and "serves_locations good env w req"
  shows "RoundTrip (over_memory env) (in_memory contents w) req = apsnd (in_memory contents) (RoundTrip env w req)"
    and "invar (w_cache (snd (RoundTrip env w req)))"
proof -
  let ?thesis = "RoundTrip (over_memory env) (in_memory contents w) req = apsnd (in_memory contents) (RoundTrip env w req) \<and>
    invar (w_cache (snd (RoundTrip env w req)))"
  have ?thesis
  proof (cases "Normalize (e_lib env) (req_URL req)")
    case None
    then show ?thesis using assms(2) by (simp add: RoundTrip_def)
  next
    case (Some k)
    then have k: "serves_variants good k" "good k" using assms(4) by (simp_all add: serves_variants_def)
    show ?thesis
    proof (cases "isRequestMethodUnderstood req")
      case False
      then show ?thesis using handleUnrecognizedMethod_sim [OF assms(1,2) k(2) assms(3,5)] Some by (simp add: RoundTrip_def)
    next
      case True
      then have get: "req_Method req = ''GET''" by (simp add: isRequestMethodUnderstood_def)
      obtain r s where r: "rc_GetRefs (e_codec env) cache (w_cache w) k = (r, s)" by fastforce
      have s: "invar s" "contents s = contents (w_cache w)"
        "refs_or_nil r = stored_refs (e_codec env) (contents (w_cache w)) k"
        using rc_GetRefs_result [OF assms(2) k(2), of "e_codec env"] r by simp_all
      have rm: "rc_GetRefs (e_codec env) memcache (as_map contents (w_cache w)) k = (r, as_map contents s)"
        using rc_sim(3) [OF assms(2) k(2), of "e_codec env"] r by simp
      note M = handleCacheMiss_sim [OF assms(1) _ k(1), of _ req]
      note C = RoundTrip_def Some True r rm assms(1) Let_def
      show ?thesis
      proof (cases "refs_or_nil r = []")
        case True
        then have "(\<exists>err. r = Inl err) \<or> r = Inr []" by (cases r) (simp_all add: refs_or_nil_def)
        then show ?thesis using M s(1) by (auto simp: C)
      next
        case False
        then obtain ref rest where rr: "r = Inr (ref # rest)"
          by (cases r) (auto simp: refs_or_nil_def neq_Nil_conv)
        obtain refs found where v: "VaryHeadersMatch (e_lib env) (ref # rest) (req_Header req) = (refs, found)" by fastforce
        show ?thesis
        proof (cases found)
          case None
          then show ?thesis using M s(1) by (simp add: C rr v)
        next
          case (Some i)
          have "refs ! i \<in> set (ref # rest)" using VaryHeadersMatch_found(2) [OF v [unfolded Some]] .
          moreover have "stored_refs (e_codec env) (contents (w_cache w)) k = ref # rest"
            using s(3) rr by (simp add: refs_or_nil_def)
          ultimately have "refs ! i \<in> set (stored_refs (e_codec env) (contents (w_cache w)) k)" by (simp only:)
          then have g: "good (ref_ResponseID (refs ! i))"
            using assms(3) k(2) by (simp add: refs_good_def ResponseIDs_def)
          obtain re s2 where re: "rc_Get (e_codec env) cache s (ref_ResponseID (refs ! i)) req = (re, s2)" by fastforce
          then have s2: "invar s2" using rc_Get_result(3) [OF s(1) g, of "e_codec env" req] by simp
          have rem: "rc_Get (e_codec env) memcache (as_map contents s) (ref_ResponseID (refs ! i)) req = (re, as_map contents s2)"
            using rc_sim(1) [OF s(1) g, of "e_codec env" req] re by simp
          note H = handleCacheHit_sim [OF assms(1) _ k(1) get]
          show ?thesis using M H s2 by (cases re) (simp_all add: C rr v Some re rem)
        qed
      qed
    qed
  qed
  then show "RoundTrip (over_memory env) (in_memory contents w) req = apsnd (in_memory contents) (RoundTrip env w req)"
    "invar (w_cache (snd (RoundTrip env w req)))" by simp_all
qed

lemma backgroundRevalidate_sim:
  assumes "e_conn env = cache" "invar (w_cache w)" "serves_variants good (job_urlKey job)" "req_Method (job_req job) = ''GET''"
  shows "backgroundRevalidate (over_memory env) (in_memory contents w) job expired consumed =
      in_memory contents (backgroundRevalidate env w job expired consumed)"
    and "invar (w_cache (backgroundRevalidate env w job expired consumed))"
proof -
  obtain r a b w1 where r: "roundTripTimed env w (job_req job) = (r, a, b, w1)" by (metis prod_cases4)
  then have w1: "invar (w_cache w1)" using roundTripTimed_cache [OF r] assms(2) by simp
  have m: "roundTripTimed (over_memory env) (in_memory contents w) (job_req job) = (r, a, b, in_memory contents w1)"
    by (simp add: roundTripTimed_in_memory r)
  note H = HandleValidationResponse_sim [OF assms(1) w1 _ assms(4)]
  show "backgroundRevalidate (over_memory env) (in_memory contents w) job expired consumed =
      in_memory contents (backgroundRevalidate env w job expired consumed)"
    "invar (w_cache (backgroundRevalidate env w job expired consumed))"
    using assms(3) w1 by (simp_all add: backgroundRevalidate_def r m H Let_def split: sum.split)
qed

end

text \<open>
  C22: A round trip over any backend that keeps the driver contract does exactly what it does over
  the in-memory backend with the same contents: the same response or error, the same requests,
  background jobs and clock readings, and the resulting contents agree; the backend must serve the
  URL key, its variants and the location keys of the answer. It keeps the invariant of the backend.
\<close>

theorem backend_is_invisible:
  assumes "driver_conn (e_conn env) contents invar good" and "invar (w_cache w)"
    and "refs_good good (e_codec env) (contents (w_cache w))"
    and "\<forall>k. Normalize (e_lib env) (req_URL req) = Some k \<longrightarrow> serves_variants good k"
    and "serves_locations good env w req"
  shows "RoundTrip (over_memory env) (in_memory contents w) req = apsnd (in_memory contents) (RoundTrip env w req) \<and>
    invar (w_cache (snd (RoundTrip env w req)))"
  using driver_conn.RoundTrip_sim [OF assms(1) refl assms(2-5)] by (rule conjI)

lemma ex_no_location: "hdr \<in> set locationHeaders \<Longrightarrow> location_key lib u (ex_header cc) hdr = None"
  by (auto simp: locationHeaders_def location_key_def ex_header_def Header_Get_def Header_Values_def header_values_def)

text \<open>A file cache serves the variants of a short URL.\<close>

lemma length_nat_digits: "n < 10 ^ Suc k \<Longrightarrow> length (nat_digits n) \<le> Suc k"
proof (induction k arbitrary: n)
  case (Suc k)
  then have "n div 10 < 10 ^ Suc k" by (simp add: less_mult_imp_div_less mult.commute)
  from Suc.IH [OF this] show ?case by (subst nat_digits.simps) simp
qed (simp add: nat_digits.simps [of n for n])

lemma flat_variants:
  assumes "k \<noteq> []" "length k \<le> 170"
  shows "flat_key k \<and> flat_key (makeVaryKey k v)"
proof -
  have "makeVaryHash v < 2 ^ 64"
    using unsigned_less [of "fnv_write fnv_offset (vary_bytes v)", where ?'a = nat] by (simp add: makeVaryHash_def)
  then have "length (nat_digits (makeVaryHash v)) \<le> 20" using length_nat_digits [of "makeVaryHash v" 19] by simp
  then show ?thesis using assms by (simp add: flat_key_def makeVaryKey_def noVaryHash_def FormatUint_def)
qed

definition ex_file_env :: "fsCache env" where
  "ex_file_env =
     \<lparr>e_lib = ex_lib, e_codec = ex_codec ''max-age=60'', e_conn = fscache ex_config, e_clk = (\<lambda>n. (100 + int n) * second),
      e_upstream = (\<lambda>_ _. Inr (ex_response ''max-age=60'')), e_swrTimeout = DefaultSWRTimeout\<rparr>"

theorem backend_is_invisible_witness:
  "\<exists>out w'. RoundTrip ex_file_env (start_world fscache_Open) (ex_request ''GET'' []) = (out, w') \<and>
     RoundTrip (over_memory ex_file_env) (start_world memcache_Open) (ex_request ''GET'' []) = (out, in_memory (fs_contents ex_config {k. flat_key k}) w')"
proof -
  let ?env = ex_file_env and ?w = "start_world fscache_Open" and ?req = "ex_request ''GET'' []"
  let ?K = "{k. flat_key k}" and ?c = "fs_contents ex_config {k. flat_key k}"
  have conn: "driver_conn (e_conn ?env) ?c (fs_invar ex_config ?K) (\<lambda>k. k \<in> ?K)"
    unfolding ex_file_env_def by (simp only: env.simps fsc.driver_conn_axioms)
  have start: "fs_invar ex_config ?K (w_cache ?w)" "?c (w_cache ?w) = Map.empty"
    using fscache_Open_invar [OF ex_config_ok no_clash_flat [OF subset_refl]]
    by (simp_all add: start_world_def fscache_Open_contents)
  have refs: "refs_good (\<lambda>k. k \<in> ?K) (e_codec ?env) (?c (w_cache ?w))"
    by (simp add: start(2) refs_good_def stored_refs_def ResponseIDs_def)
  have keys: "\<forall>k. Normalize (e_lib ?env) (req_URL ?req) = Some k \<longrightarrow> serves_variants (\<lambda>k. k \<in> ?K) k"
    using flat_variants [of "''http://h/a''"] by (simp add: ex_file_env_def ex_key serves_variants_def ex_config_ok)
  have locs: "serves_locations (\<lambda>k. k \<in> ?K) ?env ?w ?req"
    by (simp add: serves_locations_def ex_file_env_def ex_no_location)
  have "in_memory ?c ?w = start_world memcache_Open"
    using start(2) by (simp add: in_memory_def as_map_def start_world_def memcache_Open_def)
  with backend_is_invisible [OF conn start(1) refs keys locs] show ?thesis
    by (cases "RoundTrip ?env ?w ?req") simp
qed

end
