(* ===== verification/Registry.thy ===== *)
theory Registry
  imports Conn
begin

text \<open>
  \<open>store/internal/registry\<close> and its facade \<open>store/cache.go\<close>: drivers by the scheme of the DSN that
  selects them. The registry's lock makes each operation one step. A panic is the left side of a
  result; \<open>url.Parse\<close> and the drivers themselves are parameters.
\<close>

type_synonym 'c driver = "url \<Rightarrow> cache_error + 'c"

record 'c driverRegistry =
  drivers :: "(string \<times> 'c driver) list"

datatype register_panic = DriverIsNil | CalledTwice string

datatype open_error = ErrParseURL | ErrUnknownDriver string | ErrDriver cache_error

definition registry_New :: "'c driverRegistry" where
  "registry_New = \<lparr>drivers = []\<rparr>"

definition RegisterDriver ::
  "'c driverRegistry \<Rightarrow> string \<Rightarrow> 'c driver option \<Rightarrow> register_panic + 'c driverRegistry" where
  "RegisterDriver dr name driver =
     (case driver of
        None \<Rightarrow> Inl DriverIsNil
      | Some d \<Rightarrow>
          if map_of (drivers dr) name \<noteq> None then Inl (CalledTwice name)
          else Inr (dr\<lparr>drivers := AList.update name d (drivers dr)\<rparr>))"

definition OpenConn :: "golib \<Rightarrow> 'c driverRegistry \<Rightarrow> string \<Rightarrow> open_error + 'c" where
  "OpenConn lib dr dsn =
     (case lib_url_Parse lib dsn of
        None \<Rightarrow> Inl ErrParseURL
      | Some u \<Rightarrow>
          (case map_of (drivers dr) (url_Scheme u) of
             None \<Rightarrow> Inl (ErrUnknownDriver (url_Scheme u))
           | Some driver \<Rightarrow> (case driver u of Inl err \<Rightarrow> Inl (ErrDriver err) | Inr conn \<Rightarrow> Inr conn)))"

definition Drivers :: "'c driverRegistry \<Rightarrow> string list" where
  "Drivers dr = sort (map fst (drivers dr))"

subsection \<open>Lemmas\<close>

definition registry_ok :: "'c driverRegistry \<Rightarrow> bool" where
  "registry_ok dr \<longleftrightarrow> distinct (map fst (drivers dr))"

lemma registry_New_ok: "registry_ok registry_New"
  by (simp add: registry_ok_def registry_New_def)

lemma RegisterDriver_ok: "registry_ok dr \<Longrightarrow> RegisterDriver dr name d = Inr dr' \<Longrightarrow> registry_ok dr'"
  by (auto simp: RegisterDriver_def registry_ok_def split: option.splits if_splits)

lemma Drivers_register:
  assumes "registry_ok dr" "RegisterDriver dr name d = Inr dr'"
  shows "sorted (Drivers dr') \<and> distinct (Drivers dr') \<and> set (Drivers dr') = insert name (set (Drivers dr))
    \<and> name \<notin> set (Drivers dr)"
proof -
  have "registry_ok dr'" using RegisterDriver_ok assms by blast
  moreover obtain f where f: "drivers dr' = AList.update name f (drivers dr)"
    and new: "map_of (drivers dr) name = None"
    using assms(2) by (auto simp: RegisterDriver_def split: option.splits if_splits)
  have "set (Drivers dr') = insert name (set (Drivers dr))"
    unfolding Drivers_def f set_sort set_map by (simp add: AList.dom_update)
  moreover have "name \<notin> set (Drivers dr)" using new by (simp add: Drivers_def map_of_eq_None_iff)
  ultimately show ?thesis by (simp add: Drivers_def registry_ok_def)
qed

lemma OpenConn_register:
  assumes "RegisterDriver dr name (Some d) = Inr dr'" "lib_url_Parse lib dsn = Some u"
  shows "OpenConn lib dr' dsn =
    (if url_Scheme u = name then (case d u of Inl err \<Rightarrow> Inl (ErrDriver err) | Inr conn \<Rightarrow> Inr conn)
     else OpenConn lib dr dsn)"
  using assms by (auto simp: RegisterDriver_def OpenConn_def split: if_splits)

end
