(* ===== verification/ServeMux.thy ===== *)
theory ServeMux
  imports UrlKey
begin

text \<open>
  The part of \<open>http.ServeMux\<close> that \<open>store/expapi\<close> registers its handlers with: patterns of a method and
  a path of literal and one-segment wildcard parts, without a host. A request is served by the most
  specific pattern that matches its method and its cleaned, escaped path; registering a pattern that
  equals or overlaps an earlier one panics. Patterns that end in a slash or in a wildcard for the
  rest of the path are left out, as are \<open>CONNECT\<close> requests.
\<close>

subsection \<open>Patterns\<close>

datatype segment = Lit string | Wild string

record 'h route =
  rt_Method :: string
  rt_Path :: "segment list"
  rt_Handler :: 'h

type_synonym 'h mux = "'h route list"

text \<open>How two patterns relate, by the requests they match.\<close>

datatype relationship = Equivalent | MoreGeneral | MoreSpecific | DisjointFrom | Overlaps

fun inverse_relationship :: "relationship \<Rightarrow> relationship" where
  "inverse_relationship MoreGeneral = MoreSpecific"
| "inverse_relationship MoreSpecific = MoreGeneral"
| "inverse_relationship r = r"

definition combine_relationships :: "relationship \<Rightarrow> relationship \<Rightarrow> relationship" where
  "combine_relationships r1 r2 =
     (case r1 of
        Equivalent \<Rightarrow> r2
      | DisjointFrom \<Rightarrow> DisjointFrom
      | Overlaps \<Rightarrow> (if r2 = DisjointFrom then DisjointFrom else Overlaps)
      | _ \<Rightarrow> (if r2 = Equivalent then r1 else if r2 = inverse_relationship r1 then Overlaps else r2))"

definition compare_methods :: "string \<Rightarrow> string \<Rightarrow> relationship" where
  "compare_methods m1 m2 =
     (if m1 = m2 then Equivalent
      else if m1 = ''GET'' \<and> m2 = ''HEAD'' then MoreGeneral
      else if m1 = ''HEAD'' \<and> m2 = ''GET'' then MoreSpecific
      else DisjointFrom)"

fun compare_segments :: "segment \<Rightarrow> segment \<Rightarrow> relationship" where
  "compare_segments (Lit a) (Lit b) = (if a = b then Equivalent else DisjointFrom)"
| "compare_segments (Lit a) (Wild y) = MoreSpecific"
| "compare_segments (Wild x) (Lit b) = MoreGeneral"
| "compare_segments (Wild x) (Wild y) = Equivalent"

definition compare_paths :: "segment list \<Rightarrow> segment list \<Rightarrow> relationship" where
  "compare_paths p q =
     (if length p \<noteq> length q then DisjointFrom
      else foldl (\<lambda>r (s, t). combine_relationships r (compare_segments s t)) Equivalent (zip p q))"

definition compare_routes :: "'h route \<Rightarrow> 'h route \<Rightarrow> relationship" where
  "compare_routes r1 r2 =
     combine_relationships (compare_methods (rt_Method r1) (rt_Method r2)) (compare_paths (rt_Path r1) (rt_Path r2))"

definition conflicts_with :: "'h route \<Rightarrow> 'h route \<Rightarrow> bool" where
  "conflicts_with r1 r2 \<longleftrightarrow> compare_routes r1 r2 \<in> {Equivalent, Overlaps}"

text \<open>\<open>mux.Handle\<close>; \<open>None\<close> is its panic.\<close>

definition mux_Handle :: "'h mux \<Rightarrow> 'h route \<Rightarrow> 'h mux option" where
  "mux_Handle mux r = (if list_ex (conflicts_with r) mux then None else Some (mux @ [r]))"

subsection \<open>Dispatch\<close>

fun path_decode :: "string \<Rightarrow> string option" where
  "path_decode [] = Some []"
| "path_decode (c # s) =
     (if c \<noteq> CHR ''%'' then map_option ((#) c) (path_decode s)
      else case s of
             d # e # s' \<Rightarrow>
               if isHexDigit d \<and> isHexDigit e
               then map_option ((#) (char_of (16 * fromHex d + fromHex e))) (path_decode s') else None
           | _ \<Rightarrow> None)"

definition path_unescape :: "string \<Rightarrow> string" where
  "path_unescape s = (case path_decode s of Some t \<Rightarrow> t | None \<Rightarrow> s)"

text \<open>The values of the wildcards, when the segments of the path match; a wildcard takes no empty segment.\<close>

fun match_segments :: "segment list \<Rightarrow> string list \<Rightarrow> (string \<times> string) list option" where
  "match_segments [] [] = Some []"
| "match_segments (Lit l # ps) (s # ss) = (if path_unescape s = l then match_segments ps ss else None)"
| "match_segments (Wild x # ps) (s # ss) =
     (if s = [] then None else map_option ((#) (x, path_unescape s)) (match_segments ps ss))"
| "match_segments _ _ = None"

definition method_matches :: "string \<Rightarrow> string \<Rightarrow> bool" where
  "method_matches pattern m \<longleftrightarrow> pattern = m \<or> pattern = ''GET'' \<and> m = ''HEAD''"

text \<open>A path is clean when it is rooted and no segment is a dot or two, or empty but the last.\<close>

definition clean_path :: "string \<Rightarrow> bool" where
  "clean_path p \<longleftrightarrow>
     (case Split p (CHR ''/'') of
        [] # s # ss \<Rightarrow>
          list_all (\<lambda>x. x \<noteq> ''.'' \<and> x \<noteq> ''..'') (s # ss) \<and> list_all (\<lambda>x. x \<noteq> []) (butlast (s # ss))
      | _ \<Rightarrow> False)"

text \<open>\<open>Served\<close> has the handler and the values of the wildcards; the other answers are the mux's own.\<close>

datatype 'h dispatch = Served 'h "(string \<times> string) list" | RedirectedToCleanPath | MethodNotAllowed | NotFound

definition mux_dispatch :: "'h mux \<Rightarrow> string \<Rightarrow> string \<Rightarrow> 'h dispatch" where
  "mux_dispatch mux method path =
     (if \<not> clean_path path then RedirectedToCleanPath
      else
        let segs = tl (Split path (CHR ''/''));
            fits = filter (\<lambda>r. match_segments (rt_Path r) segs \<noteq> None) mux;
            cands = filter (\<lambda>r. method_matches (rt_Method r) method) fits
        in case List.find (\<lambda>r. list_all (\<lambda>r'. compare_routes r' r \<noteq> MoreSpecific) cands) cands of
             Some r \<Rightarrow> Served (rt_Handler r) (the (match_segments (rt_Path r) segs))
           | None \<Rightarrow> if fits \<noteq> [] then MethodNotAllowed else NotFound)"

subsection \<open>Lemmas\<close>

text \<open>A segment of an escaped path that a wildcard takes as it is.\<close>

definition plain_segment :: "string \<Rightarrow> bool" where
  "plain_segment s \<longleftrightarrow> CHR ''/'' \<notin> set s \<and> s \<notin> {[], ''.'', ''..''}"

lemma Split_debug_key: "CHR ''/'' \<notin> set s \<Longrightarrow> Split (''/debug/httpcache/'' @ s) (CHR ''/'') = [[], ''debug'', ''httpcache'', s]"
  by (simp add: Split_no_sep)

lemma clean_debug_key: "plain_segment s \<Longrightarrow> clean_path (''/debug/httpcache/'' @ s)"
  unfolding clean_path_def by (subst Split_debug_key) (auto simp: plain_segment_def)

lemmas compare_defs = compare_routes_def compare_paths_def compare_methods_def combine_relationships_def

end
