(* ===== verification/ExpApi.thy ===== *)
theory ExpApi
  imports FsContract Registry ServeMux
begin

text \<open>
  \<open>store/expapi\<close>: the debugging handlers over a backend, with the status codes of every branch, and
  their registration with a mux. A connection may list its keys or not; opening one gives it with the
  state of its backend, and a handler returns the state it leaves.
\<close>

record 's api_conn =
  ac_conn :: "'s conn"
  ac_Keys :: "('s \<Rightarrow> string \<Rightarrow> (cache_error + string list) \<times> 's) option"

text \<open>A body is the bytes of an entry, the JSON of the keys, the text of an error, or absent.\<close>

datatype api_body = BodyBytes bytes | BodyKeys "string list" | BodyError string | NoBody

record api_response =
  api_Status :: int
  api_ContentType :: string
  api_Body :: api_body

definition http_Error :: "string \<Rightarrow> int \<Rightarrow> api_response" where
  "http_Error msg code =
     \<lparr>api_Status = code, api_ContentType = ''text/plain; charset=utf-8'', api_Body = BodyError msg\<rparr>"

definition api_list :: "'s api_conn \<Rightarrow> 's \<Rightarrow> string \<Rightarrow> api_response \<times> 's" where
  "api_list conn s prefix =
     (case ac_Keys conn of
        None \<Rightarrow> (http_Error ''cache does not support listing keys'' 501, s)
      | Some kl \<Rightarrow>
          (case kl s prefix of
             (Inl err, s) \<Rightarrow> (http_Error ''failed to list keys'' 500, s)
           | (Inr keys, s) \<Rightarrow>
               (\<lparr>api_Status = 200, api_ContentType = ''application/json'', api_Body = BodyKeys keys\<rparr>, s)))"

definition api_retrieve :: "'s api_conn \<Rightarrow> 's \<Rightarrow> string \<Rightarrow> api_response \<times> 's" where
  "api_retrieve conn s key =
     (case conn_Get (ac_conn conn) s key of
        (Inl err, s) \<Rightarrow>
          (if err = ErrNotExist then http_Error ''key not found'' 404
           else http_Error ''failed to get value for key'' 500, s)
      | (Inr value, s) \<Rightarrow>
          (\<lparr>api_Status = 200, api_ContentType = ''application/octet-stream'', api_Body = BodyBytes value\<rparr>, s))"

definition api_destroy :: "'s api_conn \<Rightarrow> 's \<Rightarrow> string \<Rightarrow> api_response \<times> 's" where
  "api_destroy conn s key =
     (case conn_Delete (ac_conn conn) s key of
        (Some err, s) \<Rightarrow>
          (if err = ErrNotExist then http_Error ''key not found'' 404
           else http_Error ''failed to delete value for key'' 500, s)
      | (None, s) \<Rightarrow> (\<lparr>api_Status = 204, api_ContentType = [], api_Body = NoBody\<rparr>, s))"

text \<open>A request as the handlers read it: the escaped path and the parsed query.\<close>

record api_request =
  ar_Method :: string
  ar_Path :: string
  ar_Query :: "(string \<times> string) list"

definition query_Get :: "api_request \<Rightarrow> string \<Rightarrow> string" where
  "query_Get r name = (case map_of (ar_Query r) name of Some v \<Rightarrow> v | None \<Rightarrow> [])"

definition keyFromRequest :: "(string \<times> string) list \<Rightarrow> string" where
  "keyFromRequest pathValues = (case map_of pathValues ''key'' of Some v \<Rightarrow> v | None \<Rightarrow> [])"

text \<open>
  \<open>connHandler\<close>: the connection is opened for each request. The answer is the response and the state
  of the backend, when it was opened.
\<close>

type_synonym 's api_handler = "api_request \<Rightarrow> (string \<times> string) list \<Rightarrow> api_response \<times> 's option"

definition connHandler ::
  "golib \<Rightarrow> ('s api_conn \<times> 's) driverRegistry \<Rightarrow>
   ('s api_conn \<Rightarrow> 's \<Rightarrow> api_request \<Rightarrow> (string \<times> string) list \<Rightarrow> api_response \<times> 's) \<Rightarrow> 's api_handler" where
  "connHandler lib co handler =
     (\<lambda>r pathValues.
        case OpenConn lib co (query_Get r ''dsn'') of
          Inl err \<Rightarrow> (http_Error ''failed to open cache'' 500, None)
        | Inr (conn, s) \<Rightarrow> apsnd Some (handler conn s r pathValues))"

definition ListHandler :: "golib \<Rightarrow> ('s api_conn \<times> 's) driverRegistry \<Rightarrow> 's api_handler" where
  "ListHandler lib co = connHandler lib co (\<lambda>conn s r pathValues. api_list conn s (query_Get r ''prefix''))"

definition RetrieveHandler :: "golib \<Rightarrow> ('s api_conn \<times> 's) driverRegistry \<Rightarrow> 's api_handler" where
  "RetrieveHandler lib co = connHandler lib co (\<lambda>conn s r pathValues. api_retrieve conn s (keyFromRequest pathValues))"

definition DestroyHandler :: "golib \<Rightarrow> ('s api_conn \<times> 's) driverRegistry \<Rightarrow> 's api_handler" where
  "DestroyHandler lib co = connHandler lib co (\<lambda>conn s r pathValues. api_destroy conn s (keyFromRequest pathValues))"

subsection \<open>Registration\<close>

datatype 'h register_option = WithServeMux "'h mux"

fun apply_register_option :: "'h register_option \<Rightarrow> 'h mux \<Rightarrow> 'h mux" where
  "apply_register_option (WithServeMux mux) _ = mux"

definition debug_path :: "segment list" where
  "debug_path = [Lit ''debug'', Lit ''httpcache'']"

text \<open>\<open>Register\<close>: the mux with the three handlers, or \<open>None\<close> where a pattern conflicts and \<open>Handle\<close> panics.\<close>

definition Register ::
  "golib \<Rightarrow> ('s api_conn \<times> 's) driverRegistry \<Rightarrow> 's api_handler mux \<Rightarrow> 's api_handler register_option list \<Rightarrow>
   's api_handler mux option" where
  "Register lib co DefaultServeMux opts =
     (let mux = fold apply_register_option opts DefaultServeMux in
      case mux_Handle mux \<lparr>rt_Method = ''GET'', rt_Path = debug_path, rt_Handler = ListHandler lib co\<rparr> of
        None \<Rightarrow> None
      | Some mux \<Rightarrow>
          (case mux_Handle mux \<lparr>rt_Method = ''GET'', rt_Path = debug_path @ [Wild ''key''],
                  rt_Handler = RetrieveHandler lib co\<rparr> of
             None \<Rightarrow> None
           | Some mux \<Rightarrow> mux_Handle mux \<lparr>rt_Method = ''DELETE'', rt_Path = debug_path @ [Wild ''key''],
                  rt_Handler = DestroyHandler lib co\<rparr>))"

text \<open>What the mux makes of a request; \<open>None\<close> stands for an answer of the mux itself.\<close>

definition mux_ServeHTTP :: "'s api_handler mux \<Rightarrow> api_request \<Rightarrow> (api_response \<times> 's option) option" where
  "mux_ServeHTTP mux r =
     (case mux_dispatch mux (ar_Method r) (ar_Path r) of
        Served handler pathValues \<Rightarrow> Some (handler r pathValues)
      | _ \<Rightarrow> None)"

subsection \<open>Lemmas\<close>

context driver_conn
begin

lemma api_retrieve_result:
  assumes "invar s" "good k" "ac_conn conn = cache"
  shows "fst (api_retrieve conn s k) =
    (case contents s k of
       None \<Rightarrow> http_Error ''key not found'' 404
     | Some v \<Rightarrow> \<lparr>api_Status = 200, api_ContentType = ''application/octet-stream'', api_Body = BodyBytes v\<rparr>)"
    and "contents (snd (api_retrieve conn s k)) = contents s" "invar (snd (api_retrieve conn s k))"
  using get_result [OF assms(1,2)] get_contents [OF assms(1,2)] get_invar [OF assms(1,2)] assms(3)
  by (cases "conn_Get cache s k"; auto simp: api_retrieve_def split: sum.splits option.splits)+

lemma api_destroy_result:
  assumes "invar s" "good k" "ac_conn conn = cache"
  shows "api_Status (fst (api_destroy conn s k)) = (if contents s k = None then 404 else 204)"
    and "contents (snd (api_destroy conn s k)) = (contents s)(k := None)" "invar (snd (api_destroy conn s k))"
  using delete_result [OF assms(1,2)] delete_contents [OF assms(1,2)] delete_invar [OF assms(1,2)] assms(3)
  by (cases "conn_Delete cache s k"; auto simp: api_destroy_def http_Error_def split: option.splits if_splits)+

end

context key_lister
begin

lemma api_list_result:
  assumes "invar s" "ac_Keys conn = Some keys"
  obtains ks s' where
    "api_list conn s prefix =
      (\<lparr>api_Status = 200, api_ContentType = ''application/json'', api_Body = BodyKeys ks\<rparr>, s')"
    "distinct ks" "set ks = {k. contents s k \<noteq> None \<and> has_prefix prefix k}"
    "contents s' = contents s" "invar s'"
proof -
  obtain r s' where r: "keys s prefix = (r, s')" by fastforce
  moreover obtain ks where "r = Inr ks" "distinct ks" "set ks = {k. contents s k \<noteq> None \<and> has_prefix prefix k}"
    using keys_result [OF assms(1), of prefix] r by auto
  moreover have "contents s' = contents s" "invar s'"
    using keys_contents [OF assms(1), of prefix] keys_invar [OF assms(1), of prefix] r by simp_all
  ultimately show ?thesis using assms(2) by (intro that [of ks s']) (simp_all add: api_list_def)
qed

end

definition fscache_api :: "fsConfig \<Rightarrow> fsCache api_conn" where
  "fscache_api cfg = \<lparr>ac_conn = fscache cfg, ac_Keys = Some (fs_Keys cfg)\<rparr>"

definition memcache_api :: "memCache api_conn" where
  "memcache_api = \<lparr>ac_conn = memcache, ac_Keys = None\<rparr>"

definition debug_routes :: "golib \<Rightarrow> ('s api_conn \<times> 's) driverRegistry \<Rightarrow> 's api_handler mux" where
  "debug_routes lib co =
     [\<lparr>rt_Method = ''GET'', rt_Path = debug_path, rt_Handler = ListHandler lib co\<rparr>,
      \<lparr>rt_Method = ''GET'', rt_Path = debug_path @ [Wild ''key''], rt_Handler = RetrieveHandler lib co\<rparr>,
      \<lparr>rt_Method = ''DELETE'', rt_Path = debug_path @ [Wild ''key''], rt_Handler = DestroyHandler lib co\<rparr>]"

lemma Register_fresh: "Register lib co dflt [WithServeMux []] = Some (debug_routes lib co)"
  by (simp add: Register_def mux_Handle_def conflicts_with_def compare_defs debug_path_def debug_routes_def)

text \<open>The patterns are taken: a second registration with the same mux panics.\<close>

lemma Register_twice: "Register lib co dflt [WithServeMux (debug_routes lib' co')] = None"
  by (simp add: Register_def mux_Handle_def conflicts_with_def compare_defs debug_path_def debug_routes_def)

lemma dispatch_list: "mux_dispatch (debug_routes lib co) ''GET'' ''/debug/httpcache'' = Served (ListHandler lib co) []"
  by (simp add: mux_dispatch_def clean_path_def debug_routes_def debug_path_def path_unescape_def method_matches_def compare_defs)

lemma dispatch_key:
  assumes "plain_segment s"
  shows "mux_dispatch (debug_routes lib co) ''GET'' (''/debug/httpcache/'' @ s) =
      Served (RetrieveHandler lib co) [(''key'', path_unescape s)]"
    and "mux_dispatch (debug_routes lib co) ''DELETE'' (''/debug/httpcache/'' @ s) =
      Served (DestroyHandler lib co) [(''key'', path_unescape s)]"
proof -
  have s: "CHR ''/'' \<notin> set s" "s \<noteq> []" using assms by (auto simp: plain_segment_def)
  have lit: "path_unescape ''debug'' = ''debug''" "path_unescape ''httpcache'' = ''httpcache''"
    by (simp_all add: path_unescape_def)
  show "mux_dispatch (debug_routes lib co) ''GET'' (''/debug/httpcache/'' @ s) =
      Served (RetrieveHandler lib co) [(''key'', path_unescape s)]"
    "mux_dispatch (debug_routes lib co) ''DELETE'' (''/debug/httpcache/'' @ s) =
      Served (DestroyHandler lib co) [(''key'', path_unescape s)]"
    unfolding mux_dispatch_def Split_debug_key [OF s(1)] not_not eqTrueI [OF clean_debug_key [OF assms]] not_True_eq_False if_False
    by (simp_all add: s(2) debug_routes_def debug_path_def lit method_matches_def compare_defs)
qed

lemma listed_keys_are_the_stored_keys:
  assumes "fs_invar cfg K s"
  shows "\<exists>ks s'. api_list (fscache_api cfg) s prefix =
      (\<lparr>api_Status = 200, api_ContentType = ''application/json'', api_Body = BodyKeys ks\<rparr>, s') \<and>
    distinct ks \<and> set ks = {k. fs_contents cfg K s k \<noteq> None \<and> has_prefix prefix k} \<and>
    fs_contents cfg K s' = fs_contents cfg K s"
  by (rule fsl.api_list_result [OF assms, of "fscache_api cfg" prefix]) (auto simp: fscache_api_def)

lemma connHandler_open:
  "OpenConn lib co dsn = Inr (conn, s) \<Longrightarrow>
     connHandler lib co h \<lparr>ar_Method = m, ar_Path = p, ar_Query = (''dsn'', dsn) # q\<rparr> vs =
       apsnd Some (h conn s \<lparr>ar_Method = m, ar_Path = p, ar_Query = (''dsn'', dsn) # q\<rparr> vs)"
  by (simp add: connHandler_def query_Get_def)

subsection \<open>Properties\<close>

text \<open>
  C38: The debugging API over a file-system cache, through the mux it is registered with and the
  driver that the dsn parameter names: GET /debug/httpcache answers 200 with exactly the stored keys
  that have the prefix, each once; GET of a key, escaped into one path segment, answers 200 with its
  bytes or 404; DELETE answers 204 and removes exactly this key, or 404 when it is absent; the first
  two change nothing. Registering a second time with the same mux panics.
\<close>

theorem debugging_api_serves_the_cache:
  assumes "Register lib co dflt [WithServeMux []] = Some mux" and "OpenConn lib co dsn = Inr (fscache_api cfg, s)"
    and "fs_invar cfg K s" and "path_unescape seg \<in> K" and "plain_segment seg"
  defines "key \<equiv> path_unescape seg" and "m \<equiv> fs_contents cfg K s"
  shows "(\<exists>ks s'. mux_ServeHTTP mux
        \<lparr>ar_Method = ''GET'', ar_Path = ''/debug/httpcache'', ar_Query = [(''dsn'', dsn), (''prefix'', prefix)]\<rparr> =
        Some (\<lparr>api_Status = 200, api_ContentType = ''application/json'', api_Body = BodyKeys ks\<rparr>, Some s') \<and>
      distinct ks \<and> set ks = {k. m k \<noteq> None \<and> has_prefix prefix k} \<and> fs_contents cfg K s' = m) \<and>
    (\<exists>s'. mux_ServeHTTP mux
        \<lparr>ar_Method = ''GET'', ar_Path = ''/debug/httpcache/'' @ seg, ar_Query = [(''dsn'', dsn)]\<rparr> =
        Some (case m key of
            None \<Rightarrow> http_Error ''key not found'' 404
          | Some v \<Rightarrow> \<lparr>api_Status = 200, api_ContentType = ''application/octet-stream'', api_Body = BodyBytes v\<rparr>,
          Some s') \<and> fs_contents cfg K s' = m) \<and>
    (\<exists>r s'. mux_ServeHTTP mux
        \<lparr>ar_Method = ''DELETE'', ar_Path = ''/debug/httpcache/'' @ seg, ar_Query = [(''dsn'', dsn)]\<rparr> =
        Some (r, Some s') \<and> api_Status r = (if m key = None then 404 else 204) \<and>
      fs_contents cfg K s' = m(key := None)) \<and>
    Register lib co dflt [WithServeMux mux] = None"
proof -
  have mux: "mux = debug_routes lib co" using assms(1) by (simp add: Register_fresh)
  have conn: "ac_conn (fscache_api cfg) = fscache cfg" by (simp add: fscache_api_def)
  have key: "keyFromRequest [(''key'', path_unescape seg)] = key" by (simp add: keyFromRequest_def key_def)
  have served: "mux_ServeHTTP mux \<lparr>ar_Method = ''GET'', ar_Path = ''/debug/httpcache'', ar_Query = (''dsn'', dsn) # q\<rparr> =
      Some (apsnd Some (api_list (fscache_api cfg) s (query_Get
        \<lparr>ar_Method = ''GET'', ar_Path = ''/debug/httpcache'', ar_Query = (''dsn'', dsn) # q\<rparr> ''prefix'')))"
    "mux_ServeHTTP mux \<lparr>ar_Method = ''GET'', ar_Path = ''/debug/httpcache/'' @ seg, ar_Query = [(''dsn'', dsn)]\<rparr> =
      Some (apsnd Some (api_retrieve (fscache_api cfg) s key))"
    "mux_ServeHTTP mux \<lparr>ar_Method = ''DELETE'', ar_Path = ''/debug/httpcache/'' @ seg, ar_Query = [(''dsn'', dsn)]\<rparr> =
      Some (apsnd Some (api_destroy (fscache_api cfg) s key))" for q
    unfolding mux_ServeHTTP_def api_request.simps mux dispatch_list dispatch_key [OF assms(5)] dispatch.case
      ListHandler_def RetrieveHandler_def DestroyHandler_def connHandler_open [OF assms(2)] key by (rule refl)+
  have K: "key \<in> K" using assms(4) by (simp add: key_def)
  note get = fsc.api_retrieve_result [OF assms(3) K conn] and del = fsc.api_destroy_result [OF assms(3) K conn]
  obtain a1 s1 a2 s2 where r: "api_retrieve (fscache_api cfg) s key = (a1, s1)" "api_destroy (fscache_api cfg) s key = (a2, s2)"
    by fastforce
  show ?thesis unfolding served(1) [of "[(''prefix'', prefix)]"] served(2,3) r
    using listed_keys_are_the_stored_keys [OF assms(3), of prefix] get(1,2) del(1,2) Register_twice [of lib co dflt lib co]
    by (auto simp: r query_Get_def mux m_def)
qed

theorem debugging_api_serves_the_cache_witness:
  "\<forall>(lib :: golib) u. let co = \<lparr>drivers = [(''fscache'', \<lambda>_. Inr (fscache_api ex_config, snd (fs_Set ex_config fscache_Open ''key'' ''value'')))]\<rparr>;
       lib = lib\<lparr>lib_url_Parse := \<lambda>_. Some (u\<lparr>url_Scheme := ''fscache''\<rparr>)\<rparr>
     in \<exists>mux s'. Register lib co [] [WithServeMux []] = Some mux \<and>
       mux_ServeHTTP mux \<lparr>ar_Method = ''GET'', ar_Path = ''/debug/httpcache/%6bey'', ar_Query = [(''dsn'', ''fscache://?appname=a'')]\<rparr> =
         Some (\<lparr>api_Status = 200, api_ContentType = ''application/octet-stream'', api_Body = BodyBytes ''value''\<rparr>, Some s')"
proof (intro allI)
  fix lib :: golib and u :: url
  let ?s = "snd (fs_Set ex_config fscache_Open ''key'' ''value'')"
  let ?co = "\<lparr>drivers = [(''fscache'', \<lambda>_. Inr (fscache_api ex_config, ?s))]\<rparr>"
  let ?lib = "lib\<lparr>lib_url_Parse := \<lambda>_. Some (u\<lparr>url_Scheme := ''fscache''\<rparr>)\<rparr>"
  have K: "no_clash {''key''}" by (rule no_clash_flat) (simp add: flat_key_def)
  have s: "fs_invar ex_config {''key''} ?s" "fs_contents ex_config {''key''} ?s = [''key'' \<mapsto> ''value'']"
    using fsc.conn_specs [of ex_config "{''key''}" fscache_Open "''key''"] fscache_Open_invar [OF ex_config_ok K]
    by (simp_all add: fscache_def fscache_Open_contents)
  have opened: "OpenConn ?lib ?co ''fscache://?appname=a'' = Inr (fscache_api ex_config, ?s)" by (simp add: OpenConn_def)
  have seg: "path_unescape ''%6bey'' = ''key''" "plain_segment ''%6bey''"
    by code_simp+
  from debugging_api_serves_the_cache [OF Register_fresh opened s(1), of "''%6bey''" "[]"]
  show "let co = ?co; lib = ?lib
     in \<exists>mux s'. Register lib co [] [WithServeMux []] = Some mux \<and>
       mux_ServeHTTP mux \<lparr>ar_Method = ''GET'', ar_Path = ''/debug/httpcache/%6bey'', ar_Query = [(''dsn'', ''fscache://?appname=a'')]\<rparr> =
         Some (\<lparr>api_Status = 200, api_ContentType = ''application/octet-stream'', api_Body = BodyBytes ''value''\<rparr>, Some s')"
    by (simp add: seg s(2) Register_fresh) blast
qed

end
