(* ===== verification/FsConfig.thy ===== *)
theory FsConfig
  imports FsCache
begin

text \<open>
  How \<open>store/fscache\<close> is configured: the options of \<open>fscache.go\<close>, the DSN parameters of \<open>fromURL\<close>,
  \<open>Open\<close> with \<open>initialize\<close>, and the key handling of \<open>newAESGCMEncryptor\<close>. The environment of the
  process (\<open>os.UserCacheDir\<close>, \<open>os.MkdirAll\<close>, \<open>os.OpenRoot\<close>, \<open>filepath.Join\<close>), \<open>time.ParseDuration\<close>,
  the decoder of the padded base64 key and AES-GCM are the parameters of \<open>fslib\<close>.
\<close>

record fslib =
  fl_ParseDuration :: "string \<Rightarrow> duration option"
  fl_DecodeKey :: "string \<Rightarrow> bytes option"
  fl_AESGCM :: "bytes \<Rightarrow> aead"
  fl_UserCacheDir :: "string option"
  fl_Join :: "string \<Rightarrow> string \<Rightarrow> string"
  fl_MkdirAll :: "string \<Rightarrow> bool"
  fl_OpenRoot :: "string \<Rightarrow> fs option"

datatype fs_open_error =
    ErrUserCacheDir | ErrMissingAppName | ErrCreateCacheDir | ErrOpenRoot
  | ErrEncryptionEnabledWithoutKey | ErrKeyEncoding | ErrKeySize nat | ErrConnectTimeout

record fsOptions =
  fo_root :: fs
  fo_base :: string
  fo_connTimeout :: duration
  fo_timeout :: duration
  fo_enc :: "aead option"
  fo_updateMTime :: bool

definition defaultTimeout :: duration where
  "defaultTimeout = 300 * second"

definition parseTimeout :: "fslib \<Rightarrow> string \<Rightarrow> duration" where
  "parseTimeout lib v =
     (if v = [] then 0
      else case fl_ParseDuration lib v of None \<Rightarrow> 0 | Some timeout \<Rightarrow> max timeout 0)"

definition newAESGCMEncryptor :: "fslib \<Rightarrow> string \<Rightarrow> fs_open_error + aead" where
  "newAESGCMEncryptor lib keyB64 =
     (case fl_DecodeKey lib keyB64 of
        None \<Rightarrow> Inl ErrKeyEncoding
      | Some key \<Rightarrow>
          if length key \<in> {16, 24, 32} then Inr (fl_AESGCM lib key) else Inl (ErrKeySize (length key)))"

datatype fs_option =
    WithConnectTimeout duration
  | WithTimeout duration
  | WithEncryption string
  | WithBaseDir string
  | WithUpdateMTime bool

fun apply_fs_option :: "fslib \<Rightarrow> fs_option \<Rightarrow> fsOptions \<Rightarrow> fs_open_error + fsOptions" where
  "apply_fs_option lib (WithConnectTimeout t) c = Inr (c\<lparr>fo_connTimeout := max t 0\<rparr>)"
| "apply_fs_option lib (WithTimeout t) c = Inr (c\<lparr>fo_timeout := max t 0\<rparr>)"
| "apply_fs_option lib (WithEncryption key) c =
     (if key = [] then Inl ErrEncryptionEnabledWithoutKey
      else case newAESGCMEncryptor lib key of
             Inl err \<Rightarrow> Inl err | Inr enc \<Rightarrow> Inr (c\<lparr>fo_enc := Some enc\<rparr>))"
| "apply_fs_option lib (WithBaseDir b) c = Inr (if b \<noteq> [] then c\<lparr>fo_base := b\<rparr> else c)"
| "apply_fs_option lib (WithUpdateMTime enabled) c = Inr (c\<lparr>fo_updateMTime := enabled\<rparr>)"

fun apply_fs_options :: "fslib \<Rightarrow> fs_option list \<Rightarrow> fsOptions \<Rightarrow> fs_open_error + fsOptions" where
  "apply_fs_options lib [] c = Inr c"
| "apply_fs_options lib (opt # opts) c =
     (case apply_fs_option lib opt c of Inl err \<Rightarrow> Inl err | Inr c \<Rightarrow> apply_fs_options lib opts c)"

definition fs_initialize :: "fslib \<Rightarrow> string \<Rightarrow> fsOptions \<Rightarrow> fs_open_error + fsOptions" where
  "fs_initialize lib appname c =
     (case (if fo_base c = [] then fl_UserCacheDir lib else Some (fo_base c)) of
        None \<Rightarrow> Inl ErrUserCacheDir
      | Some base \<Rightarrow>
          if appname = [] then Inl ErrMissingAppName
          else
            let base = fl_Join lib base appname in
            if \<not> fl_MkdirAll lib base then Inl ErrCreateCacheDir
            else case fl_OpenRoot lib base of
                   None \<Rightarrow> Inl ErrOpenRoot
                 | Some dir \<Rightarrow>
                     Inr (c\<lparr>fo_base := base, fo_root := dir,
                       fo_timeout := (if fo_timeout c \<noteq> 0 then fo_timeout c else defaultTimeout)\<rparr>))"

text \<open>\<open>late\<close>: the connection timeout passes before the initialisation is done.\<close>

definition zero_options :: fsOptions where
  "zero_options = \<lparr>fo_root = \<lparr>fs_files = [], fs_dirs = [], fs_mtimes = []\<rparr>, fo_base = [],
     fo_connTimeout = 0, fo_timeout = 0, fo_enc = None, fo_updateMTime = False\<rparr>"

definition fs_Open :: "fslib \<Rightarrow> bool \<Rightarrow> string \<Rightarrow> fs_option list \<Rightarrow> fs_open_error + fsOptions" where
  "fs_Open lib late appname opts =
     (case apply_fs_options lib opts zero_options of
        Inl err \<Rightarrow> Inl err
      | Inr c \<Rightarrow> if late then Inl ErrConnectTimeout else fs_initialize lib appname c)"

text \<open>The options a DSN stands for; \<open>q\<close> is \<open>u.Query().Get\<close>, \<open>path\<close> is \<open>u.Path\<close>.\<close>

definition dsn_options :: "golib \<Rightarrow> fslib \<Rightarrow> (string \<Rightarrow> string) \<Rightarrow> string \<Rightarrow> fs_option list" where
  "dsn_options glib lib q path =
     (if path \<noteq> [] \<and> path \<noteq> ''/'' then [WithBaseDir path] else []) @
     (if q ''connect_timeout'' \<noteq> [] then [WithConnectTimeout (parseTimeout lib (q ''connect_timeout''))] else []) @
     (if q ''timeout'' \<noteq> [] then [WithTimeout (parseTimeout lib (q ''timeout''))] else []) @
     (if q ''encrypt'' = ''on'' \<or> q ''encrypt'' = ''aesgcm''
      then [WithEncryption (if q ''encrypt_key'' \<noteq> [] then q ''encrypt_key''
              else lib_Getenv glib ''FSCACHE_ENCRYPT_KEY'')] else []) @
     (if q ''update_mtime'' = ''on'' then [WithUpdateMTime True] else [])"

definition fromURL :: "golib \<Rightarrow> fslib \<Rightarrow> bool \<Rightarrow> (string \<Rightarrow> string) \<Rightarrow> string \<Rightarrow> fs_open_error + fsOptions" where
  "fromURL glib lib late q path =
     (if q ''appname'' = [] then Inl ErrMissingAppName
      else fs_Open lib late (q ''appname'') (dsn_options glib lib q path))"

subsection \<open>Lemmas\<close>

lemma apply_fs_option_timeout:
  "apply_fs_option lib opt c = Inr c' \<Longrightarrow> 0 \<le> fo_timeout c \<Longrightarrow> 0 \<le> fo_timeout c'"
  by (cases opt) (auto split: if_splits sum.splits)

lemma apply_fs_option_enc:
  "apply_fs_option lib opt c = Inr c' \<Longrightarrow> fo_enc c \<noteq> None \<or> (\<exists>key. opt = WithEncryption key) \<Longrightarrow> fo_enc c' \<noteq> None"
  by (cases opt) (auto split: if_splits sum.splits)

lemma apply_fs_options_timeout:
  "apply_fs_options lib opts c = Inr c' \<Longrightarrow> 0 \<le> fo_timeout c \<Longrightarrow> 0 \<le> fo_timeout c'"
  by (induction opts arbitrary: c) (auto split: sum.splits dest: apply_fs_option_timeout)

lemma apply_fs_options_enc:
  "apply_fs_options lib opts c = Inr c' \<Longrightarrow> fo_enc c \<noteq> None \<or> (\<exists>key. WithEncryption key \<in> set opts) \<Longrightarrow>
   fo_enc c' \<noteq> None"
proof (induction opts arbitrary: c)
  case (Cons opt opts)
  then obtain c1 where c1: "apply_fs_option lib opt c = Inr c1" "apply_fs_options lib opts c1 = Inr c'"
    by (auto split: sum.splits)
  have "fo_enc c1 \<noteq> None \<or> (\<exists>key. WithEncryption key \<in> set opts)"
    using Cons.prems(2) apply_fs_option_enc [OF c1(1)] by fastforce
  then show ?case by (rule Cons.IH [OF c1(2)])
qed simp

lemma fs_Open_result:
  assumes "fs_Open lib late appname opts = Inr c"
  shows "0 < fo_timeout c" and "WithEncryption key \<in> set opts \<Longrightarrow> fo_enc c \<noteq> None" and "appname \<noteq> []"
proof -
  obtain c1 where c1: "apply_fs_options lib opts zero_options = Inr c1"
    and i: "fs_initialize lib appname c1 = Inr c"
    using assms by (auto simp: fs_Open_def split: sum.splits if_splits)
  have "0 \<le> fo_timeout c1" using apply_fs_options_timeout [OF c1] by (simp add: zero_options_def)
  with i show "0 < fo_timeout c" "appname \<noteq> []"
    by (auto simp: fs_initialize_def Let_def defaultTimeout_def split: option.splits if_splits)
  have "fo_enc c = fo_enc c1"
    using i by (auto simp: fs_initialize_def Let_def split: option.splits if_splits)
  then show "WithEncryption key \<in> set opts \<Longrightarrow> fo_enc c \<noteq> None"
    using apply_fs_options_enc [OF c1] by auto
qed

subsection \<open>Properties\<close>

text \<open>
  C39: A file-system cache opened from a DSN has a positive timeout and an application name, and a
  cipher whenever the DSN asks for encryption: opening fails rather than storing plain text.
\<close>

theorem opened_file_cache_is_configured:
  assumes "fromURL glib lib late q path = Inr c"
  shows "0 < fo_timeout c \<and> q ''appname'' \<noteq> [] \<and>
    (q ''encrypt'' = ''on'' \<or> q ''encrypt'' = ''aesgcm'' \<longrightarrow> fo_enc c \<noteq> None)"
proof -
  have o: "fs_Open lib late (q ''appname'') (dsn_options glib lib q path) = Inr c" "q ''appname'' \<noteq> []"
    using assms by (auto simp: fromURL_def split: if_splits)
  have "q ''encrypt'' = ''on'' \<or> q ''encrypt'' = ''aesgcm'' \<Longrightarrow>
      \<exists>key. WithEncryption key \<in> set (dsn_options glib lib q path)" by (auto simp: dsn_options_def)
  with fs_Open_result [OF o(1)] o(2) show ?thesis by blast
qed

text \<open>An environment in which everything succeeds, and the parameters of an encrypted cache.\<close>

definition ex_fslib :: fslib where
  "ex_fslib = \<lparr>fl_ParseDuration = (\<lambda>_. None), fl_DecodeKey = (\<lambda>_. Some (replicate 16 (CHR ''k''))),
     fl_AESGCM = (\<lambda>_. ex_aead), fl_UserCacheDir = None, fl_Join = (@), fl_MkdirAll = (\<lambda>_. True),
     fl_OpenRoot = (\<lambda>_. Some \<lparr>fs_files = [], fs_dirs = [], fs_mtimes = []\<rparr>)\<rparr>"

definition ex_query :: "string \<Rightarrow> string" where
  "ex_query s =
     (if s = ''appname'' then ''app'' else if s = ''encrypt'' then ''on'' else if s = ''encrypt_key'' then ''key'' else [])"

theorem opened_file_cache_is_configured_witness:
  "\<forall>glib. \<exists>c. fromURL glib ex_fslib False ex_query ''/x'' = Inr c \<and> fo_enc c \<noteq> None"
proof
  fix glib
  obtain c where c: "fromURL glib ex_fslib False ex_query ''/x'' = Inr c"
    by (simp add: fromURL_def ex_query_def dsn_options_def fs_Open_def zero_options_def newAESGCMEncryptor_def
        ex_fslib_def fs_initialize_def)
  from opened_file_cache_is_configured [OF this] have "fo_enc c \<noteq> None" by (simp add: ex_query_def)
  with c show "\<exists>c. fromURL glib ex_fslib False ex_query ''/x'' = Inr c \<and> fo_enc c \<noteq> None" by blast
qed

end
