(* ===== verification/Client.thy ===== *)
theory Client
  imports Registry Transport
begin

text \<open>
  The entry points of the package: \<open>NewTransport\<close> opens the backend of a DSN through the registry
  and builds a transport over it, \<open>NewClient\<close> wraps it. A failure to open panics with
  \<open>ErrOpenCache\<close>. The drivers of one registry have states of one type.
\<close>

datatype client_panic = ErrOpenCache

record 's http_client =
  hc_Transport :: "'s env \<times> 's world"

definition NewTransport ::
  "golib \<Rightarrow> codec \<Rightarrow> clock \<Rightarrow> round_tripper \<Rightarrow> ('s conn \<times> 's) driverRegistry \<Rightarrow> string \<Rightarrow>
   transport_option list \<Rightarrow> client_panic + 's env \<times> 's world" where
  "NewTransport lib cd clk defaultTransport registry dsn options =
     (case OpenConn lib registry dsn of
        Inl err \<Rightarrow> Inl ErrOpenCache
      | Inr (cache, s) \<Rightarrow> Inr (newTransport lib cd clk defaultTransport cache options, start_world s))"

definition NewClient ::
  "golib \<Rightarrow> codec \<Rightarrow> clock \<Rightarrow> round_tripper \<Rightarrow> ('s conn \<times> 's) driverRegistry \<Rightarrow> string \<Rightarrow>
   transport_option list \<Rightarrow> client_panic + 's http_client" where
  "NewClient lib cd clk defaultTransport registry dsn options =
     (case NewTransport lib cd clk defaultTransport registry dsn options of
        Inl p \<Rightarrow> Inl p | Inr t \<Rightarrow> Inr \<lparr>hc_Transport = t\<rparr>)"

text \<open>The driver of \<open>store/memcache\<close>.\<close>

definition memcache_Scheme :: string where
  "memcache_Scheme = ''memcache''"

definition memcache_driver :: "(memCache conn \<times> memCache) driver" where
  "memcache_driver u = Inr (memcache, memcache_Open)"

subsection \<open>Lemmas\<close>

lemma newTransport_conn [simp]: "e_conn (newTransport lib cd clk def conn options) = conn"
  by (simp add: newTransport_def Let_def)

lemma newTransport_swrTimeout: "0 < e_swrTimeout (newTransport lib cd clk def conn options)"
  by (auto simp: newTransport_def Let_def DefaultSWRTimeout_def)

text \<open>The last upstream given counts; a nil one stands for the default.\<close>

lemma fold_upstream_last: "tr_upstream (fold apply_option (options @ [WithUpstream u]) rt) = u"
  by simp

lemma fold_upstream:
  "\<forall>u. WithUpstream u \<notin> set later \<Longrightarrow> tr_upstream (fold apply_option later rt) = tr_upstream rt"
proof (induction later arbitrary: rt)
  case (Cons opt later)
  then show ?case by (cases opt) auto
qed simp_all

lemma newTransport_upstream:
  assumes "\<forall>u. WithUpstream u \<notin> set later"
  shows "e_upstream (newTransport lib cd clk def conn later) = def"
    and "e_upstream (newTransport lib cd clk def conn (options @ WithUpstream u # later)) = (case u of None \<Rightarrow> def | Some f \<Rightarrow> f)"
proof -
  show "e_upstream (newTransport lib cd clk def conn later) = def"
    by (simp add: newTransport_def Let_def fold_upstream [OF assms])
  have "options @ WithUpstream u # later = (options @ [WithUpstream u]) @ later" by simp
  then show "e_upstream (newTransport lib cd clk def conn (options @ WithUpstream u # later)) = (case u of None \<Rightarrow> def | Some f \<Rightarrow> f)"
    by (simp add: newTransport_def Let_def fold_upstream [OF assms] fold_upstream_last del: append_assoc)
qed

subsection \<open>Properties\<close>

text \<open>
  C40: After a driver is registered, NewClient with a DSN of its scheme builds a transport over the
  connection the driver opens, with a positive timeout for background revalidations and the last
  upstream among the options (a nil one standing for the default), and panics with ErrOpenCache when
  the driver fails; DSNs of other schemes are opened as before; the sorted list of drivers gains
  exactly its name, and registering the name again panics.
\<close>

theorem client_over_registered_driver:
  assumes "registry_ok dr" and "RegisterDriver dr name (Some d) = Inr dr'" and "lib_url_Parse lib dsn = Some u"
  shows "NewClient lib cd clk def dr' dsn options =
      (if url_Scheme u = name then
         (case d u of
            Inl err \<Rightarrow> Inl ErrOpenCache
          | Inr (conn, s) \<Rightarrow> Inr \<lparr>hc_Transport = (newTransport lib cd clk def conn options, start_world s)\<rparr>)
       else NewClient lib cd clk def dr dsn options) \<and>
    0 < e_swrTimeout (newTransport lib cd clk def conn options) \<and>
    ((\<forall>u. WithUpstream u \<notin> set later) \<longrightarrow>
      e_upstream (newTransport lib cd clk def conn (options @ WithUpstream f # later)) = (case f of None \<Rightarrow> def | Some g \<Rightarrow> g)) \<and>
    sorted (Drivers dr') \<and> distinct (Drivers dr') \<and> set (Drivers dr') = insert name (set (Drivers dr)) \<and>
    RegisterDriver dr' name (Some d2) = Inl (CalledTwice name)"
proof -
  have "map_of (drivers dr') name \<noteq> None" using assms(2) by (auto simp: RegisterDriver_def split: if_splits)
  then have "RegisterDriver dr' name (Some d2) = Inl (CalledTwice name)" by (auto simp: RegisterDriver_def)
  then show ?thesis
    using OpenConn_register [OF assms(2,3)] Drivers_register [OF assms(1,2)] newTransport_swrTimeout newTransport_upstream(2)
    by (auto simp: NewClient_def NewTransport_def split: sum.split)
qed

theorem client_over_registered_driver_witness:
  "\<forall>lib u cd clk def.
     \<exists>dr. RegisterDriver registry_New memcache_Scheme (Some memcache_driver) = Inr dr \<and>
       NewClient (lib\<lparr>lib_url_Parse := \<lambda>_. Some (u\<lparr>url_Scheme := memcache_Scheme\<rparr>)\<rparr>) cd clk def dr ''memcache://'' [] =
         Inr \<lparr>hc_Transport =
           (newTransport (lib\<lparr>lib_url_Parse := \<lambda>_. Some (u\<lparr>url_Scheme := memcache_Scheme\<rparr>)\<rparr>) cd clk def memcache [],
            start_world memcache_Open)\<rparr>"
proof (intro allI)
  fix lib :: golib and u :: url and cd :: codec and clk :: clock and def :: round_tripper
  let ?u = "u\<lparr>url_Scheme := memcache_Scheme\<rparr>"
  let ?lib = "lib\<lparr>lib_url_Parse := \<lambda>_. Some ?u\<rparr>"
  obtain dr where r: "RegisterDriver registry_New memcache_Scheme (Some memcache_driver) = Inr dr"
    by (simp add: RegisterDriver_def registry_New_def)
  have u: "lib_url_Parse ?lib ''memcache://'' = Some ?u" by simp
  from client_over_registered_driver [OF registry_New_ok r u, of cd clk "def" "[]"] r
  show "\<exists>dr. RegisterDriver registry_New memcache_Scheme (Some memcache_driver) = Inr dr \<and>
      NewClient ?lib cd clk def dr ''memcache://'' [] =
        Inr \<lparr>hc_Transport = (newTransport ?lib cd clk def memcache [], start_world memcache_Open)\<rparr>"
    by (auto simp: memcache_driver_def)
qed

end
