(* ===== verification/MemLocks.thy ===== *)
theory MemLocks
  imports Conn "HOL-Library.Multiset"
begin

text \<open>
  The in-memory backend under its \<open>sync.RWMutex\<close>. \<open>Conn\<close> has its operations as one step each; here
  they are the instructions of \<open>memcache.go\<close> between \<open>Lock\<close> and the deferred \<open>Unlock\<close>, run by any
  number of goroutines that take turns at will, where taking a lock blocks. No goroutine gets stuck,
  none accesses the map while another writes it, no lock is released that is not held, and the
  answers are those of the operations of \<open>Conn\<close>, one after the other in the order of the answers.
\<close>

subsection \<open>The lock\<close>

text \<open>
  \<open>sync.RWMutex\<close> as it is documented: a writer announces itself, from then on no reader gets in, and
  it has the lock when the readers are gone. Releasing a lock that is not held is a fatal error.
\<close>

datatype writer = NoWriter | Announced | Writing

record rwmutex =
  rw_readers :: nat
  rw_writer :: writer

datatype 'a attempt = Blocks | Fatal | Goes 'a

definition rw_RLock :: "rwmutex \<Rightarrow> rwmutex attempt" where
  "rw_RLock m = (if rw_writer m = NoWriter then Goes (m\<lparr>rw_readers := Suc (rw_readers m)\<rparr>) else Blocks)"

definition rw_RUnlock :: "rwmutex \<Rightarrow> rwmutex attempt" where
  "rw_RUnlock m = (if rw_readers m = 0 then Fatal else Goes (m\<lparr>rw_readers := rw_readers m - 1\<rparr>))"

definition rw_Announce :: "rwmutex \<Rightarrow> rwmutex attempt" where
  "rw_Announce m = (if rw_writer m = NoWriter then Goes (m\<lparr>rw_writer := Announced\<rparr>) else Blocks)"

definition rw_Lock :: "rwmutex \<Rightarrow> rwmutex attempt" where
  "rw_Lock m = (if rw_writer m = Announced \<and> rw_readers m = 0 then Goes (m\<lparr>rw_writer := Writing\<rparr>) else Blocks)"

definition rw_Unlock :: "rwmutex \<Rightarrow> rwmutex attempt" where
  "rw_Unlock m = (if rw_writer m = Writing then Goes (m\<lparr>rw_writer := NoWriter\<rparr>) else Fatal)"

lemmas rw_defs = rw_RLock_def rw_RUnlock_def rw_Announce_def rw_Lock_def rw_Unlock_def

subsection \<open>The operations as instructions\<close>

datatype mem_op = MemGet string | MemSet string bytes | MemDelete string

datatype mem_result = MemGot "cache_error + bytes" | MemDid "cache_error option"

text \<open>
  \<open>LoadVal\<close> is \<open>val, ok := c.store[key]\<close>, \<open>StoreVal\<close> \<open>c.store[key] = cp\<close> and \<open>EraseVal\<close> the rest of
  \<open>Delete\<close>, which removes a key that was found. \<open>Lock\<close> is its two halves. A deferred release comes
  last, when the result is known.
\<close>

datatype instr = RLock | RUnlock | Announce | Lock | Unlock | LoadVal | StoreVal | EraseVal

definition get_code :: "instr list" where
  "get_code = [RLock, LoadVal, RUnlock]"

definition set_code :: "instr list" where
  "set_code = [Announce, Lock, StoreVal, Unlock]"

definition delete_code :: "instr list" where
  "delete_code = [Announce, Lock, LoadVal, EraseVal, Unlock]"

fun mem_code :: "mem_op \<Rightarrow> instr list" where
  "mem_code (MemGet key) = get_code"
| "mem_code (MemSet key v) = set_code"
| "mem_code (MemDelete key) = delete_code"

fun mem_key :: "mem_op \<Rightarrow> string" where
  "mem_key (MemGet key) = key"
| "mem_key (MemSet key v) = key"
| "mem_key (MemDelete key) = key"

text \<open>What an operation returns, by the value it has loaded.\<close>

fun mem_answer :: "mem_op \<Rightarrow> bytes option \<Rightarrow> mem_result" where
  "mem_answer (MemGet key) val = MemGot (case val of None \<Rightarrow> Inl ErrNotExist | Some v \<Rightarrow> Inr v)"
| "mem_answer (MemSet key v) val = MemDid None"
| "mem_answer (MemDelete key) val = MemDid (case val of None \<Rightarrow> Some ErrNotExist | Some v \<Rightarrow> None)"

record mem_task =
  mt_op :: mem_op
  mt_code :: "instr list"
  mt_val :: "bytes option"

record mem_sys =
  ms_mutex :: rwmutex
  ms_cache :: memCache
  ms_tasks :: "mem_task list"
  ms_answers :: "(mem_op \<times> mem_result) list"

definition with_mutex :: "rwmutex attempt \<Rightarrow> bytes option \<Rightarrow> memCache \<Rightarrow> (rwmutex \<times> bytes option \<times> memCache) attempt" where
  "with_mutex a val c = (case a of Blocks \<Rightarrow> Blocks | Fatal \<Rightarrow> Fatal | Goes m \<Rightarrow> Goes (m, val, c))"

fun mem_exec :: "mem_op \<Rightarrow> instr \<Rightarrow> rwmutex \<Rightarrow> bytes option \<Rightarrow> memCache \<Rightarrow> (rwmutex \<times> bytes option \<times> memCache) attempt" where
  "mem_exec op RLock m val c = with_mutex (rw_RLock m) val c"
| "mem_exec op RUnlock m val c = with_mutex (rw_RUnlock m) val c"
| "mem_exec op Announce m val c = with_mutex (rw_Announce m) val c"
| "mem_exec op Lock m val c = with_mutex (rw_Lock m) val c"
| "mem_exec op Unlock m val c = with_mutex (rw_Unlock m) val c"
| "mem_exec op LoadVal m val c = Goes (m, mem_store c (mem_key op), c)"
| "mem_exec op StoreVal m val c =
     Goes (m, val, case op of MemSet key v \<Rightarrow> c\<lparr>mem_store := (mem_store c)(key \<mapsto> v)\<rparr> | _ \<Rightarrow> c)"
| "mem_exec op EraseVal m val c =
     Goes (m, val, case val of None \<Rightarrow> c | Some _ \<Rightarrow> c\<lparr>mem_store := (mem_store c)(mem_key op := None)\<rparr>)"

subsection \<open>Goroutines\<close>

text \<open>The next instruction of a task; a task without one left has answered.\<close>

definition mem_try :: "mem_sys \<Rightarrow> mem_task \<Rightarrow> (rwmutex \<times> bytes option \<times> memCache) attempt" where
  "mem_try s t = (case mt_code t of [] \<Rightarrow> Blocks | ins # rest \<Rightarrow> mem_exec (mt_op t) ins (ms_mutex s) (mt_val t) (ms_cache s))"

definition mem_next :: "mem_sys \<Rightarrow> nat \<Rightarrow> rwmutex \<times> bytes option \<times> memCache \<Rightarrow> mem_sys" where
  "mem_next s i r =
     (case r of (m, val, c) \<Rightarrow>
        let t = ms_tasks s ! i; t' = t\<lparr>mt_code := tl (mt_code t), mt_val := val\<rparr>
        in \<lparr>ms_mutex = m, ms_cache = c, ms_tasks = (ms_tasks s)[i := t'],
            ms_answers = ms_answers s @ (if mt_code t' = [] then [(mt_op t, mem_answer (mt_op t) val)] else [])\<rparr>)"

definition mem_start :: mem_sys where
  "mem_start = \<lparr>ms_mutex = \<lparr>rw_readers = 0, rw_writer = NoWriter\<rparr>, ms_cache = memcache_Open, ms_tasks = [], ms_answers = []\<rparr>"

definition mem_call :: "mem_sys \<Rightarrow> mem_op \<Rightarrow> mem_sys" where
  "mem_call s op = s\<lparr>ms_tasks := ms_tasks s @ [\<lparr>mt_op = op, mt_code = mem_code op, mt_val = None\<rparr>]\<rparr>"

inductive mem_step :: "mem_sys \<Rightarrow> mem_sys \<Rightarrow> bool" where
  runs: "i < length (ms_tasks s) \<Longrightarrow> mem_try s (ms_tasks s ! i) = Goes r \<Longrightarrow> mem_step s (mem_next s i r)"

inductive mem_reaches :: "mem_sys \<Rightarrow> bool" where
  start: "mem_reaches mem_start"
| call: "mem_reaches s \<Longrightarrow> mem_reaches (mem_call s op)"
| step: "mem_reaches s \<Longrightarrow> mem_step s s' \<Longrightarrow> mem_reaches s'"

inductive_cases mem_stepE: "mem_step s s'"

definition unfinished :: "mem_sys \<Rightarrow> bool" where
  "unfinished s \<longleftrightarrow> (\<exists>t \<in> set (ms_tasks s). mt_code t \<noteq> [])"

definition instructions_left :: "mem_sys \<Rightarrow> nat" where
  "instructions_left s = sum_list (map (length \<circ> mt_code) (ms_tasks s))"

text \<open>Two goroutines before an access to the map, one of which writes it.\<close>

definition data_race :: "mem_sys \<Rightarrow> bool" where
  "data_race s \<longleftrightarrow>
     (\<exists>i < length (ms_tasks s). \<exists>j < length (ms_tasks s). i \<noteq> j \<and>
        (\<exists>a rest. mt_code (ms_tasks s ! i) = a # rest \<and> a \<in> {StoreVal, EraseVal}) \<and>
        (\<exists>b rest. mt_code (ms_tasks s ! j) = b # rest \<and> b \<in> {LoadVal, StoreVal, EraseVal}))"

text \<open>The operations of \<open>Conn\<close>, one after the other.\<close>

fun mem_do :: "mem_op \<Rightarrow> memCache \<Rightarrow> mem_result \<times> memCache" where
  "mem_do (MemGet key) c = apfst MemGot (mem_Get c key)"
| "mem_do (MemSet key v) c = apfst MemDid (mem_Set c key v)"
| "mem_do (MemDelete key) c = apfst MemDid (mem_Delete c key)"

fun mem_serial :: "memCache \<Rightarrow> mem_op list \<Rightarrow> mem_result list \<times> memCache" where
  "mem_serial c [] = ([], c)"
| "mem_serial c (op # ops) = (let (r, c) = mem_do op c; (rs, c) = mem_serial c ops in (r # rs, c))"

subsection \<open>Who holds the lock\<close>

fun reading :: "mem_task \<Rightarrow> bool" where
  "reading t \<longleftrightarrow> (\<exists>k. mt_op t = MemGet k) \<and> mt_code t \<in> {[LoadVal, RUnlock], [RUnlock]}"

fun announced :: "mem_task \<Rightarrow> bool" where
  "announced t \<longleftrightarrow> (\<exists>rest. mt_code t = Lock # rest)"

fun writing :: "mem_task \<Rightarrow> bool" where
  "writing t \<longleftrightarrow> (\<forall>k. mt_op t \<noteq> MemGet k) \<and>
     mt_code t \<in> {[StoreVal, Unlock], [LoadVal, EraseVal, Unlock], [EraseVal, Unlock], [Unlock]}"

definition tally :: "(mem_task \<Rightarrow> bool) \<Rightarrow> mem_task list \<Rightarrow> nat" where
  "tally P ts = length (filter P ts)"

lemma tally_simps [simp]: "tally P [] = 0" "tally P (ts @ [t]) = tally P ts + of_bool (P t)"
  by (simp_all add: tally_def)

lemma tally_nth: "i < length ts \<Longrightarrow> tally P ts = tally P (take i ts) + of_bool (P (ts ! i)) + tally P (drop (Suc i) ts)"
  unfolding tally_def by (subst id_take_nth_drop [of i ts]) simp_all

lemma tally_update:
  "i < length ts \<Longrightarrow> tally P (ts[i := t]) + of_bool (P (ts ! i)) = tally P ts + of_bool (P t)"
  using tally_nth [of i ts P] tally_nth [of i "ts[i := t]" P] by simp

lemma tally_0: "tally P ts = 0 \<longleftrightarrow> (\<forall>t \<in> set ts. \<not> P t)"
  by (simp add: tally_def filter_empty_conv)

lemma tally_pos: "i < length ts \<Longrightarrow> P (ts ! i) \<Longrightarrow> 0 < tally P ts"
  using tally_0 [of P ts] nth_mem by fastforce

lemma tally_1_unique:
  assumes "tally P ts = 1" "i < length ts" "j < length ts" "P (ts ! i)" "P (ts ! j)"
  shows "i = j"
proof (rule ccontr)
  assume "i \<noteq> j"
  have "card {k. k < length ts \<and> P (ts ! k)} = 1" using assms(1) by (simp add: tally_def length_filter_conv_card)
  then obtain a where a: "{k. k < length ts \<and> P (ts ! k)} = {a}" by (auto simp: card_1_singleton_iff)
  have "i \<in> {k. k < length ts \<and> P (ts ! k)}" "j \<in> {k. k < length ts \<and> P (ts ! k)}" using assms(2-) by simp_all
  then have "i = a" "j = a" unfolding a by simp_all
  then show False using \<open>i \<noteq> j\<close> by simp
qed

lemma update_mem: "u \<in> set (ts[i := t]) \<Longrightarrow> u = t \<or> (\<exists>j < length ts. j \<noteq> i \<and> u = ts ! j)"
  by (metis in_set_conv_nth length_list_update nth_list_update_eq nth_list_update_neq)

text \<open>
  The code of a task is what is left of its operation. The lock counts the readers, has one writer or
  one announced writer, and a writer has no company. What a task has loaded is still in the map, and
  the map is what the answered operations have left, but for the writer that has made its change.
\<close>

fun task_wf :: "mem_task \<Rightarrow> bool" where
  "task_wf t \<longleftrightarrow> (\<exists>pre. mem_code (mt_op t) = pre @ mt_code t)"

fun lock_ok :: "rwmutex \<Rightarrow> mem_task list \<Rightarrow> bool" where
  "lock_ok m ts \<longleftrightarrow> rw_readers m = tally reading ts \<and>
     (case rw_writer m of
        NoWriter \<Rightarrow> tally announced ts = 0 \<and> tally writing ts = 0
      | Announced \<Rightarrow> tally announced ts = 1 \<and> tally writing ts = 0
      | Writing \<Rightarrow> tally announced ts = 0 \<and> tally writing ts = 1 \<and> tally reading ts = 0)"

text \<open>What a task knows of the map \<open>c\<close> that the answered operations have left and the one there is.\<close>

fun task_sees :: "memCache \<Rightarrow> memCache \<Rightarrow> mem_task \<Rightarrow> bool" where
  "task_sees c now t \<longleftrightarrow>
     (reading t \<and> mt_code t = [RUnlock] \<longrightarrow> mt_val t = mem_store c (mem_key (mt_op t))) \<and>
     (writing t \<and> mt_code t \<noteq> [Unlock] \<longrightarrow> now = c) \<and>
     (mt_code t = [EraseVal, Unlock] \<longrightarrow> mt_val t = mem_store c (mem_key (mt_op t))) \<and>
     (writing t \<and> mt_code t = [Unlock] \<longrightarrow>
        mem_do (mt_op t) c = (mem_answer (mt_op t) (mt_val t), now))"

definition mem_ok :: "mem_sys \<Rightarrow> bool" where
  "mem_ok s \<longleftrightarrow> lock_ok (ms_mutex s) (ms_tasks s) \<and> (\<forall>t \<in> set (ms_tasks s). task_wf t) \<and>
     (\<exists>c. mem_serial memcache_Open (map fst (ms_answers s)) = (map snd (ms_answers s), c) \<and>
        (\<forall>t \<in> set (ms_tasks s). task_sees c (ms_cache s) t) \<and>
        (tally writing (ms_tasks s) = 0 \<longrightarrow> ms_cache s = c))"

lemma mem_serial_append:
  "mem_serial c (xs @ ys) = (let (rs, c) = mem_serial c xs; (rs', c) = mem_serial c ys in (rs @ rs', c))"
  by (induction xs arbitrary: c) (simp_all add: case_prod_beta Let_def)

lemma task_cases:
  assumes "task_wf t"
  obtains (get) k where "mt_op t = MemGet k"
      "mt_code t \<in> {[RLock, LoadVal, RUnlock], [LoadVal, RUnlock], [RUnlock], []}"
  | (set) k v where "mt_op t = MemSet k v"
      "mt_code t \<in> {[Announce, Lock, StoreVal, Unlock], [Lock, StoreVal, Unlock], [StoreVal, Unlock], [Unlock], []}"
  | (delete) k where "mt_op t = MemDelete k"
      "mt_code t \<in> {[Announce, Lock, LoadVal, EraseVal, Unlock], [Lock, LoadVal, EraseVal, Unlock],
         [LoadVal, EraseVal, Unlock], [EraseVal, Unlock], [Unlock], []}"
proof (cases "mt_op t")
  case (MemGet k)
  then show ?thesis using assms that(1) by (auto simp: get_code_def append_eq_Cons_conv Cons_eq_append_conv)
next
  case (MemSet k v)
  then show ?thesis using assms that(2) by (auto simp: set_code_def append_eq_Cons_conv Cons_eq_append_conv)
next
  case (MemDelete k)
  then show ?thesis using assms that(3) by (auto simp: delete_code_def append_eq_Cons_conv Cons_eq_append_conv)
qed

text \<open>The lock at a task: which attempts may fail, and who else is there.\<close>

lemma lock_reading: "lock_ok m ts \<Longrightarrow> i < length ts \<Longrightarrow> reading (ts ! i) \<Longrightarrow> 0 < rw_readers m \<and> rw_writer m \<noteq> Writing"
  using tally_pos [of i ts reading] by (auto split: writer.splits)

lemma lock_announced: "lock_ok m ts \<Longrightarrow> i < length ts \<Longrightarrow> announced (ts ! i) \<Longrightarrow> rw_writer m = Announced"
  using tally_pos [of i ts announced] by (auto split: writer.splits)

lemma lock_writing: "lock_ok m ts \<Longrightarrow> i < length ts \<Longrightarrow> writing (ts ! i) \<Longrightarrow> rw_writer m = Writing"
  using tally_pos [of i ts writing] by (auto split: writer.splits)

lemma alone:
  assumes "lock_ok m ts" "i < length ts" "writing (ts ! i)" "j < length ts" "j \<noteq> i"
  shows "\<not> writing (ts ! j)" "\<not> reading (ts ! j)"
proof -
  have w: "tally writing ts = 1" "tally reading ts = 0" using lock_writing [OF assms(1-3)] assms(1) by simp_all
  show "\<not> writing (ts ! j)" using tally_1_unique [OF w(1) assms(2,4,3)] assms(5) by blast
  show "\<not> reading (ts ! j)" using w(2) assms(4) tally_0 nth_mem by blast
qed

subsection \<open>Every step keeps the invariant\<close>

lemma attempt_simps [simp]:
  "with_mutex a val c = Goes r \<longleftrightarrow> (\<exists>m. a = Goes m \<and> r = (m, val, c))"
  by (auto simp: with_mutex_def split: attempt.splits)

lemma mem_exec_lock:
  assumes lock: "lock_ok m ts" and i: "i < length ts" and wf: "task_wf (ts ! i)" and code: "mt_code (ts ! i) = ins # rest"
    and ex: "mem_exec (mt_op (ts ! i)) ins m (mt_val (ts ! i)) c = Goes (m', val, c')"
  shows "lock_ok m' (ts[i := (ts ! i)\<lparr>mt_code := rest, mt_val := val\<rparr>])" "task_wf ((ts ! i)\<lparr>mt_code := rest, mt_val := val\<rparr>)"
proof -
  let ?t = "(ts ! i)\<lparr>mt_code := rest, mt_val := val\<rparr>"
  note cu = tally_update [OF i, of reading ?t] tally_update [OF i, of announced ?t] tally_update [OF i, of writing ?t]
  note here = lock_reading [OF lock i] lock_announced [OF lock i] lock_writing [OF lock i]
  show "lock_ok m' (ts[i := ?t])" using wf
  proof (cases rule: task_cases)
    case (get k)
    from get(2) show ?thesis
      by (elim insertE emptyE; insert get(1) lock code ex cu here; auto simp: rw_defs split: if_splits writer.splits)
  next
    case (set k v)
    from set(2) show ?thesis
      by (elim insertE emptyE; insert set(1) lock code ex cu here; auto simp: rw_defs split: if_splits writer.splits)
  next
    case (delete k)
    from delete(2) show ?thesis
      by (elim insertE emptyE; insert delete(1) lock code ex cu here; auto simp: rw_defs split: if_splits writer.splits)
  qed
  obtain pre where "mem_code (mt_op (ts ! i)) = (pre @ [ins]) @ rest" using wf code by auto
  then have "\<exists>pre. mem_code (mt_op ?t) = pre @ mt_code ?t" by simp
  then show "task_wf ?t" by simp
qed

text \<open>
  The map at an instruction, seen by the task itself: \<open>c\<close> is what the answered operations have left,
  and \<open>c'\<close> what they have left after the instruction.
\<close>

definition after_answer :: "mem_op \<Rightarrow> instr list \<Rightarrow> bytes option \<Rightarrow> memCache \<Rightarrow> memCache \<Rightarrow> bool" where
  "after_answer op rest val c c' \<longleftrightarrow> (if rest = [] then mem_do op c = (mem_answer op val, c') else c' = c)"

lemma task_sees_other: "task_wf u \<Longrightarrow> \<not> writing u \<Longrightarrow> \<not> reading u \<Longrightarrow> task_sees c now u"
  by (erule task_cases) auto

lemma reader_exec:
  assumes "task_wf t" "\<not> writing t" "mt_code t = ins # rest"
    and "mem_exec (mt_op t) ins m (mt_val t) now = Goes (m', val, now')"
    and "rw_writer m \<noteq> Writing \<Longrightarrow> now = c" "reading t \<Longrightarrow> rw_writer m \<noteq> Writing" "task_sees c now t"
  shows "now' = now \<and> after_answer (mt_op t) rest val c c \<and> task_sees c now (t\<lparr>mt_code := rest, mt_val := val\<rparr>)"
  using assms(1)
proof (cases rule: task_cases)
  case (get k)
  from get(2) show ?thesis
    by (elim insertE emptyE; insert get(1) assms(2-)) (simp_all add: rw_defs after_answer_def mem_Get_def split: if_splits option.splits attempt.splits, auto?)
next
  case (set k v)
  from set(2) show ?thesis
    by (elim insertE emptyE; insert set(1) assms(2-)) (simp_all add: rw_defs after_answer_def mem_Get_def split: if_splits option.splits attempt.splits, auto?)
next
  case (delete k)
  from delete(2) show ?thesis
    by (elim insertE emptyE; insert delete(1) assms(2-)) (simp_all add: rw_defs after_answer_def mem_Get_def split: if_splits option.splits attempt.splits, auto?)
qed

lemma writer_exec:
  assumes "task_wf t" "writing t" "mt_code t = ins # rest"
    and "mem_exec (mt_op t) ins m (mt_val t) now = Goes (m', val, now')" "task_sees c now t"
  obtains c' where "after_answer (mt_op t) rest val c c'" "task_sees c' now' (t\<lparr>mt_code := rest, mt_val := val\<rparr>)"
    "rest = [] \<Longrightarrow> now' = c'" "rest \<noteq> [] \<Longrightarrow> writing (t\<lparr>mt_code := rest, mt_val := val\<rparr>)"
proof -
  have "after_answer (mt_op t) rest val c (if rest = [] then now' else c) \<and>
      task_sees (if rest = [] then now' else c) now' (t\<lparr>mt_code := rest, mt_val := val\<rparr>) \<and>
      (rest \<noteq> [] \<longrightarrow> writing (t\<lparr>mt_code := rest, mt_val := val\<rparr>))"
    using assms(1)
  proof (cases rule: task_cases)
    case (get k)
    from get(2) show ?thesis
      by (elim insertE emptyE; insert get(1) assms(2-)) (simp_all add: rw_defs after_answer_def mem_Set_def mem_Delete_def split: if_splits option.splits attempt.splits, auto?)
  next
    case (set k v)
    from set(2) show ?thesis
      by (elim insertE emptyE; insert set(1) assms(2-)) (simp_all add: rw_defs after_answer_def mem_Set_def mem_Delete_def split: if_splits option.splits attempt.splits, auto?)
  next
    case (delete k)
    from delete(2) show ?thesis
      by (elim insertE emptyE; insert delete(1) assms(2-)) (simp_all add: rw_defs after_answer_def mem_Set_def mem_Delete_def split: if_splits option.splits attempt.splits, auto?)
  qed
  then show ?thesis using that [of "if rest = [] then now' else c"] by auto
qed

declare reading.simps [simp del] announced.simps [simp del] writing.simps [simp del] task_wf.simps [simp del]
  task_sees.simps [simp del] lock_ok.simps [simp del]

lemma mem_exec_sees:
  assumes lock: "lock_ok m ts" and i: "i < length ts" and wf: "\<forall>t \<in> set ts. task_wf t" and code: "mt_code (ts ! i) = ins # rest"
    and ex: "mem_exec (mt_op (ts ! i)) ins m (mt_val (ts ! i)) now = Goes (m', val, now')"
    and sees: "\<forall>t \<in> set ts. task_sees c now t" and free: "tally writing ts = 0 \<longrightarrow> now = c"
  defines "t \<equiv> (ts ! i)\<lparr>mt_code := rest, mt_val := val\<rparr>"
  shows "\<exists>c'. after_answer (mt_op (ts ! i)) rest val c c' \<and> (\<forall>u \<in> set (ts[i := t]). task_sees c' now' u) \<and>
    (tally writing (ts[i := t]) = 0 \<longrightarrow> now' = c')"
proof (cases "writing (ts ! i)")
  case False
  have "rw_writer m \<noteq> Writing \<Longrightarrow> now = c" using lock free by (auto simp: lock_ok.simps split: writer.splits)
  then have E: "now' = now" "after_answer (mt_op (ts ! i)) rest val c c" "task_sees c now t"
    unfolding t_def using reader_exec [OF _ False code ex] wf sees i lock_reading [OF lock i] nth_mem by blast+
  have "tally writing ts = 0" if "tally writing (ts[i := t]) = 0"
    using tally_update [OF i, of writing t] that False by simp
  moreover have "task_sees c now u" if "u \<in> set (ts[i := t])" for u
    using update_mem [OF that] E(3) sees nth_mem by blast
  ultimately show ?thesis using E(1,2) free by (intro exI [of _ c]) auto
next
  case True
  have "task_wf (ts ! i)" "task_sees c now (ts ! i)" using wf sees i nth_mem by blast+
  from writer_exec [OF this(1) True code ex this(2)] obtain c' where
    E: "after_answer (mt_op (ts ! i)) rest val c c'" "task_sees c' now' t" "rest = [] \<Longrightarrow> now' = c'" "rest \<noteq> [] \<Longrightarrow> writing t"
    unfolding t_def by blast
  have "task_sees c' now' u" if "u \<in> set (ts[i := t])" for u
    using update_mem [OF that] E(2) task_sees_other alone [OF lock i True] wf nth_mem by blast
  moreover have "now' = c'" if "tally writing (ts[i := t]) = 0"
  proof (rule E(3), rule ccontr)
    assume "rest \<noteq> []"
    then have "0 < tally writing (ts[i := t])" using tally_pos [of i "ts[i := t]" writing] E(4) i by simp
    then show False using that by simp
  qed
  ultimately show ?thesis using E(1) by (intro exI [of _ c']) auto
qed

lemma mem_step_ok: "mem_ok s \<Longrightarrow> mem_step s s' \<Longrightarrow> mem_ok s'"
proof (erule mem_stepE)
  fix i r
  assume ok: "mem_ok s" and s': "s' = mem_next s i r" and i: "i < length (ms_tasks s)"
    and r: "mem_try s (ms_tasks s ! i) = Goes r"
  let ?ts = "ms_tasks s" and ?op = "mt_op (ms_tasks s ! i)"
  obtain ins rest where code: "mt_code (?ts ! i) = ins # rest" using r by (auto simp: mem_try_def split: list.splits)
  obtain m val now where r': "r = (m, val, now)" by (cases r)
  have ex: "mem_exec ?op ins (ms_mutex s) (mt_val (?ts ! i)) (ms_cache s) = Goes (m, val, now)"
    using r r' unfolding mem_try_def code by simp
  define t where "t = (?ts ! i)\<lparr>mt_code := rest, mt_val := val\<rparr>"
  obtain c where lock: "lock_ok (ms_mutex s) ?ts" and wf: "\<forall>t \<in> set ?ts. task_wf t"
    and c: "mem_serial memcache_Open (map fst (ms_answers s)) = (map snd (ms_answers s), c)"
      "\<forall>t \<in> set ?ts. task_sees c (ms_cache s) t" "tally writing ?ts = 0 \<longrightarrow> ms_cache s = c"
    using ok by (auto simp: mem_ok_def)
  have L: "lock_ok m (?ts[i := t])" "task_wf t"
    unfolding t_def using mem_exec_lock [OF lock i _ code ex] wf i nth_mem by blast+
  obtain c' where S: "after_answer ?op rest val c c'" "\<forall>u \<in> set (?ts[i := t]). task_sees c' now u"
    "tally writing (?ts[i := t]) = 0 \<longrightarrow> now = c'"
    using mem_exec_sees [OF lock i wf code ex c(2,3)] unfolding t_def [symmetric] by (elim exE conjE)
  let ?more = "if rest = [] then [(?op, mem_answer ?op val)] else []"
  have nxt: "s' = \<lparr>ms_mutex = m, ms_cache = now, ms_tasks = ?ts[i := t], ms_answers = ms_answers s @ ?more\<rparr>"
    by (simp add: s' r' mem_next_def code t_def Let_def)
  have "mem_serial memcache_Open (map fst (ms_answers s')) = (map snd (ms_answers s'), c')"
    using S(1) c(1) by (auto simp: nxt mem_serial_append after_answer_def split: if_splits)
  moreover have "task_wf u" if "u \<in> set (?ts[i := t])" for u using update_mem [OF that] L(2) wf nth_mem by metis
  moreover have "ms_mutex s' = m" "ms_tasks s' = ?ts[i := t]" "ms_cache s' = now" by (simp_all add: nxt)
  moreover note L(1) S(2,3)
  ultimately have "lock_ok (ms_mutex s') (ms_tasks s')" "\<forall>u \<in> set (ms_tasks s'). task_wf u"
    "mem_serial memcache_Open (map fst (ms_answers s')) = (map snd (ms_answers s'), c') \<and>
     (\<forall>u \<in> set (ms_tasks s'). task_sees c' (ms_cache s') u) \<and> (tally writing (ms_tasks s') = 0 \<longrightarrow> ms_cache s' = c')"
    by simp_all
  then show "mem_ok s'" unfolding mem_ok_def by (elim conjE) (intro conjI exI [of _ c'])
qed

lemma mem_start_ok: "mem_ok mem_start"
  by (simp add: mem_ok_def mem_start_def lock_ok.simps)

lemma lock_ok_append:
  "\<not> reading t \<Longrightarrow> \<not> announced t \<Longrightarrow> \<not> writing t \<Longrightarrow> lock_ok m (ts @ [t]) = lock_ok m ts"
  by (cases "rw_writer m") (simp_all add: lock_ok.simps)

lemma mem_call_ok:
  assumes "mem_ok s"
  shows "mem_ok (mem_call s op)"
proof -
  let ?t = "\<lparr>mt_op = op, mt_code = mem_code op, mt_val = None\<rparr>"
  have n: "task_wf ?t" "\<not> reading ?t" "\<not> announced ?t" "\<not> writing ?t"
    by (cases op; simp add: task_wf.simps reading.simps announced.simps writing.simps get_code_def set_code_def
        delete_code_def)+
  show ?thesis using assms n task_sees_other [OF n(1,4,2)]
    by (auto simp: mem_ok_def mem_call_def lock_ok_append)
qed

lemma mem_reaches_ok: "mem_reaches s \<Longrightarrow> mem_ok s"
  by (induction rule: mem_reaches.induct) (auto intro: mem_start_ok mem_call_ok mem_step_ok)

subsection \<open>No goroutine is stuck\<close>

lemma mem_try_wf:
  assumes "lock_ok m ts" "i < length ts" "task_wf (ts ! i)" "mt_code (ts ! i) = ins # rest"
  shows "mem_exec (mt_op (ts ! i)) ins m val c \<noteq> Fatal \<and>
    (ins \<notin> {RLock, Announce, Lock} \<longrightarrow> mem_exec (mt_op (ts ! i)) ins m val c \<noteq> Blocks)"
proof -
  note here = lock_reading [OF assms(1,2)] lock_writing [OF assms(1,2)]
  from assms(3) show ?thesis
  proof (cases rule: task_cases)
    case (get k)
    from get(2) show ?thesis
      by (elim insertE emptyE; insert get(1) assms(4) here; simp add: rw_defs with_mutex_def reading.simps)
  next
    case (set k v)
    from set(2) show ?thesis
      by (elim insertE emptyE; insert set(1) assms(4) here; simp add: rw_defs with_mutex_def writing.simps)
  next
    case (delete k)
    from delete(2) show ?thesis
      by (elim insertE emptyE; insert delete(1) assms(4) here; simp add: rw_defs with_mutex_def writing.simps)
  qed
qed

lemma holder_code: "reading t \<or> writing t \<Longrightarrow> \<exists>ins rest. mt_code t = ins # rest \<and> ins \<notin> {RLock, Announce, Lock}"
  by (auto simp: reading.simps writing.simps)

lemma outside_code:
  "task_wf t \<Longrightarrow> \<not> reading t \<Longrightarrow> \<not> writing t \<Longrightarrow> \<not> announced t \<Longrightarrow> mt_code t \<noteq> [] \<Longrightarrow>
   \<exists>rest. mt_code t = RLock # rest \<or> mt_code t = Announce # rest"
  by (erule task_cases) (auto simp: reading.simps writing.simps announced.simps)

lemma access_code:
  "task_wf t \<Longrightarrow> mt_code t = a # rest \<Longrightarrow> a \<in> {LoadVal, StoreVal, EraseVal} \<Longrightarrow> reading t \<or> writing t"
  "task_wf t \<Longrightarrow> mt_code t = a # rest \<Longrightarrow> a \<in> {StoreVal, EraseVal} \<Longrightarrow> writing t"
  by (erule task_cases; auto simp: reading.simps writing.simps)+

lemma tally_someone: "0 < tally P ts \<Longrightarrow> \<exists>i < length ts. P (ts ! i)"
  using tally_0 [of P ts] by (metis in_set_conv_nth not_gr_zero)

lemma mem_ok_never:
  assumes "mem_ok s"
  shows "t \<in> set (ms_tasks s) \<Longrightarrow> mem_try s t \<noteq> Fatal" "\<not> data_race s"
proof -
  have lock: "lock_ok (ms_mutex s) (ms_tasks s)" and wf: "\<And>i. i < length (ms_tasks s) \<Longrightarrow> task_wf (ms_tasks s ! i)"
    using assms by (auto simp: mem_ok_def)
  show "mem_try s t \<noteq> Fatal" if "t \<in> set (ms_tasks s)"
    using that mem_try_wf [OF lock _ wf] by (auto simp: mem_try_def in_set_conv_nth split: list.split)
  show "\<not> data_race s"
  proof
    assume "data_race s"
    then obtain i j a rest b rest' where ij: "i < length (ms_tasks s)" "j < length (ms_tasks s)" "i \<noteq> j"
      and a: "mt_code (ms_tasks s ! i) = a # rest" "a \<in> {StoreVal, EraseVal}"
      and b: "mt_code (ms_tasks s ! j) = b # rest'" "b \<in> {LoadVal, StoreVal, EraseVal}"
      unfolding data_race_def by blast
    have "writing (ms_tasks s ! i)" by (rule access_code(2) [OF wf [OF ij(1)] a])
    from alone [OF lock ij(1) this ij(2)] access_code(1) [OF wf [OF ij(2)] b] ij(3) show False by blast
  qed
qed

lemma mem_ok_progress:
  assumes "mem_ok s" "unfinished s"
  shows "\<exists>s'. mem_step s s'"
proof -
  let ?ts = "ms_tasks s" and ?m = "ms_mutex s"
  have lock: "lock_ok ?m ?ts" and wf: "\<And>i. i < length ?ts \<Longrightarrow> task_wf (?ts ! i)"
    using assms by (auto simp: mem_ok_def)
  have goes: ?thesis if "i < length ?ts" "mem_try s (?ts ! i) \<noteq> Blocks" for i
    using that mem_ok_never(1) [OF assms(1), of "?ts ! i"] mem_step.runs [OF that(1)]
    by (cases "mem_try s (?ts ! i)") auto
  have holder: ?thesis if i: "i < length ?ts" and h: "reading (?ts ! i) \<or> writing (?ts ! i)" for i
  proof -
    obtain ins rest where "mt_code (?ts ! i) = ins # rest" "ins \<notin> {RLock, Announce, Lock}"
      using holder_code [OF h] by blast
    then have "mem_try s (?ts ! i) \<noteq> Blocks"
      using mem_try_wf [OF lock i wf [OF i]] by (simp add: mem_try_def)
    then show ?thesis using goes i by blast
  qed
  show ?thesis
  proof (cases "tally reading ?ts = 0 \<and> tally writing ?ts = 0")
    case False
    then show ?thesis using tally_someone [of reading ?ts] tally_someone [of writing ?ts] holder by auto
  next
    case none: True
    then have r: "rw_readers ?m = 0" "rw_writer ?m \<noteq> Writing" using lock by (auto simp: lock_ok.simps)
    show ?thesis
    proof (cases "rw_writer ?m = Announced")
      case True
      then have "0 < tally announced ?ts" using lock by (simp add: lock_ok.simps)
      then obtain i rest where i: "i < length ?ts" "mt_code (?ts ! i) = Lock # rest"
        using tally_someone [of announced ?ts] by (auto simp: announced.simps)
      then have "mem_try s (?ts ! i) \<noteq> Blocks" using True r(1) by (simp add: mem_try_def with_mutex_def rw_Lock_def)
      then show ?thesis using goes i(1) by blast
    next
      case False
      then have n: "rw_writer ?m = NoWriter" using r(2) by (cases "rw_writer ?m") auto
      then have "tally announced ?ts = 0" using lock by (simp add: lock_ok.simps)
      moreover obtain i where i: "i < length ?ts" "mt_code (?ts ! i) \<noteq> []"
        using assms(2) by (auto simp: unfinished_def in_set_conv_nth)
      ultimately obtain rest where "mt_code (?ts ! i) = RLock # rest \<or> mt_code (?ts ! i) = Announce # rest"
        using outside_code [OF wf [OF i(1)]] none tally_0 nth_mem by metis
      then have "mem_try s (?ts ! i) \<noteq> Blocks"
        using n by (auto simp: mem_try_def with_mutex_def rw_RLock_def rw_Announce_def)
      then show ?thesis using goes i(1) by blast
    qed
  qed
qed

lemma mem_step_instructions:
  assumes "mem_step s s'"
  shows "instructions_left s = Suc (instructions_left s')"
  using assms
proof (rule mem_stepE)
  fix i r
  assume s': "s' = mem_next s i r" and i: "i < length (ms_tasks s)" and r: "mem_try s (ms_tasks s ! i) = Goes r"
  let ?f = "length \<circ> mt_code"
  obtain ins rest where code: "mt_code (ms_tasks s ! i) = ins # rest" using r by (auto simp: mem_try_def split: list.splits)
  have "map ?f (ms_tasks s') = (map ?f (ms_tasks s))[i := length rest]"
    using code by (cases r) (simp add: s' mem_next_def Let_def map_update)
  moreover have "Suc (length rest) \<le> sum_list (map ?f (ms_tasks s))"
    using elem_le_sum_list [of i "map ?f (ms_tasks s)"] i code by simp
  ultimately show ?thesis using i code by (simp add: instructions_left_def sum_list_update)
qed

text \<open>Every task that has run to its end has answered, once.\<close>

definition finished :: "mem_task list \<Rightarrow> mem_op multiset" where
  "finished ts = image_mset mt_op (filter_mset (\<lambda>t. mt_code t = []) (mset ts))"

lemma mem_code_Cons: "mem_code op \<noteq> []"
  by (cases op) (simp_all add: get_code_def set_code_def delete_code_def)

lemma finished_update:
  "i < length ts \<Longrightarrow> mt_code (ts ! i) \<noteq> [] \<Longrightarrow>
   finished (ts[i := t]) = (if mt_code t = [] then {#mt_op t#} else {#}) + finished ts"
  by (simp add: finished_def mset_update)

lemma answers_finished: "mem_reaches s \<Longrightarrow> mset (map fst (ms_answers s)) = finished (ms_tasks s)"
proof (induction rule: mem_reaches.induct)
  case (step s s')
  from step.hyps(2) show ?case
  proof (rule mem_stepE)
    fix i r
    assume s': "s' = mem_next s i r" and i: "i < length (ms_tasks s)" and r: "mem_try s (ms_tasks s ! i) = Goes r"
    then have "mt_code (ms_tasks s ! i) \<noteq> []" by (auto simp: mem_try_def)
    then show ?thesis using step.IH finished_update [OF i] by (cases r) (simp add: s' mem_next_def Let_def)
  qed
qed (simp_all add: mem_start_def mem_call_def finished_def mem_code_Cons)

subsection \<open>Properties\<close>

text \<open>Goroutines that take the next possible steps in the order of a list of their numbers.\<close>

fun mem_schedule :: "nat list \<Rightarrow> mem_sys \<Rightarrow> mem_sys" where
  "mem_schedule [] s = s"
| "mem_schedule (i # is) s =
     (if i < length (ms_tasks s)
      then (case mem_try s (ms_tasks s ! i) of Goes r \<Rightarrow> mem_schedule is (mem_next s i r) | _ \<Rightarrow> mem_schedule is s)
      else mem_schedule is s)"

lemma mem_schedule_reaches: "mem_reaches s \<Longrightarrow> mem_reaches (mem_schedule is s)"
proof (induction "is" arbitrary: s)
  case (Cons i js)
  then show ?case by (auto split: attempt.split intro!: Cons.IH mem_reaches.step [OF Cons.prems mem_step.runs])
qed simp

text \<open>
  C17: Any number of goroutines that call Get, Set and Delete of the in-memory backend at any time,
  interleaved between any two instructions, with sync.RWMutex blocking the others: as long as a call
  has not returned some goroutine can go on, and every step is one of finitely many instructions
  left, so there is no deadlock, and once no more calls begin, every call has returned after that
  many steps; a lock that is not held is never released, and no goroutine is about to access the map
  while another is about to write it. Every call answers exactly once, and the answers are those of
  mem_Get, mem_Set and mem_Delete run one after the other in the order in which they are given, so a
  call that has returned comes before one that begins later; when all have returned, the map is the
  one those leave.
\<close>

theorem memcache_operations_answer_in_order:
  assumes "mem_reaches s"
  shows "(unfinished s \<longleftrightarrow> (\<exists>s'. mem_step s s')) \<and>
    (\<forall>s'. mem_step s s' \<longrightarrow> instructions_left s = Suc (instructions_left s')) \<and>
    (\<forall>t \<in> set (ms_tasks s). mem_try s t \<noteq> Fatal) \<and> \<not> data_race s \<and>
    mset (map fst (ms_answers s)) = finished (ms_tasks s) \<and>
    (\<exists>c. mem_serial memcache_Open (map fst (ms_answers s)) = (map snd (ms_answers s), c) \<and>
      (unfinished s \<or> ms_cache s = c))"
proof -
  have ok: "mem_ok s" using assms by (rule mem_reaches_ok)
  have "unfinished s" if "mem_step s s'" for s'
    using that by (rule mem_stepE) (metis mem_try_def attempt.distinct(3) list.simps(4) nth_mem unfinished_def)
  moreover obtain c where "mem_serial memcache_Open (map fst (ms_answers s)) = (map snd (ms_answers s), c)"
    "tally writing (ms_tasks s) = 0 \<longrightarrow> ms_cache s = c" using ok by (auto simp: mem_ok_def)
  moreover have "\<not> unfinished s \<Longrightarrow> tally writing (ms_tasks s) = 0"
    by (auto simp: unfinished_def tally_0 writing.simps)
  ultimately have "unfinished s = (\<exists>s'. mem_step s s')"
    "\<exists>c. mem_serial memcache_Open (map fst (ms_answers s)) = (map snd (ms_answers s), c) \<and> (unfinished s \<or> ms_cache s = c)"
    using mem_ok_progress [OF ok] by (blast, metis)
  then show ?thesis using mem_ok_never [OF ok] mem_step_instructions answers_finished [OF assms] by blast
qed

definition ex_calls :: mem_sys where
  "ex_calls = mem_call (mem_call mem_start (MemSet ''k'' ''v'')) (MemGet ''k'')"

theorem memcache_operations_answer_in_order_witness:
  "(\<exists>s'. mem_try (mem_schedule [0] ex_calls) (ms_tasks (mem_schedule [0] ex_calls) ! 1) = Blocks \<and>
      mem_step (mem_schedule [0] ex_calls) s') \<and>
   mem_serial memcache_Open [MemSet ''k'' ''v'', MemGet ''k''] =
     ([MemDid None, MemGot (Inr ''v'')], ms_cache (mem_schedule [0, 1, 0, 0, 1, 0, 1, 1, 1] ex_calls))"
proof -
  have r: "mem_reaches ex_calls" unfolding ex_calls_def by (intro mem_reaches.intros)
  note P = memcache_operations_answer_in_order [OF mem_schedule_reaches [OF r]]
  have blocks: "(case a of Blocks \<Rightarrow> True | _ \<Rightarrow> False) \<Longrightarrow> a = Blocks" for a :: "'a attempt" by (cases a) simp_all
  have "mem_try (mem_schedule [0] ex_calls) (ms_tasks (mem_schedule [0] ex_calls) ! 1) = Blocks"
    by (rule blocks) code_simp
  moreover have "\<exists>s'. mem_step (mem_schedule [0] ex_calls) s'"
  proof -
    have "unfinished (mem_schedule [0] ex_calls)" by code_simp
    with P [of "[0]"] show ?thesis by blast
  qed
  moreover have "mem_serial memcache_Open [MemSet ''k'' ''v'', MemGet ''k''] =
     ([MemDid None, MemGot (Inr ''v'')], ms_cache (mem_schedule [0, 1, 0, 0, 1, 0, 1, 1, 1] ex_calls))"
  proof -
    define s where "s = mem_schedule [0, 1, 0, 0, 1, 0, 1, 1, 1] ex_calls"
    have "\<not> unfinished s" "ms_answers s = [(MemSet ''k'' ''v'', MemDid None), (MemGet ''k'', MemGot (Inr ''v''))]"
      unfolding s_def by code_simp+
    with P [of "[0, 1, 0, 0, 1, 0, 1, 1, 1]", folded s_def] show ?thesis unfolding s_def [symmetric] by auto
  qed
  ultimately show ?thesis by blast
qed

end
