(* ===== verification/FsOverlap.thy ===== *)
theory FsOverlap
  imports LongKeys
begin

text \<open>
  Operations of the file-system backend that overlap. \<open>Get\<close>, \<open>Set\<close> and \<open>Delete\<close> run in goroutines
  without a lock, and one whose caller has timed out runs on, so the calls of \<open>os.Root\<close> that they
  make interleave: between \<open>Create\<close>, which truncates the file, and \<open>Write\<close>, other operations open,
  read, truncate, write or remove it. Names stand for files (inodes) here, and an open file stays
  what it is when its name is removed. One call is one step; \<open>MkdirAll\<close>, \<open>ReadAll\<close> and \<open>Write\<close> with
  the \<open>Sync\<close> after it count as one call each.
\<close>

subsection \<open>Names and files\<close>

record disk =
  dk_names :: "(path \<times> nat) list"
  dk_data :: "bytes list"
  dk_dirs :: "path list"
  dk_mtimes :: "(path \<times> time) list"

datatype handle = FileHandle nat | DirHandle

text \<open>The file system of \<open>FsCache\<close> that a disk stands for.\<close>

definition view :: "disk \<Rightarrow> fs" where
  "view d = \<lparr>fs_files = map (\<lambda>(p, i). (p, dk_data d ! i)) (dk_names d), fs_dirs = dk_dirs d,
     fs_mtimes = dk_mtimes d\<rparr>"

definition disk_Open :: "disk \<Rightarrow> path \<Rightarrow> fs_error + handle" where
  "disk_Open d p =
     (case walk_error (view d) p of
        Some e \<Rightarrow> Inl e
      | None \<Rightarrow> (case map_of (dk_names d) p of
                  Some i \<Rightarrow> Inr (FileHandle i)
                | None \<Rightarrow> if is_dir (view d) p then Inr DirHandle else Inl ENOENT))"

definition disk_ReadAll :: "disk \<Rightarrow> handle \<Rightarrow> fs_error + bytes" where
  "disk_ReadAll d h = (case h of FileHandle i \<Rightarrow> Inr (dk_data d ! i) | DirHandle \<Rightarrow> Inl EISDIR)"

definition disk_MkdirAll :: "disk \<Rightarrow> path \<Rightarrow> fs_error option \<times> disk" where
  "disk_MkdirAll d p = (let (e, f) = fs_mkdir_parents (view d) p in (e, d\<lparr>dk_dirs := fs_dirs f\<rparr>))"

text \<open>\<open>Create\<close> truncates the file that has the name, or makes one.\<close>

definition disk_Create :: "disk \<Rightarrow> path \<Rightarrow> (fs_error + nat) \<times> disk" where
  "disk_Create d p =
     (case walk_error (view d) p of
        Some e \<Rightarrow> (Inl e, d)
      | None \<Rightarrow>
          if is_dir (view d) p then (Inl EISDIR, d)
          else case map_of (dk_names d) p of
                 Some i \<Rightarrow> (Inr i, d\<lparr>dk_data := (dk_data d)[i := []]\<rparr>)
               | None \<Rightarrow> (Inr (length (dk_data d)),
                   d\<lparr>dk_names := AList.update p (length (dk_data d)) (dk_names d), dk_data := dk_data d @ [[]]\<rparr>))"

text \<open>The first write to a file just opened: at offset 0, over what is there by now.\<close>

definition disk_Write :: "disk \<Rightarrow> nat \<Rightarrow> bytes \<Rightarrow> disk" where
  "disk_Write d i data = d\<lparr>dk_data := (dk_data d)[i := data @ drop (length data) (dk_data d ! i)]\<rparr>"

definition disk_Remove :: "disk \<Rightarrow> path \<Rightarrow> fs_error option \<times> disk" where
  "disk_Remove d p =
     (let (e, f) = fs_remove (view d) p
      in (e, if e = None then d\<lparr>dk_names := AList.delete p (dk_names d), dk_dirs := fs_dirs f\<rparr> else d))"

definition disk_Chtimes :: "disk \<Rightarrow> path \<Rightarrow> time \<Rightarrow> fs_error option \<times> disk" where
  "disk_Chtimes d p t =
     (case walk_error (view d) p of
        Some e \<Rightarrow> (Some e, d)
      | None \<Rightarrow>
          if is_file (view d) p \<or> is_dir (view d) p
          then (None, d\<lparr>dk_mtimes := AList.update p t (dk_mtimes d)\<rparr>) else (Some ENOENT, d))"

subsection \<open>The operations, call by call\<close>

datatype file_op = OpGet string | OpSet string bytes | OpDelete string

datatype op_result = Got "cache_error + bytes" | Did "cache_error option"

text \<open>Where an operation is: before which call, with what it has by then, or answered.\<close>

datatype file_pc =
    ToOpen path
  | ToRead path handle
  | ToTouch path bytes
  | ToMkdir path bytes
  | ToCreate path bytes
  | ToWrite nat bytes
  | ToRemove path
  | Answered op_result

definition encode :: "fsConfig \<Rightarrow> nat \<Rightarrow> bytes \<Rightarrow> crypt_error + bytes" where
  "encode cfg n v = (case fc_enc cfg of None \<Rightarrow> Inr v | Some e \<Rightarrow> Encrypt e (fc_random cfg n) v)"

definition decode :: "fsConfig \<Rightarrow> bytes \<Rightarrow> crypt_error + bytes" where
  "decode cfg raw = (case fc_enc cfg of None \<Rightarrow> Inr raw | Some e \<Rightarrow> Decrypt e raw)"

text \<open>The operation number \<open>n\<close> up to its first call.\<close>

fun begin_op :: "fsConfig \<Rightarrow> nat \<Rightarrow> file_op \<Rightarrow> file_pc" where
  "begin_op cfg n (OpGet key) =
     (case name_path (fragmentFileName key) of
        Inl e \<Rightarrow> Answered (Got (Inl (fs_lookup_error e))) | Inr p \<Rightarrow> ToOpen p)"
| "begin_op cfg n (OpSet key v) =
     (case encode cfg n v of
        Inl _ \<Rightarrow> Answered (Did (Some (ErrBackend ''encrypt'')))
      | Inr data \<Rightarrow>
          (case name_path (fragmentFileName key) of
             Inl e \<Rightarrow> Answered (Did (Some (fs_backend_error e))) | Inr p \<Rightarrow> ToMkdir p data))"
| "begin_op cfg n (OpDelete key) =
     (case name_path (fragmentFileName key) of
        Inl e \<Rightarrow> Answered (Did (Some (fs_lookup_error e))) | Inr p \<Rightarrow> ToRemove p)"

text \<open>One definition per call, with what follows it up to the next one.\<close>

definition call_open :: "path \<Rightarrow> disk \<Rightarrow> file_pc \<times> disk" where
  "call_open p d =
     (case disk_Open d p of
        Inl e \<Rightarrow> (Answered (Got (Inl (fs_lookup_error e))), d) | Inr h \<Rightarrow> (ToRead p h, d))"

definition call_read :: "fsConfig \<Rightarrow> path \<Rightarrow> handle \<Rightarrow> disk \<Rightarrow> file_pc \<times> disk" where
  "call_read cfg p h d =
     (case disk_ReadAll d h of
        Inl e \<Rightarrow> (Answered (Got (Inl (fs_backend_error e))), d)
      | Inr raw \<Rightarrow>
          (case decode cfg raw of
             Inl _ \<Rightarrow> (Answered (Got (Inl (ErrBackend ''decrypt''))), d)
           | Inr data \<Rightarrow> (if fc_updateMTime cfg then ToTouch p data else Answered (Got (Inr data)), d)))"

definition call_touch :: "fsConfig \<Rightarrow> nat \<Rightarrow> path \<Rightarrow> bytes \<Rightarrow> disk \<Rightarrow> file_pc \<times> disk" where
  "call_touch cfg n p data d =
     (case disk_Chtimes d p (fc_now cfg n) of
        (Some e, d) \<Rightarrow> (Answered (Got (Inl (fs_backend_error e))), d)
      | (None, d) \<Rightarrow> (Answered (Got (Inr data)), d))"

definition call_mkdir :: "path \<Rightarrow> bytes \<Rightarrow> disk \<Rightarrow> file_pc \<times> disk" where
  "call_mkdir p data d =
     (case disk_MkdirAll d p of
        (Some e, d) \<Rightarrow> (Answered (Did (Some (fs_backend_error e))), d)
      | (None, d) \<Rightarrow> (ToCreate p data, d))"

definition call_create :: "path \<Rightarrow> bytes \<Rightarrow> disk \<Rightarrow> file_pc \<times> disk" where
  "call_create p data d =
     (case disk_Create d p of
        (Inl e, d) \<Rightarrow> (Answered (Did (Some (fs_backend_error e))), d)
      | (Inr i, d) \<Rightarrow> (ToWrite i data, d))"

definition call_write :: "nat \<Rightarrow> bytes \<Rightarrow> disk \<Rightarrow> file_pc \<times> disk" where
  "call_write i data d = (Answered (Did None), disk_Write d i data)"

definition call_remove :: "path \<Rightarrow> disk \<Rightarrow> file_pc \<times> disk" where
  "call_remove p d =
     (case disk_Remove d p of
        (Some e, d) \<Rightarrow> (Answered (Did (Some (fs_lookup_error e))), d)
      | (None, d) \<Rightarrow> (Answered (Did None), d))"

fun file_step :: "fsConfig \<Rightarrow> nat \<Rightarrow> file_pc \<times> disk \<Rightarrow> file_pc \<times> disk" where
  "file_step cfg n (ToOpen p, d) = call_open p d"
| "file_step cfg n (ToRead p h, d) = call_read cfg p h d"
| "file_step cfg n (ToTouch p data, d) = call_touch cfg n p data d"
| "file_step cfg n (ToMkdir p data, d) = call_mkdir p data d"
| "file_step cfg n (ToCreate p data, d) = call_create p data d"
| "file_step cfg n (ToWrite i data, d) = call_write i data d"
| "file_step cfg n (ToRemove p, d) = call_remove p d"
| "file_step cfg n (Answered r, d) = (Answered r, d)"

declare call_open_def [simp] call_read_def [simp] call_touch_def [simp] call_mkdir_def [simp] call_create_def [simp]
  call_write_def [simp] call_remove_def [simp]

text \<open>No operation makes more than three calls.\<close>

definition run_op :: "fsConfig \<Rightarrow> nat \<Rightarrow> file_op \<Rightarrow> disk \<Rightarrow> file_pc \<times> disk" where
  "run_op cfg n op d = (file_step cfg n ^^ 3) (begin_op cfg n op, d)"

subsection \<open>An operation by itself is the operation of \<open>FsCache\<close>\<close>

text \<open>Every name has a file of its own.\<close>

definition disk_ok :: "disk \<Rightarrow> bool" where
  "disk_ok d \<longleftrightarrow> distinct (map fst (dk_names d)) \<and> distinct (map snd (dk_names d)) \<and>
     (\<forall>i \<in> snd ` set (dk_names d). i < length (dk_data d))"

lemma view_files [simp]:
  "map fst (fs_files (view d)) = map fst (dk_names d)" "fs_dirs (view d) = dk_dirs d"
  by (simp_all add: view_def o_def split_def)

lemma map_of_view: "map_of (fs_files (view d)) p = map_option (\<lambda>i. dk_data d ! i) (map_of (dk_names d) p)"
proof -
  have "map_of (map (\<lambda>(p, i). (p, f i)) xs) p = map_option f (map_of xs p)" for xs and f :: "nat \<Rightarrow> bytes"
    by (induction xs) auto
  then show ?thesis by (simp add: view_def)
qed

lemma view_write:
  assumes "disk_ok d" "map_of (dk_names d) p = Some i"
  shows "view (d\<lparr>dk_data := (dk_data d)[i := v]\<rparr>) = (view d)\<lparr>fs_files := AList.update p v (fs_files (view d))\<rparr>"
proof -
  have "map (\<lambda>(q, j). (q, xs[i := v] ! j)) ns = AList.update p v (map (\<lambda>(q, j). (q, xs ! j)) ns)"
    if "distinct (map fst ns)" "distinct (map snd ns)" "\<forall>i \<in> snd ` set ns. i < length xs" "map_of ns p = Some i" for ns xs
    using that
  proof (induction ns)
    case (Cons x ns)
    obtain q j where x: "x = (q, j)" by (cases x)
    show ?case
    proof (cases "q = p")
      case True
      then have "i \<notin> snd ` set ns" "j = i" using Cons.prems x by auto
      then have "map (\<lambda>(q, j). (q, xs[i := v] ! j)) ns = map (\<lambda>(q, j). (q, xs ! j)) ns"
        by (force intro!: nth_list_update_neq)
      then show ?thesis using True x \<open>j = i\<close> Cons.prems(3) by simp
    next
      case False
      then have "j \<noteq> i" using Cons.prems(2,4) x map_of_SomeD [of ns p i] by force
      then show ?thesis using False x Cons by simp
    qed
  qed simp
  then show ?thesis using assms by (simp add: view_def disk_ok_def)
qed

lemma view_create:
  assumes "disk_ok d" "map_of (dk_names d) p = None"
  shows "view (d\<lparr>dk_names := AList.update p (length (dk_data d)) (dk_names d), dk_data := dk_data d @ [v]\<rparr>)
    = (view d)\<lparr>fs_files := AList.update p v (fs_files (view d))\<rparr>"
proof -
  have "map (\<lambda>(q, j). (q, (xs @ [v]) ! j)) (AList.update p (length xs) ns) = AList.update p v (map (\<lambda>(q, j). (q, xs ! j)) ns)"
    if "\<forall>i \<in> snd ` set ns. i < length xs" "map_of ns p = None" for ns and xs :: "bytes list"
    using that
  proof (induction ns)
    case (Cons x ns)
    then show ?case by (cases x) (auto simp: nth_append split: if_splits)
  qed simp
  then show ?thesis using assms by (simp add: view_def disk_ok_def)
qed

lemma view_delete: "view (d\<lparr>dk_names := AList.delete p (dk_names d)\<rparr>) = (view d)\<lparr>fs_files := AList.delete p (fs_files (view d))\<rparr>"
proof -
  have "map (\<lambda>(q, j). (q, f j)) (AList.delete p ns) = AList.delete p (map (\<lambda>(q, j). (q, f j)) ns)" for ns and f :: "nat \<Rightarrow> bytes"
    by (induction ns) (auto simp: AList.delete_eq)
  then show ?thesis by (simp add: view_def)
qed

lemma view_is_file: "is_file (view d) p \<longleftrightarrow> map_of (dk_names d) p \<noteq> None"
  by (simp add: is_file_def map_of_view)

lemma disk_Open_read:
  "(case disk_Open d p of Inl e \<Rightarrow> Inl e | Inr h \<Rightarrow> disk_ReadAll d h) = fs_read (view d) p"
  by (auto simp: disk_Open_def disk_ReadAll_def fs_read_def map_of_view split: option.split)

lemma disk_MkdirAll_view:
  "disk_MkdirAll d p = (e, d') \<Longrightarrow> fs_mkdir_parents (view d) p = (e, view d') \<and> dk_names d' = dk_names d \<and> dk_data d' = dk_data d"
proof -
  assume a: "disk_MkdirAll d p = (e, d')"
  have "fs_files (snd (mkdir_loop f qs)) = fs_files f \<and> fs_mtimes (snd (mkdir_loop f qs)) = fs_mtimes f" for f qs
    by (induction f qs rule: mkdir_loop.induct) auto
  then have "fs_files (snd (fs_mkdir_parents (view d) p)) = fs_files (view d)"
    "fs_mtimes (snd (fs_mkdir_parents (view d) p)) = fs_mtimes (view d)" by (simp_all add: fs_mkdir_parents_def)
  then show ?thesis using a by (auto simp: disk_MkdirAll_def view_def split: prod.splits)
qed

text \<open>Creating and writing at once is the write of \<open>FsCache\<close>.\<close>

lemma disk_Create_write:
  assumes "disk_ok d"
  shows "case disk_Create d p of
      (Inl e, d') \<Rightarrow> fs_write (view d) p data = (Some e, view d) \<and> d' = d
    | (Inr i, d') \<Rightarrow> fs_write (view d) p data = (None, view (disk_Write d' i data)) \<and> i < length (dk_data d')"
proof (cases "walk_error (view d) p = None \<and> \<not> is_dir (view d) p")
  case False
  then show ?thesis by (auto simp: disk_Create_def fs_write_def split: option.split)
next
  case ok: True
  show ?thesis
  proof (cases "map_of (dk_names d) p")
    case None
    have "view (disk_Write (d\<lparr>dk_names := AList.update p (length (dk_data d)) (dk_names d), dk_data := dk_data d @ [[]]\<rparr>)
        (length (dk_data d)) data) = (view d)\<lparr>fs_files := AList.update p data (fs_files (view d))\<rparr>"
      using view_create [OF assms None, of data] by (simp add: disk_Write_def)
    then show ?thesis using ok None by (simp add: disk_Create_def fs_write_def)
  next
    case (Some i)
    then have i: "i < length (dk_data d)" using assms map_of_SomeD [OF Some] by (force simp: disk_ok_def)
    then have "view (disk_Write (d\<lparr>dk_data := (dk_data d)[i := []]\<rparr>) i data)
        = (view d)\<lparr>fs_files := AList.update p data (fs_files (view d))\<rparr>"
      using view_write [OF assms Some, of data] by (simp add: disk_Write_def)
    then show ?thesis using ok Some i by (simp add: disk_Create_def fs_write_def)
  qed
qed

lemma disk_Remove_view:
  assumes "disk_Remove d p = (e, d')"
  shows "fs_remove (view d) p = (e, view d')"
proof -
  obtain f where f: "fs_remove (view d) p = (e, f)"
    and d': "d' = (if e = None then d\<lparr>dk_names := AList.delete p (dk_names d), dk_dirs := fs_dirs f\<rparr> else d)"
    using assms by (auto simp: disk_Remove_def Let_def split: prod.splits)
  have keep: "AList.delete p (fs_files (view d)) = fs_files (view d)" if "\<not> is_file (view d) p"
    using that by (force simp: AList.delete_eq filter_id_conv is_file_def map_of_eq_None_iff)
  have "e \<noteq> None \<Longrightarrow> f = view d"
    using f by (auto simp: fs_remove_def split: option.splits if_splits)
  moreover have "e = None \<Longrightarrow> f = (view d)\<lparr>fs_files := AList.delete p (fs_files (view d)), fs_dirs := fs_dirs f\<rparr>"
    using f keep by (auto simp: fs_remove_def split: option.splits if_splits)
  moreover have "view (d\<lparr>dk_names := AList.delete p (dk_names d), dk_dirs := ds\<rparr>)
      = (view d)\<lparr>fs_files := AList.delete p (fs_files (view d)), fs_dirs := ds\<rparr>" for ds
    using view_delete [of p d] by (simp add: view_def)
  ultimately show ?thesis using f d' by (cases "e = None") simp_all
qed

lemma disk_Chtimes_view:
  "walk_error (view d) p = None \<Longrightarrow> is_file (view d) p \<Longrightarrow>
   disk_Chtimes d p t = (None, d\<lparr>dk_mtimes := AList.update p t (dk_mtimes d)\<rparr>) \<and>
   view (d\<lparr>dk_mtimes := AList.update p t (dk_mtimes d)\<rparr>) = fs_chtimes (view d) p t"
  by (simp add: disk_Chtimes_def fs_chtimes_def view_def)

text \<open>Every call keeps the names apart.\<close>

lemma disk_ok_names [simp]:
  "disk_ok (d\<lparr>dk_dirs := ds\<rparr>) = disk_ok d" "disk_ok (d\<lparr>dk_mtimes := ms\<rparr>) = disk_ok d"
  "disk_ok (d\<lparr>dk_data := (dk_data d)[i := v]\<rparr>) = disk_ok d"
  by (simp_all add: disk_ok_def)

lemma disk_ok_delete: "disk_ok d \<Longrightarrow> disk_ok (d\<lparr>dk_names := AList.delete p (dk_names d)\<rparr>)"
  by (auto simp: disk_ok_def AList.delete_eq distinct_map inj_on_def)

lemma disk_ok_create:
  assumes "disk_ok d" "map_of (dk_names d) p = None"
  shows "disk_ok (d\<lparr>dk_names := AList.update p (length (dk_data d)) (dk_names d), dk_data := dk_data d @ [v]\<rparr>)"
proof -
  have "AList.update p i ns = ns @ [(p, i)]" if "map_of ns p = None" for ns :: "(path \<times> nat) list" and i
    using that by (induction ns) (auto split: if_splits)
  moreover have "p \<notin> fst ` set (dk_names d)" using assms(2) by (simp add: map_of_eq_None_iff)
  ultimately show ?thesis using assms by (auto simp: disk_ok_def)
qed

lemma file_step_ok:
  assumes "disk_ok d" "file_step cfg n (pc, d) = (pc', d')"
  shows "disk_ok d'"
proof (cases pc)
  case (ToMkdir p data)
  then show ?thesis using assms by (auto simp: disk_MkdirAll_def Let_def split: prod.splits option.splits)
next
  case (ToCreate p data)
  then show ?thesis using assms disk_ok_create [OF assms(1)]
    by (auto simp: disk_Create_def split: prod.splits option.splits sum.splits if_splits)
next
  case (ToRemove p)
  then show ?thesis using assms disk_ok_delete
    by (auto simp: disk_Remove_def Let_def split: prod.splits option.splits if_splits)
next
  case (ToTouch p data)
  then show ?thesis using assms by (auto simp: disk_Chtimes_def split: prod.splits option.splits if_splits)
qed (use assms in \<open>auto simp: disk_Write_def split: sum.splits prod.splits\<close>)

lemma file_steps_ok: "disk_ok (snd s) \<Longrightarrow> disk_ok (snd ((file_step cfg n ^^ m) s))"
proof (induction m)
  case (Suc m)
  then show ?case using file_step_ok [of "snd ((file_step cfg n ^^ m) s)" cfg n "fst ((file_step cfg n ^^ m) s)"]
    by (cases "file_step cfg n ((file_step cfg n ^^ m) s)") simp
qed simp

fun fs_op :: "fsConfig \<Rightarrow> fsCache \<Rightarrow> file_op \<Rightarrow> op_result \<times> fsCache" where
  "fs_op cfg c (OpGet key) = apfst Got (fs_get cfg c key)"
| "fs_op cfg c (OpSet key v) = apfst Did (fs_set cfg c key v)"
| "fs_op cfg c (OpDelete key) = apfst Did (fs_delete cfg c key)"

lemma fs_get_decode:
  "fs_get cfg c key =
     (case name_path (fragmentFileName key) of
        Inl e \<Rightarrow> (Inl (fs_lookup_error e), c)
      | Inr p \<Rightarrow>
          (case fs_read (fc_fs c) p of
             Inl e \<Rightarrow> (Inl (fs_lookup_error e), c)
           | Inr raw \<Rightarrow>
               (case decode cfg raw of
                  Inl _ \<Rightarrow> (Inl (ErrBackend ''decrypt''), c)
                | Inr data \<Rightarrow>
                    (Inr data,
                     if fc_updateMTime cfg
                     then c\<lparr>fc_fs := fs_chtimes (fc_fs c) p (fc_now cfg (fc_ops c))\<rparr> else c))))"
  unfolding fs_get_def decode_def by (rule refl)

lemma fs_set_encode:
  "fs_set cfg c key v =
     (case encode cfg (fc_ops c) v of
        Inl _ \<Rightarrow> (Some (ErrBackend ''encrypt''), c)
      | Inr data \<Rightarrow>
          (case name_path (fragmentFileName key) of
             Inl e \<Rightarrow> (Some (fs_backend_error e), c)
           | Inr p \<Rightarrow>
               (case fs_mkdir_parents (fc_fs c) p of
                  (Some e, f) \<Rightarrow> (Some (fs_backend_error e), c\<lparr>fc_fs := f\<rparr>)
                | (None, f) \<Rightarrow>
                    (case fs_write f p data of
                       (Some e, f) \<Rightarrow> (Some (fs_backend_error e), c\<lparr>fc_fs := f\<rparr>)
                     | (None, f) \<Rightarrow> (None, c\<lparr>fc_fs := f\<rparr>)))))"
  unfolding fs_set_def encode_def by (rule refl)

lemma run_op_fs_op:
  assumes "disk_ok d"
  shows "\<exists>r d'. run_op cfg n op d = (Answered r, d') \<and> disk_ok d' \<and>
    fs_op cfg \<lparr>fc_fs = view d, fc_ops = n\<rparr> op = (r, \<lparr>fc_fs = view d', fc_ops = n\<rparr>)"
proof -
  have ok: "disk_ok (snd (run_op cfg n op d))"
    unfolding run_op_def by (rule file_steps_ok) (simp add: assms)
  have three: "(f ^^ 3) x = f (f (f x))" for f :: "'a \<Rightarrow> 'a" and x by (simp add: numeral_3_eq_3)
  have "\<exists>r d'. run_op cfg n op d = (Answered r, d') \<and>
    fs_op cfg \<lparr>fc_fs = view d, fc_ops = n\<rparr> op = (r, \<lparr>fc_fs = view d', fc_ops = n\<rparr>)"
  proof (cases op)
    case (OpGet key)
    show ?thesis
    proof (cases "name_path (fragmentFileName key)")
      case (Inr p)
      have R: "(case disk_Open d p of Inl e \<Rightarrow> Inl e | Inr h \<Rightarrow> disk_ReadAll d h) = fs_read (view d) p"
        by (rule disk_Open_read)
      have T: "disk_Open d p = Inr (FileHandle i) \<Longrightarrow> walk_error (view d) p = None \<and> is_file (view d) p" for i
        by (auto simp: disk_Open_def view_is_file split: option.splits if_splits)
      show ?thesis
      proof (cases "disk_Open d p")
        case (Inl e)
        then have "fs_read (view d) p = Inl e" using R by simp
        then show ?thesis using Inl Inr OpGet by (simp add: run_op_def three fs_get_decode)
      next
        case h: (Inr h)
        show ?thesis
        proof (cases h)
          case DirHandle
          then have "fs_read (view d) p = Inl EISDIR" using R h by (simp add: disk_ReadAll_def)
          then show ?thesis using Inr OpGet h DirHandle
            by (simp add: run_op_def three fs_get_decode disk_ReadAll_def fs_lookup_error_def)
        next
          case (FileHandle i)
          then have "fs_read (view d) p = Inr (dk_data d ! i)" using R h by (simp add: disk_ReadAll_def)
          then show ?thesis using Inr OpGet h FileHandle T [of i] disk_Chtimes_view [of d p "fc_now cfg n"]
            by (auto simp: run_op_def three fs_get_decode disk_ReadAll_def split: sum.splits option.splits)
        qed
      qed
    qed (use OpGet in \<open>simp add: run_op_def three fs_get_decode\<close>)
  next
    case (OpSet key v)
    show ?thesis
    proof (cases "encode cfg n v")
      case (Inl e)
      then show ?thesis using OpSet by (simp add: run_op_def three fs_set_encode)
    next
      case data: (Inr data)
      show ?thesis
      proof (cases "name_path (fragmentFileName key)")
        case (Inl e)
        then show ?thesis using OpSet data by (simp add: run_op_def three fs_set_encode)
      next
        case (Inr p)
        obtain e d1 where mk: "disk_MkdirAll d p = (e, d1)" by fastforce
        note M = disk_MkdirAll_view [OF mk]
        then have ok1: "disk_ok d1" using assms by (simp add: disk_ok_def)
        obtain r d2 where cr: "disk_Create d1 p = (r, d2)" by fastforce
        show ?thesis using M disk_Create_write [OF ok1, of p data] mk cr OpSet data Inr
          by (cases e; cases r) (simp_all add: run_op_def three fs_set_encode)
      qed
    qed
  next
    case (OpDelete key)
    show ?thesis
    proof (cases "name_path (fragmentFileName key)")
      case (Inr p)
      obtain e d1 where rm: "disk_Remove d p = (e, d1)" by fastforce
      show ?thesis using disk_Remove_view [OF rm] rm Inr OpDelete
        by (cases e) (simp_all add: run_op_def three fs_delete_def)
    qed (use OpDelete in \<open>simp add: run_op_def three fs_delete_def\<close>)
  qed
  with ok show ?thesis by fastforce
qed

subsection \<open>Operations that overlap\<close>

text \<open>
  A task is an operation with where it is; its number is its place among the tasks. Tasks begin and
  make their next call in any order, and one that is answered stays to be looked at.
\<close>

type_synonym task = "file_op \<times> file_pc"

definition empty_disk :: disk where
  "empty_disk = \<lparr>dk_names = [], dk_data = [], dk_dirs = [], dk_mtimes = []\<rparr>"

inductive overlap_step :: "fsConfig \<Rightarrow> disk \<times> task list \<Rightarrow> disk \<times> task list \<Rightarrow> bool" for cfg where
  begins: "overlap_step cfg (d, ts) (d, ts @ [(op, begin_op cfg (length ts) op)])"
| calls: "i < length ts \<Longrightarrow> ts ! i = (op, pc) \<Longrightarrow> file_step cfg i (pc, d) = (pc', d') \<Longrightarrow>
    overlap_step cfg (d, ts) (d', ts[i := (op, pc')])"

inductive overlaps :: "fsConfig \<Rightarrow> disk \<times> task list \<Rightarrow> bool" for cfg where
  start: "overlaps cfg (empty_disk, [])"
| step: "overlaps cfg s \<Longrightarrow> overlap_step cfg s s' \<Longrightarrow> overlaps cfg s'"

inductive_cases overlap_stepE: "overlap_step cfg (d, ts) s"

text \<open>What the tasks have asked to store under a key, as it is written to the file.\<close>

definition set_under :: "fsConfig \<Rightarrow> task list \<Rightarrow> string \<Rightarrow> bytes set" where
  "set_under cfg ts k = {raw. \<exists>m v. m < length ts \<and> fst (ts ! m) = OpSet k v \<and> encode cfg m v = Inr raw}"

text \<open>What writes at offset 0 after truncations leave in a file, in any number and order.\<close>

inductive_set overlays :: "bytes set \<Rightarrow> bytes set" for W where
  truncated: "[] \<in> overlays W"
| written: "c \<in> overlays W \<Longrightarrow> v \<in> W \<Longrightarrow> v @ drop (length v) c \<in> overlays W"

lemma overlays_mono: "W \<subseteq> W' \<Longrightarrow> c \<in> overlays W \<Longrightarrow> c \<in> overlays W'"
  by (erule overlays.induct) (auto intro: overlays.intros)

lemma overlays_bytes: "c \<in> overlays W \<Longrightarrow> j < length c \<Longrightarrow> \<exists>v \<in> W. j < length v \<and> c ! j = v ! j"
proof (induction rule: overlays.induct)
  case (written c v)
  then show ?case by (cases "j < length v") (auto simp: nth_append)
qed simp

lemma set_under_mono: "set_under cfg ts k \<subseteq> set_under cfg (ts @ [t]) k"
proof
  fix raw
  assume "raw \<in> set_under cfg ts k"
  then obtain m v where "m < length ts" "fst (ts ! m) = OpSet k v" "encode cfg m v = Inr raw"
    by (auto simp: set_under_def)
  then show "raw \<in> set_under cfg (ts @ [t]) k"
    unfolding set_under_def by (auto simp: nth_append intro!: exI [of _ m])
qed

lemma set_under_update: "ts ! i = (op, pc) \<Longrightarrow> set_under cfg (ts[i := (op, pc')]) k = set_under cfg ts k"
proof -
  assume "ts ! i = (op, pc)"
  then have "m < length ts \<Longrightarrow> fst (ts[i := (op, pc')] ! m) = fst (ts ! m)" for m by (cases "m = i") simp_all
  then show ?thesis by (auto simp: set_under_def)
qed

subsection \<open>Files of their own\<close>

text \<open>
  \<open>own ! i\<close> is the name the file \<open>i\<close> was made under. A task only holds files of its own name and only
  writes what was to be stored under it.
\<close>

definition path_of :: "string \<Rightarrow> path \<Rightarrow> bool" where
  "path_of k p \<longleftrightarrow> name_path (fragmentFileName k) = Inr p"

lemma path_of_unique: "path_of k p \<Longrightarrow> path_of k' p \<Longrightarrow> k = k'"
proof -
  assume p: "path_of k p" "path_of k' p"
  then have "k \<noteq> []" "k' \<noteq> []" by (auto simp: path_of_def name_path_def fragmentFileName_empty_iff split: if_splits)
  then have "key_path k = key_path k'" using p by (simp add: path_of_def name_path_key_path)
  then show ?thesis by (simp add: key_path_inject)
qed

definition readable :: "fsConfig \<Rightarrow> (string \<Rightarrow> bytes set) \<Rightarrow> string \<Rightarrow> bytes \<Rightarrow> bool" where
  "readable cfg W k data \<longleftrightarrow> (\<exists>raw \<in> overlays (W k). decode cfg raw = Inr data)"

lemma readableI: "raw \<in> overlays (W k) \<Longrightarrow> decode cfg raw = Inr data \<Longrightarrow> readable cfg W k data"
  unfolding readable_def by blast

lemma readable_mono: "readable cfg W k data \<Longrightarrow> W k \<subseteq> W' k \<Longrightarrow> readable cfg W' k data"
  unfolding readable_def using overlays_mono by blast

fun task_ok :: "fsConfig \<Rightarrow> (string \<Rightarrow> bytes set) \<Rightarrow> path list \<Rightarrow> task \<Rightarrow> bool" where
  "task_ok cfg W own (op, ToOpen p) \<longleftrightarrow> (\<exists>k. op = OpGet k \<and> path_of k p)"
| "task_ok cfg W own (op, ToRead p h) \<longleftrightarrow>
     (\<exists>k. op = OpGet k \<and> path_of k p) \<and> (\<forall>i. h = FileHandle i \<longrightarrow> i < length own \<and> own ! i = p)"
| "task_ok cfg W own (op, ToTouch p data) \<longleftrightarrow>
     (\<exists>k. op = OpGet k \<and> path_of k p \<and> readable cfg W k data)"
| "task_ok cfg W own (op, ToMkdir p data) \<longleftrightarrow> (\<exists>k. path_of k p \<and> data \<in> W k)"
| "task_ok cfg W own (op, ToCreate p data) \<longleftrightarrow> (\<exists>k. path_of k p \<and> data \<in> W k)"
| "task_ok cfg W own (op, ToWrite i data) \<longleftrightarrow> i < length own \<and> (\<exists>k. path_of k (own ! i) \<and> data \<in> W k)"
| "task_ok cfg W own (op, ToRemove p) \<longleftrightarrow> True"
| "task_ok cfg W own (op, Answered r) \<longleftrightarrow>
     (\<forall>data. r = Got (Inr data) \<longrightarrow> (\<exists>k. op = OpGet k \<and> readable cfg W k data))"

definition files_ok :: "(string \<Rightarrow> bytes set) \<Rightarrow> path list \<Rightarrow> disk \<Rightarrow> bool" where
  "files_ok W own d \<longleftrightarrow> length own = length (dk_data d) \<and>
     (\<forall>(p, i) \<in> set (dk_names d). i < length own \<and> own ! i = p) \<and>
     (\<forall>i < length own. \<forall>k. path_of k (own ! i) \<longrightarrow> dk_data d ! i \<in> overlays (W k))"

lemma task_ok_mono:
  assumes "task_ok cfg W own t" "\<And>k. W k \<subseteq> W' k"
  shows "task_ok cfg W' (own @ ps) t"
proof -
  have o: "readable cfg W k c \<Longrightarrow> readable cfg W' k c" for c k using readable_mono [OF _ assms(2)] .
  obtain op pc where t: "t = (op, pc)" by (cases t)
  have w: "c \<in> W k \<Longrightarrow> c \<in> W' k" for c k using assms(2) by blast
  show ?thesis using assms(1) unfolding t by (cases pc) (auto simp: nth_append intro: o w)
qed

lemma files_ok_mono: "files_ok W own d \<Longrightarrow> (\<And>k. W k \<subseteq> W' k) \<Longrightarrow> files_ok W' own d"
proof -
  assume f: "files_ok W own d" and w: "\<And>k. W k \<subseteq> W' k"
  have "c \<in> overlays (W k) \<Longrightarrow> c \<in> overlays (W' k)" for c k using overlays_mono [OF w] .
  with f show ?thesis by (auto simp: files_ok_def)
qed

text \<open>One call of a task: the files keep their names and the task holds and writes its own.\<close>

lemma begin_op_ok:
  assumes "\<And>k v raw. op = OpSet k v \<Longrightarrow> encode cfg n v = Inr raw \<Longrightarrow> raw \<in> W k"
  shows "task_ok cfg W own (op, begin_op cfg n op)"
  using assms by (cases op) (auto simp: path_of_def split: sum.split)

lemma files_ok_simps [simp]:
  "files_ok W own (d\<lparr>dk_dirs := ds\<rparr>) = files_ok W own d" "files_ok W own (d\<lparr>dk_mtimes := ms\<rparr>) = files_ok W own d"
  by (simp_all add: files_ok_def)

lemma files_ok_data:
  assumes "files_ok W own d" "\<And>k. path_of k (own ! i) \<Longrightarrow> c \<in> overlays (W k)"
  shows "files_ok W own (d\<lparr>dk_data := (dk_data d)[i := c]\<rparr>)"
proof -
  have "(dk_data d)[i := c] ! j \<in> overlays (W k)" if "j < length (dk_data d)" "path_of k (own ! j)" for j k
    using assms that by (cases "j = i") (auto simp: files_ok_def)
  then show ?thesis using assms(1) by (auto simp: files_ok_def)
qed

lemma files_ok_delete: "files_ok W own d \<Longrightarrow> files_ok W own (d\<lparr>dk_names := AList.delete p (dk_names d)\<rparr>)"
  by (auto simp: files_ok_def AList.delete_eq)

lemma files_ok_create:
  assumes "files_ok W own d"
  shows "files_ok W (own @ [p]) (d\<lparr>dk_names := AList.update p (length (dk_data d)) (dk_names d), dk_data := dk_data d @ [[]]\<rparr>)"
proof -
  have "set (AList.update p i ns) \<subseteq> insert (p, i) (set ns)" for i :: nat and ns by (induction ns) auto
  then have "i < length (own @ [p]) \<and> (own @ [p]) ! i = q"
    if "(q, i) \<in> set (AList.update p (length (dk_data d)) (dk_names d))" for q i
  proof -
    have len: "length own = length (dk_data d)"
      and names: "\<And>q i. (q, i) \<in> set (dk_names d) \<Longrightarrow> i < length own \<and> own ! i = q"
      using assms by (auto simp: files_ok_def)
    have "(q, i) = (p, length (dk_data d)) \<or> (q, i) \<in> set (dk_names d)"
      using that \<open>\<And>i ns. set (AList.update p i ns) \<subseteq> insert (p, i) (set ns)\<close> by blast
    then show ?thesis using names [of q i] by (auto simp: len [symmetric] nth_append)
  qed
  moreover have "(dk_data d @ [[]]) ! i \<in> overlays (W k)" if "i < length (own @ [p])" "path_of k ((own @ [p]) ! i)" for i k
    using assms that overlays.truncated by (cases "i < length own") (auto simp: files_ok_def nth_append less_Suc_eq)
  ultimately show ?thesis using assms by (auto simp: files_ok_def)
qed

lemma file_step_tasks:
  assumes d: "files_ok W own d" and t: "task_ok cfg W own (op, pc)" and s: "file_step cfg n (pc, d) = (pc', d')"
  shows "\<exists>ps. files_ok W (own @ ps) d' \<and> task_ok cfg W (own @ ps) (op, pc')"
proof (cases pc)
  case (ToOpen p)
  then have "files_ok W (own @ []) d' \<and> task_ok cfg W (own @ []) (op, pc')"
    using d t s by (auto simp: disk_Open_def files_ok_def split: option.splits if_splits dest!: map_of_SomeD)
  then show ?thesis by blast
next
  case (ToRead p h)
  have "readable cfg W k data" if "h = FileHandle i" "path_of k p" "decode cfg (dk_data d ! i) = Inr data" for i k data
  proof (rule readableI [OF _ that(3)])
    show "dk_data d ! i \<in> overlays (W k)" using d t ToRead that(1,2) by (auto simp: files_ok_def)
  qed
  then have "files_ok W (own @ []) d' \<and> task_ok cfg W (own @ []) (op, pc')"
    using d t s ToRead by (auto simp: disk_ReadAll_def split: handle.splits sum.splits if_splits)
  then show ?thesis by blast
next
  case (ToTouch p data)
  then have "files_ok W (own @ []) d' \<and> task_ok cfg W (own @ []) (op, pc')"
    using d t s by (auto simp: disk_Chtimes_def split: option.splits if_splits)
  then show ?thesis by blast
next
  case (ToMkdir p data)
  then have "files_ok W (own @ []) d' \<and> task_ok cfg W (own @ []) (op, pc')"
    using d t s by (auto simp: disk_MkdirAll_def Let_def split: option.splits prod.splits)
  then show ?thesis by blast
next
  case (ToCreate p data)
  obtain k where k: "path_of k p" "data \<in> W k" using t ToCreate by auto
  obtain r d1 where c: "disk_Create d p = (r, d1)" by fastforce
  show ?thesis
  proof (cases "map_of (dk_names d) p")
    case None
    then have "d1 = d \<and> (\<exists>e. r = Inl e) \<or> r = Inr (length own) \<and>
        d1 = d\<lparr>dk_names := AList.update p (length (dk_data d)) (dk_names d), dk_data := dk_data d @ [[]]\<rparr>"
      using c d by (auto simp: disk_Create_def files_ok_def split: option.splits if_splits)
    then show ?thesis
    proof
      assume "d1 = d \<and> (\<exists>e. r = Inl e)"
      then have "files_ok W (own @ []) d' \<and> task_ok cfg W (own @ []) (op, pc')" using d s c ToCreate by auto
      then show ?thesis by blast
    next
      assume n: "r = Inr (length own) \<and>
        d1 = d\<lparr>dk_names := AList.update p (length (dk_data d)) (dk_names d), dk_data := dk_data d @ [[]]\<rparr>"
      then have "files_ok W (own @ [p]) d' \<and> task_ok cfg W (own @ [p]) (op, pc')"
        using files_ok_create [OF d, of p] s c ToCreate k by auto
      then show ?thesis by blast
    qed
  next
    case (Some i)
    then have i: "i < length own" "own ! i = p" using d map_of_SomeD [OF Some] by (auto simp: files_ok_def)
    have "files_ok W own (d\<lparr>dk_data := (dk_data d)[i := []]\<rparr>)" by (rule files_ok_data [OF d overlays.truncated])
    then have "files_ok W (own @ []) d' \<and> task_ok cfg W (own @ []) (op, pc')"
      using d s c ToCreate k i Some by (auto simp: disk_Create_def split: option.splits if_splits; blast)
    then show ?thesis by blast
  qed
next
  case (ToWrite i data)
  obtain k where k: "path_of k (own ! i)" "data \<in> W k" and i: "i < length own" using t ToWrite by auto
  have "data @ drop (length data) (dk_data d ! i) \<in> overlays (W k')" if "path_of k' (own ! i)" for k'
    using d i that k path_of_unique [OF that k(1)] by (auto simp: files_ok_def intro: overlays.written)
  then have "files_ok W (own @ []) d' \<and> task_ok cfg W (own @ []) (op, pc')"
    using s ToWrite files_ok_data [OF d] by (auto simp: disk_Write_def)
  then show ?thesis by blast
next
  case (ToRemove p)
  then have "files_ok W (own @ []) d' \<and> task_ok cfg W (own @ []) (op, pc')"
    using d s files_ok_delete [OF d, of p] by (auto simp: disk_Remove_def Let_def split: option.splits prod.splits if_splits)
  then show ?thesis by blast
next
  case (Answered r)
  then have "pc' = Answered r" "d' = d" using s by auto
  then have "files_ok W (own @ []) d' \<and> task_ok cfg W (own @ []) (op, pc')" using d t Answered by simp
  then show ?thesis by blast
qed

lemma overlaps_ok:
  assumes "overlaps cfg s"
  shows "\<exists>own. files_ok (set_under cfg (snd s)) own (fst s) \<and> (\<forall>t \<in> set (snd s). task_ok cfg (set_under cfg (snd s)) own t)"
  using assms
proof (induction rule: overlaps.induct)
  case start
  show ?case by (intro exI [of _ "[]"]) (simp add: files_ok_def empty_disk_def)
next
  case (step s s')
  obtain d ts where s: "s = (d, ts)" by (cases s)
  obtain own where own: "files_ok (set_under cfg ts) own d" "\<forall>t \<in> set ts. task_ok cfg (set_under cfg ts) own t"
    using step.IH s by auto
  from step.hyps(2) show ?case unfolding s
  proof (cases rule: overlap_step.cases)
    case (begins op)
    let ?t = "(op, begin_op cfg (length ts) op)"
    have "raw \<in> set_under cfg (ts @ [?t]) k" if "op = OpSet k v" "encode cfg (length ts) v = Inr raw" for k v raw
      using that by (auto simp: set_under_def intro!: exI [of _ "length ts"])
    then have "task_ok cfg (set_under cfg (ts @ [?t])) own ?t" by (rule begin_op_ok)
    moreover have "task_ok cfg (set_under cfg (ts @ [?t])) (own @ []) t" if "t \<in> set ts" for t
      using task_ok_mono [OF own(2) [rule_format, OF that] set_under_mono] .
    ultimately show ?thesis using files_ok_mono [OF own(1) set_under_mono [of cfg ts _ ?t]] begins by auto
  next
    case (calls i op pc pc' d')
    have mem: "(op, pc) \<in> set ts" using calls(2,3) nth_mem by metis
    obtain ps where ps: "files_ok (set_under cfg ts) (own @ ps) d'" "task_ok cfg (set_under cfg ts) (own @ ps) (op, pc')"
      using file_step_tasks [OF own(1) own(2) [rule_format, OF mem] calls(4)] by blast
    have W: "set_under cfg (ts[i := (op, pc')]) = set_under cfg ts" using set_under_update [OF calls(3)] by blast
    have "task_ok cfg (set_under cfg ts) (own @ ps) t" if "t \<in> set ts" for t
      using task_ok_mono [OF own(2) [rule_format, OF that] order_refl] .
    then have "\<forall>t \<in> set (ts[i := (op, pc')]). task_ok cfg (set_under cfg ts) (own @ ps) t"
      using ps(2) by (auto dest!: set_update_subset_insert [THEN subsetD])
    then show ?thesis using ps(1) W calls(1) by auto
  qed
qed

subsection \<open>A schedule that mixes two values\<close>

text \<open>One call of one of the tasks, by what stands before and after it.\<close>

lemma overlaps_call:
  assumes "overlaps cfg (d, us @ (op, pc) # vs)" "file_step cfg (length us) (pc, d) = (pc', d')"
  shows "overlaps cfg (d', us @ (op, pc') # vs)"
proof -
  have "overlap_step cfg (d, us @ (op, pc) # vs) (d', (us @ (op, pc) # vs)[length us := (op, pc')])"
    by (rule overlap_step.calls) (use assms(2) in simp_all)
  from overlaps.step [OF assms(1) this] show ?thesis by simp
qed

lemma overlaps_begin: "overlaps cfg (d, ts) \<Longrightarrow> overlaps cfg (d, ts @ [(op, begin_op cfg (length ts) op)])"
  using overlaps.step overlap_step.begins by blast

text \<open>The directory of the name is there and the name is no directory.\<close>

definition open_path :: "disk \<Rightarrow> path \<Rightarrow> bool" where
  "open_path d p \<longleftrightarrow> walk_error (view d) p = None \<and> \<not> is_dir (view d) p"

lemma walk_error_None: "walk_error f p = None \<longleftrightarrow> (\<forall>q \<in> set (parents p). is_dir f q)"
  by (auto simp: walk_error_def filter_empty_conv split: list.splits)
    (metis filter_empty_conv list.distinct(1))

lemma open_path_dirs: "dk_dirs d' = dk_dirs d \<Longrightarrow> open_path d' p = open_path d p"
  by (simp add: open_path_def walk_error_None is_dir_def)

lemma disk_MkdirAll_open: "open_path d p \<Longrightarrow> disk_MkdirAll d p = (None, d)"
proof -
  assume "open_path d p"
  moreover have "mkdir_loop f qs = (None, f)" if "\<forall>q \<in> set qs. is_dir f q" for f qs
    using that by (induction qs) simp_all
  ultimately show ?thesis by (simp add: disk_MkdirAll_def fs_mkdir_parents_def open_path_def walk_error_None)
qed

lemma disk_Create_open:
  assumes "disk_ok d" "open_path d p" "disk_Create d p = (r, d')"
  obtains i where "r = Inr i" "map_of (dk_names d') p = Some i" "dk_data d' ! i = []" "i < length (dk_data d')"
    "dk_dirs d' = dk_dirs d"
proof (cases "map_of (dk_names d) p")
  case None
  then show ?thesis using assms that by (auto simp: disk_Create_def open_path_def update_Some_unfold)
next
  case (Some i)
  then have "i < length (dk_data d)" using assms(1) map_of_SomeD [OF Some] by (force simp: disk_ok_def)
  then show ?thesis using assms Some that by (auto simp: disk_Create_def open_path_def)
qed

lemma get_answers:
  assumes "overlaps cfg (d, us @ (OpGet k, ToOpen p) # vs)" "open_path d p" "map_of (dk_names d) p = Some i"
    and "fc_enc cfg = None"
  obtains d' where "overlaps cfg (d', us @ (OpGet k, Answered (Got (Inr (dk_data d ! i)))) # vs)"
    "dk_names d' = dk_names d" "dk_data d' = dk_data d" "dk_dirs d' = dk_dirs d"
proof -
  let ?n = "length us"
  have o: "overlaps cfg (d, us @ (OpGet k, ToRead p (FileHandle i)) # vs)"
    by (rule overlaps_call [OF assms(1)]) (use assms(2,3) in \<open>simp add: disk_Open_def open_path_def\<close>)
  show ?thesis
  proof (cases "fc_updateMTime cfg")
    case False
    have "overlaps cfg (d, us @ (OpGet k, Answered (Got (Inr (dk_data d ! i)))) # vs)"
      by (rule overlaps_call [OF o]) (use False assms(4) in \<open>simp add: disk_ReadAll_def decode_def\<close>)
    then show ?thesis using that by simp
  next
    case True
    let ?d = "d\<lparr>dk_mtimes := AList.update p (fc_now cfg ?n) (dk_mtimes d)\<rparr>"
    have "overlaps cfg (d, us @ (OpGet k, ToTouch p (dk_data d ! i)) # vs)"
      by (rule overlaps_call [OF o]) (use True assms(4) in \<open>simp add: disk_ReadAll_def decode_def\<close>)
    then have "overlaps cfg (?d, us @ (OpGet k, Answered (Got (Inr (dk_data d ! i)))) # vs)"
      by (rule overlaps_call) (use assms(2,3) in \<open>simp add: disk_Chtimes_def open_path_def view_is_file\<close>)
    then show ?thesis using that by simp
  qed
qed

lemma sets_mix:
  assumes s: "overlaps cfg (d, ts)" and cfg: "fc_enc cfg = None" and k: "path_of k p" and p: "disk_ok d" "open_path d p"
  shows "\<exists>d'. overlaps cfg (d', ts @ [(OpSet k v1, Answered (Did None)), (OpSet k v2, Answered (Did None)),
    (OpGet k, Answered (Got (Inr []))), (OpGet k, Answered (Got (Inr (v2 @ drop (length v2) v1))))])"
proof -
  have path: "name_path (fragmentFileName k) = Inr p" using k by (simp add: path_of_def)
  have enc: "encode cfg n v = Inr v" for n v using cfg by (simp add: encode_def)
  have s1: "overlaps cfg (d, ts @ [(OpSet k v1, ToMkdir p v1), (OpSet k v2, ToMkdir p v2), (OpGet k, ToOpen p), (OpGet k, ToOpen p)])"
    using overlaps_begin [OF overlaps_begin [OF overlaps_begin [OF overlaps_begin [OF s, of "OpSet k v1"], of "OpSet k v2"],
          of "OpGet k"], of "OpGet k"] by (simp add: enc path)
  note mk = disk_MkdirAll_open [OF p(2)]
  have s2: "overlaps cfg (d, (ts @ [(OpSet k v1, ToCreate p v1)]) @ (OpSet k v2, ToMkdir p v2) # [(OpGet k, ToOpen p), (OpGet k, ToOpen p)])"
    using overlaps_call [OF s1, of "ToCreate p v1" d] mk by simp
  have s3: "overlaps cfg (d, ts @ (OpSet k v1, ToCreate p v1) # [(OpSet k v2, ToCreate p v2), (OpGet k, ToOpen p), (OpGet k, ToOpen p)])"
    using overlaps_call [OF s2, of "ToCreate p v2" d] mk by simp
  obtain r1 d1 where c1: "disk_Create d p = (r1, d1)" by fastforce
  obtain i where i: "r1 = Inr i" "map_of (dk_names d1) p = Some i" "dk_data d1 ! i = []" "i < length (dk_data d1)"
    "dk_dirs d1 = dk_dirs d" by (rule disk_Create_open [OF p c1])
  have o1: "open_path d1 p" using p(2) i(5) open_path_dirs by blast
  have s4: "overlaps cfg (d1, (ts @ [(OpSet k v1, ToWrite i v1)]) @ (OpSet k v2, ToCreate p v2) # [(OpGet k, ToOpen p), (OpGet k, ToOpen p)])"
    using overlaps_call [OF s3, of "ToWrite i v1" d1] c1 i(1) by simp
  have "disk_Create d1 p = (Inr i, d1)"
    using i o1 list_update_id [of "dk_data d1" i] by (simp add: disk_Create_def open_path_def)
  then have s5: "overlaps cfg (d1, (ts @ [(OpSet k v1, ToWrite i v1), (OpSet k v2, ToWrite i v2)]) @ (OpGet k, ToOpen p) # [(OpGet k, ToOpen p)])"
    using overlaps_call [OF s4, of "ToWrite i v2" d1] by simp
  obtain d2 where s6: "overlaps cfg (d2, (ts @ [(OpSet k v1, ToWrite i v1), (OpSet k v2, ToWrite i v2)]) @
      (OpGet k, Answered (Got (Inr []))) # [(OpGet k, ToOpen p)])"
    and d2: "dk_names d2 = dk_names d1" "dk_data d2 = dk_data d1" "dk_dirs d2 = dk_dirs d1"
    using get_answers [OF s5 o1 i(2) cfg] i(3) by metis
  let ?rest = "[(OpGet k, Answered (Got (Inr []))), (OpGet k, ToOpen p)]"
  have s6': "overlaps cfg (d2, ts @ (OpSet k v1, ToWrite i v1) # (OpSet k v2, ToWrite i v2) # ?rest)" using s6 by simp
  have s7: "overlaps cfg (disk_Write d2 i v1, (ts @ [(OpSet k v1, Answered (Did None))]) @ (OpSet k v2, ToWrite i v2) # ?rest)"
    using overlaps_call [OF s6', of "Answered (Did None)" "disk_Write d2 i v1"] by simp
  define d3 where "d3 = disk_Write (disk_Write d2 i v1) i v2"
  have s8: "overlaps cfg (d3, (ts @ [(OpSet k v1, Answered (Did None)), (OpSet k v2, Answered (Did None)),
      (OpGet k, Answered (Got (Inr [])))]) @ (OpGet k, ToOpen p) # [])"
    using overlaps_call [OF s7, of "Answered (Did None)" d3] by (simp add: d3_def)
  have d3: "map_of (dk_names d3) p = Some i" "dk_data d3 ! i = v2 @ drop (length v2) v1" "dk_dirs d3 = dk_dirs d"
    using d2 i by (simp_all add: d3_def disk_Write_def)
  have "open_path d3 p" using p(2) d3(3) open_path_dirs by blast
  from get_answers [OF s8 this d3(1) cfg] d3(2) show ?thesis by (metis append.assoc append_Cons append_Nil)
qed

lemma overlaps_disk_ok: "overlaps cfg s \<Longrightarrow> disk_ok (fst s)"
proof (induction rule: overlaps.induct)
  case start
  show ?case by (simp add: disk_ok_def empty_disk_def)
next
  case (step s s')
  from step.hyps(2) step.IH show ?case by (cases rule: overlap_step.cases) (auto dest: file_step_ok)
qed

lemma ex_open_path: "open_path empty_disk (key_path ''k'')"
  by (simp add: open_path_def walk_error_None is_dir_def view_def empty_disk_def key_path_def)

subsection \<open>Properties\<close>

text \<open>
  C25: An operation of the file-system backend that is not interrupted, begun in any state that
  overlapping operations lead to, comes to its answer after at most three calls of the root
  directory, and is the get, set or delete of the sequential model: the same answer, and a disk that
  stands for the same files.
\<close>

theorem file_operations_are_their_calls:
  assumes "overlaps cfg (d, ts)"
  shows "\<exists>r d'. run_op cfg n op d = (Answered r, d') \<and>
    fs_op cfg \<lparr>fc_fs = view d, fc_ops = n\<rparr> op = (r, \<lparr>fc_fs = view d', fc_ops = n\<rparr>)"
  using run_op_fs_op [of d cfg n op] overlaps_disk_ok [OF assms] by auto

theorem file_operations_are_their_calls_witness:
  "\<exists>d'. run_op ex_plain 0 (OpSet ''k'' ''v'') empty_disk = (Answered (Did None), d') \<and>
    fs_op ex_plain \<lparr>fc_fs = view empty_disk, fc_ops = 0\<rparr> (OpSet ''k'' ''v'') = (Did None, \<lparr>fc_fs = view d', fc_ops = 0\<rparr>)"
proof -
  have "fst (run_op ex_plain 0 (OpSet ''k'' ''v'') empty_disk) = Answered (Did None)" by code_simp
  then show ?thesis
    using file_operations_are_their_calls [OF overlaps.start, of ex_plain 0 "OpSet ''k'' ''v''"] by auto
qed

text \<open>
  C26: However the calls of any number of Get, Set and Delete operations interleave, a Get only ever
  answers data decoded from what values stored under its own key have left in a file, written over
  each other from the start; every byte of it is the byte of one of these values at the same place.
  Operations on other keys never show.
\<close>

theorem overlapping_operations_stay_in_their_files:
  assumes "overlaps cfg (d, ts)" and "i < length ts" and "ts ! i = (OpGet k, Answered (Got (Inr data)))"
  shows "\<exists>raw. decode cfg raw = Inr data \<and> raw \<in> overlays (set_under cfg ts k) \<and>
    (\<forall>j < length raw. \<exists>v \<in> set_under cfg ts k. j < length v \<and> raw ! j = v ! j)"
proof -
  obtain own where "\<forall>t \<in> set ts. task_ok cfg (set_under cfg ts) own t" using overlaps_ok [OF assms(1)] by auto
  moreover have "(OpGet k, Answered (Got (Inr data))) \<in> set ts" using assms(2,3) nth_mem by metis
  ultimately have "task_ok cfg (set_under cfg ts) own (OpGet k, Answered (Got (Inr data)))" by blast
  then obtain raw where "raw \<in> overlays (set_under cfg ts k)" "decode cfg raw = Inr data" by (auto simp: readable_def)
  then show ?thesis using overlays_bytes by blast
qed

theorem overlapping_operations_stay_in_their_files_witness:
  "\<exists>d' raw. overlaps ex_plain (d', [(OpSet ''k'' ''old value'', Answered (Did None)), (OpSet ''k'' ''new'', Answered (Did None)),
       (OpGet ''k'', Answered (Got (Inr []))), (OpGet ''k'', Answered (Got (Inr ''new value'')))]) \<and>
     decode ex_plain raw = Inr ''new value'' \<and> raw \<in> overlays {''old value'', ''new''}"
proof -
  let ?ts = "[(OpSet ''k'' ''old value'', Answered (Did None)), (OpSet ''k'' ''new'', Answered (Did None)),
    (OpGet ''k'', Answered (Got (Inr []))), (OpGet ''k'', Answered (Got (Inr ''new value'')))]"
  have "path_of ''k'' (key_path ''k'')" by (simp add: path_of_def name_path_key_path)
  moreover have "disk_ok empty_disk" by (simp add: disk_ok_def empty_disk_def)
  ultimately obtain d where d: "overlaps ex_plain (d, ?ts)"
    using sets_mix [OF overlaps.start, of ex_plain "''k''" "key_path ''k''" "''old value''" "''new''"] ex_open_path
    by (auto simp: ex_plain_def)
  have sub: "set_under ex_plain ?ts ''k'' \<subseteq> {''old value'', ''new''}"
  proof
    fix v assume "v \<in> set_under ex_plain ?ts ''k''"
    then obtain m where m: "m < Suc (Suc (Suc (Suc 0)))" "fst (?ts ! m) = OpSet ''k'' v" by (auto simp: set_under_def encode_def ex_plain_def)
    then consider "m = 0" | "m = 1" | "m = 2" | "m = 3" by linarith
    then show "v \<in> {''old value'', ''new''}" using m(2) by cases simp_all
  qed
  have "3 < length ?ts" "?ts ! 3 = (OpGet ''k'', Answered (Got (Inr ''new value'')))" by simp_all
  then obtain raw where raw: "decode ex_plain raw = Inr ''new value''" "raw \<in> overlays (set_under ex_plain ?ts ''k'')"
    using overlapping_operations_stay_in_their_files [OF d] by blast
  have "raw \<in> overlays {''old value'', ''new''}" using overlays_mono [OF sub raw(2)] .
  then show ?thesis using d raw(1) by blast
qed

text \<open>
  C27: Without encryption, two Sets of a key that overlap can both report success and leave in the
  file a value that nobody stored: both truncate the file before either writes, so the shorter value
  stands over the beginning of the longer one. A Get that opens the file in between answers the
  empty value without an error.
\<close>

theorem overlapping_sets_mix_values:
  assumes "overlaps cfg (d, ts)" and "fc_enc cfg = None" and "k \<noteq> []" and "open_path d (key_path k)"
    and "length v2 < length v1" and "take (length v2) v1 \<noteq> v2"
  shows "(\<exists>d'. overlaps cfg (d', ts @ [(OpSet k v1, Answered (Did None)), (OpSet k v2, Answered (Did None)),
      (OpGet k, Answered (Got (Inr []))), (OpGet k, Answered (Got (Inr (v2 @ drop (length v2) v1))))])) \<and>
    v2 @ drop (length v2) v1 \<notin> {v1, v2}"
proof -
  have "path_of k (key_path k)" using assms(3) by (simp add: path_of_def name_path_key_path)
  then have "\<exists>d'. overlaps cfg (d', ts @ [(OpSet k v1, Answered (Did None)), (OpSet k v2, Answered (Did None)),
      (OpGet k, Answered (Got (Inr []))), (OpGet k, Answered (Got (Inr (v2 @ drop (length v2) v1))))])"
    using sets_mix [OF assms(1,2) _ _ assms(4)] overlaps_disk_ok [OF assms(1)] by simp
  moreover have "v2 @ drop (length v2) v1 \<noteq> v1" using assms(6) by (metis append_eq_conv_conj)
  ultimately show ?thesis using assms(5) by simp
qed

theorem overlapping_sets_mix_values_witness:
  "\<exists>d'. overlaps ex_plain (d', [(OpSet ''k'' ''old value'', Answered (Did None)), (OpSet ''k'' ''new'', Answered (Did None)),
     (OpGet ''k'', Answered (Got (Inr []))), (OpGet ''k'', Answered (Got (Inr ''new value'')))])"
  using overlapping_sets_mix_values [OF overlaps.start _ _ ex_open_path, of ex_plain "''new''" "''old value''"]
  by (simp add: ex_plain_def)

end
