(* ===== verification/Spec2Isabelle.thy ===== *)
theory Spec2Isabelle
  imports Rules LongKeys Races Calls LateStore References Drain TransportLog Refinement ExpApi FsConfig Client MemLocks FsOverlap
begin

text \<open>
  A verification development of \<open>httpcache\<close>, a private HTTP cache after RFC 9111 that stands as an
  \<open>http.RoundTripper\<close> before another one, and of its storage backends.

  \<^bold>\<open>The program.\<close> A request enters \<open>transport.RoundTrip\<close> (\<open>roundtripper.go\<close>). Its URL is
  normalized to a key (\<open>pkg/urlkey\<close>), the references stored under the key are read, one of them is
  selected by the nominated request headers (\<open>internal/varymatcher.go\<close>), its entry is read and its
  freshness computed (\<open>internal/freshness.go\<close>), and the response is served from the cache, served
  stale with a revalidation in the background, or validated with the origin
  (\<open>internal/validationresponsehandler.go\<close>). What the origin answers may be stored
  (\<open>internal/responsestorerer.go\<close>) or, after an unsafe method, invalidates what is stored
  (\<open>internal/cacheinvalidator.go\<close>). Entries and references are bytes under string keys in a backend
  (\<open>store/driver\<close>): \<open>store/memcache\<close> or \<open>store/fscache\<close>, opened by DSN through the registry.

  \<^bold>\<open>The theories.\<close> Each definition has the name of the Go function it models; methods carry a
  prefix (\<open>Req_\<close>, \<open>Resp_\<close>, \<open>rc_\<close>, \<open>mem_\<close>, \<open>fs_\<close>, \<open>api_\<close>).
  \<^item> \<open>Prelude\<close>, \<open>GoStd\<close>, \<open>Float64\<close>: 64-bit integers and durations, association lists, the sorting of
    \<open>slices.SortFunc\<close> with the laws of a comparison as the locales \<open>go_cmp\<close> and \<open>go_total_cmp\<close>; the
    parts of Go's standard library the code uses, written out byte for byte (\<open>strings\<close>, \<open>strconv\<close>,
    FNV-1a, \<open>time.Duration\<close>, \<open>http.Header\<close>, \<open>URL.ResolveReference\<close>); IEEE double arithmetic.
  \<^item> \<open>HeaderSyntax\<close>, \<open>CCDirectives\<close>, \<open>Http\<close>: header lists and quoted strings, \<open>Cache-Control\<close>
    directives, requests and responses with the status headers, hop-by-hop removal, header merging,
    origins and conditional requests.
  \<^item> \<open>Freshness\<close>: age, lifetime, heuristics, staleness, \<open>canStoreResponse\<close>, \<open>stale-if-error\<close>.
  \<^item> \<open>Normalization\<close>, \<open>UrlKey\<close>: the normal forms of request headers, the keys of variants and URLs.
  \<^item> \<open>Conn\<close>: the driver interface, its contract as the locale \<open>driver_conn\<close> over the contents a
    backend state stands for, the acceptance tests, the in-memory backend (an interpretation).
  \<^item> \<open>FileNamer\<close>, \<open>FsCache\<close>, \<open>FsContract\<close>, \<open>LongKeys\<close>, \<open>FsConfig\<close>: the file-system backend over a
    model of the \<open>os.Root\<close> calls it makes, with encryption; which keys are in each other's way
    (\<open>clash\<close>); an interpretation of \<open>driver_conn\<close> and of its extension \<open>key_lister\<close> on every set of
    keys without such a pair; what happens to the others; the options of the backend.
  \<^item> \<open>ResponseCache\<close>, \<open>VaryMatcher\<close>, \<open>Storer\<close>, \<open>Invalidator\<close>, \<open>Validation\<close>, \<open>Transport\<close>: the stages of
    a round trip, with every backend state, clock reading, request sent and background job in one
    record \<open>world\<close> that each operation passes on; \<open>transport_step\<close> and \<open>reachable\<close> are a transport that
    serves one request after the other.
  \<^item> \<open>TransportLaws\<close>, \<open>Reuse\<close>, \<open>Lifecycle\<close>: what a round trip does over any backend that satisfies
    \<open>driver_conn\<close>, proved once inside the locale.
  \<^item> \<open>Ownership\<close>, \<open>Concurrent\<close>: the invariant of the response IDs; round trips in flight (\<open>flight\<close>), cut
    where they read the backend, ask the origin and update the backend, the proof that the pieces
    are the handlers of \<open>Transport\<close>, and the server in which any number of them and of background
    jobs interleave (\<open>server_step\<close>, \<open>serves\<close>), with the invariant by rule induction.
  \<^item> \<open>Calls\<close>: what a handler does to the backend as a value (\<open>calls\<close>), one call after the other, which
    run without a break is the handler; the server whose steps are single calls (\<open>call_step\<close>,
    \<open>call_serves\<close>), that every run of the coarser server is one of its runs, and the invariant in it.
  \<^item> \<open>Refinement\<close>: every operation of the transport commutes with the map from a backend to its
    contents, so a transport over any backend refines one over the in-memory backend.
  \<^item> \<open>Drain\<close>: a weight for every round trip in flight and every job that each step of \<open>server_step\<close>
    other than an arrival lowers, hence the end of every schedule.
  \<^item> \<open>MemLocks\<close>: the in-memory backend under its \<open>sync.RWMutex\<close>: its operations as instructions that any
    number of goroutines run in turns (\<open>mem_step\<close>), where taking the lock blocks; who holds it as an
    invariant, hence no deadlock, no data race, and answers in an order in which the operations of
    \<open>Conn\<close> give them.
  \<^item> \<open>FsOverlap\<close>: operations of the file-system backend that overlap. Names and files (inodes) are kept
    apart; \<open>get\<close>, \<open>set\<close> and \<open>delete\<close> are cut at their calls of \<open>os.Root\<close> (\<open>file_step\<close>), run without a
    break they are the ones of \<open>FsCache\<close>, and in every interleaving (\<open>overlaps\<close>) each stays in the files
    of its key; a schedule in which two of them mix their values.
  \<^item> \<open>References\<close>: no reference without its entry in the states of \<open>reachable\<close>.
  \<^item> \<open>Logging\<close>, \<open>TransportLog\<close>: the logger with its records and their schema, trace identifiers
    (\<open>context.go\<close>); the handlers of \<open>Transport\<close> again with the records they write (\<open>logged_\<close>), and the
    lemmas that without the records they are the handlers of \<open>Transport\<close> (\<open>erase_\<close>).
  \<^item> \<open>Registry\<close>, \<open>Client\<close>, \<open>ServeMux\<close>, \<open>ExpApi\<close>: drivers by scheme, \<open>NewTransport\<close> and \<open>NewClient\<close>; the part
    of \<open>http.ServeMux\<close> that the debugging API needs, its handlers and their registration.
  \<^item> \<open>Example\<close>, \<open>Races\<close>, \<open>LateStore\<close>, \<open>Rules\<close>: a concrete world for the witnesses; how variants of a URL
    get lost or mixed up and how an invalidation is undone by what overlaps with it; properties of
    single components that are instantiated in the example. Properties of the whole round trip are
    in this theory, those of one component at the end of its theory.

  \<^bold>\<open>Parameters.\<close> Code outside the repository is an argument: the date parsers, \<open>url.Parse\<close>,
  \<open>strconv.ParseFloat\<close> and the Unicode case mappings (record \<open>golib\<close>), dumping and reading of
  responses and JSON (record \<open>codec\<close>, with \<open>storable\<close> and \<open>codec_entry\<close> as the law that what was
  written is read back), AES-GCM (record \<open>aead\<close>), the environment of \<open>fscache\<close> (record \<open>fslib\<close>), the
  origin (the answer to the \<open>n\<close>-th request sent) and the clock (the \<open>n\<close>-th reading).

  \<^bold>\<open>Bounds.\<close> Durations are 64-bit nanoseconds and wrap; the equations with RFC 9111 hold where
  \<open>sane_entry\<close> bounds every difference of times by \<open>2 ^ 60\<close> nanoseconds (36 years). Loops are
  structural recursions or terminate by length; there is no fuel. \<open>slices.SortFunc\<close> is modelled by the
  insertion sort it is on up to twelve elements; the properties use only that the result is sorted
  and has the same elements.

  \<^bold>\<open>Not modelled.\<close> Test doubles and assertions (\<open>internal/mocks.go\<close>, \<open>internal/testutil\<close>), which only
  tests use, benchmarks, which are timing loops, and the example programs; the time and the program
  counter of a log record, which the clock and the runtime supply; the interface and adapter types
  through which the parts are handed to each other (\<open>VaryKeyerFunc\<close> and the like), since the model
  calls the functions themselves; reading a body while it streams (a body is its bytes, except that
  a background job finds what the caller has left of it); a length of a response beside its
  \<open>Content-Length\<close> field, so whether \<open>net/http\<close> dumps a response is up to the codec. A call of the
  backend is one step of the server, which \<open>MemLocks\<close> shows to be right for \<open>memcache\<close>; \<open>FsOverlap\<close>
  has the overlapping operations of the file-system backend by themselves, with \<open>MkdirAll\<close>, \<open>ReadAll\<close>
  and \<open>Write\<close> with \<open>Sync\<close> as one call each. Data races on the response a background job shares with
  the caller are outside the model. Slices are values, so a record logged after a store shows the
  reference from before it, where in Go the element may have been overwritten in place.
  References are values, so the nil pointers that the JSON document \<open>[null]\<close> would yield do
  not occur.
\<close>

section \<open>The round trip\<close>

text \<open>
  C1: Over any backend that keeps the driver contract: a round trip that returns a response without
  having sent a request was a GET the cache understands, and the response is either the 504 of an
  only-if-cached request or has the status code and body of a stored entry that Vary matching
  selects for this request and that freshness and the directives of both sides allow to be served,
  fresh or inside the stale-while-revalidate window.
\<close>

theorem reuse_only_when_allowed:
  assumes "driver_conn (e_conn env) contents invar good" and "invar (w_cache w)"
    and "Normalize (e_lib env) (req_URL req) = Some k"
    and "reads_good good (e_codec env) (contents (w_cache w)) k"
    and "RoundTrip env w req = (Responded r, w')" and "w_sent w' = w_sent w"
  shows "isRequestMethodUnderstood req \<and>
    (Req_OnlyIfCached (req_cc req) \<and> r = make504Response \<or>
     (\<exists>refs i e. selects (e_lib env) (e_codec env) (contents (w_cache w)) k req = Some (refs, i, e) \<and>
       (reusable env w req e \<or> reusable_stale env w req e) \<and>
       resp_StatusCode r = resp_StatusCode (ent_Data e) \<and> resp_Body r = resp_Body (ent_Data e)))"
  using driver_conn.RoundTrip_reuse [OF assms(1) refl assms(2-6)] .

theorem reuse_only_when_allowed_witness:
  "\<exists>r w'. RoundTrip (ex_env ''max-age=60'' (Inl ''down'')) (ex_stored ''max-age=60'') (ex_request ''GET'' []) = (Responded r, w') \<and>
     (Req_OnlyIfCached (req_cc (ex_request ''GET'' [])) \<and> r = make504Response \<or>
      (\<exists>e. (reusable (ex_env ''max-age=60'' (Inl ''down'')) (ex_stored ''max-age=60'') (ex_request ''GET'' []) e \<or>
         reusable_stale (ex_env ''max-age=60'' (Inl ''down'')) (ex_stored ''max-age=60'') (ex_request ''GET'' []) e) \<and>
       resp_Body r = resp_Body (ent_Data e)))"
proof -
  let ?env = "ex_env ''max-age=60'' (Inl ''down'')"
  obtain r w' where rt: "RoundTrip ?env (ex_stored ''max-age=60'') (ex_request ''GET'' []) = (Responded r, w')"
    "w_sent w' = w_sent (ex_stored ''max-age=60'')" using ex_hit by blast
  have "driver_conn (e_conn ?env) mem_store (\<lambda>_. True) (\<lambda>_. True)" by (simp add: mem.driver_conn_axioms)
  from reuse_only_when_allowed [OF this _ _ ex_reads_good rt, of "''http://h/a''"] rt show ?thesis
    by (auto simp: ex_key)
qed


text \<open>
  C2: What a round trip of a plain GET does, over any backend: where a stored entry is selected for
  the request, it is served as a HIT with its status code and body when it is reusable, as STALE
  with one background revalidation queued when it is inside the stale-while-revalidate window, and
  otherwise exactly one request is sent, the request with the conditional headers of the stored
  entry. Where none is selected, an only-if-cached request is answered with the 504 and any other is
  sent unchanged, once. What is served from the cache sends nothing and leaves the contents of the
  cache alone; where the origin is asked and fails, its error is returned with the contents of the
  cache unchanged.
\<close>

theorem round_trip_decision:
  assumes "driver_conn (e_conn env) contents invar good" and "invar (w_cache w)"
    and "Normalize (e_lib env) (req_URL req) = Some k" and "isRequestMethodUnderstood req"
    and "reads_good good (e_codec env) (contents (w_cache w)) k"
    and "RoundTrip env w req = (out, w')"
  shows "case selects (e_lib env) (e_codec env) (contents (w_cache w)) k req of
      Some (refs, i, e) \<Rightarrow>
        if reusable env w req e then
          contents (w_cache w') = contents (w_cache w) \<and> w_sent w' = w_sent w \<and> w_pending w' = w_pending w \<and>
          (\<exists>r. out = Responded r \<and> status_of r = ''HIT'' \<and> from_cache r = ''1'' \<and>
            resp_StatusCode r = resp_StatusCode (ent_Data e) \<and> resp_Body r = resp_Body (ent_Data e))
        else if reusable_stale env w req e then
          contents (w_cache w') = contents (w_cache w) \<and> w_sent w' = w_sent w \<and>
          length (w_pending w') = Suc (length (w_pending w)) \<and>
          out = Responded (apply_status CacheStatusStale (ent_Data e))
        else asked env contents w (withConditionalHeaders req (resp_Header (ent_Data e))) out w'
    | None \<Rightarrow>
        if Req_OnlyIfCached (req_cc req) then
          out = Responded make504Response \<and> contents (w_cache w') = contents (w_cache w) \<and>
          w_sent w' = w_sent w \<and> w_pending w' = w_pending w
        else asked env contents w req out w'"
proof (cases "selects (e_lib env) (e_codec env) (contents (w_cache w)) k req")
  case None
  then show ?thesis using driver_conn.RoundTrip_miss [OF assms(1) refl assms(2-5) None assms(6)]
      driver_conn.RoundTrip_decision [OF assms(1) refl assms(2-6)] by auto
next
  case (Some x)
  obtain refs i e where x: "x = (refs, i, e)" by (cases x)
  show ?thesis using driver_conn.RoundTrip_hit [OF assms(1) refl assms(2-5) Some [unfolded x] assms(6)]
      driver_conn.RoundTrip_decision [OF assms(1) refl assms(2-6)]
    unfolding Some x option.case prod.case by presburger
qed

theorem round_trip_decision_witness:
  "\<exists>r w'. RoundTrip (ex_env ''max-age=60'' (Inl ''down'')) (ex_stored ''max-age=60'') (ex_request ''GET'' [])
     = (Responded r, w') \<and> w_sent w' = [] \<and> status_of r = ''HIT'' \<and> resp_Body r = ''body''"
proof -
  let ?env = "ex_env ''max-age=60'' (Inl ''down'')"
  obtain out w' where rt: "RoundTrip ?env (ex_stored ''max-age=60'') (ex_request ''GET'' []) = (out, w')"
    by fastforce
  have sel: "selects (e_lib ?env) (e_codec ?env) (mem_store (w_cache (ex_stored ''max-age=60''))) ''http://h/a''
      (ex_request ''GET'' []) = Some ([ex_ref ex_id], 0, ex_entry ''max-age=60'')" by (simp add: ex_selects)
  have k: "Normalize (e_lib ?env) (req_URL (ex_request ''GET'' [])) = Some ''http://h/a''" by (simp add: ex_key)
  from round_trip_decision [OF ex_conn TrueI k ex_understood ex_reads_good rt] rt ex_reusable sel show ?thesis
    by (auto simp: ex_entry_def ex_response_def) (simp add: ex_stored_def)
qed

text \<open>
  C3: What a cache miss stores, a later GET with the same URL key and the same nominated header
  values is served: where the first request is a plain GET without only-if-cached, no reference is
  stored for the URL before, the answer of the origin may be stored and has no Vary: *, and the
  entry and its reference survive the codec of net/http and JSON, the first round trip is a MISS and
  the second a HIT with the status code and body of the first answer, without a request to the
  origin, as long as the cache is not touched in between and the entry is reusable then. Over any
  backend that keeps the driver contract on the keys involved.
\<close>

theorem stored_then_served:
  assumes "driver_conn (e_conn env) contents invar good" and "invar (w_cache w)"
    and "Normalize (e_lib env) (req_URL req) = Some k" and "isRequestMethodUnderstood req"
    and "stored_refs (e_codec env) (contents (w_cache w)) k = []"
    and "\<not> Req_OnlyIfCached (req_cc req)" and "e_upstream env (length (w_sent w)) req = Inr resp"
    and "canStoreResponse (dated_response env w resp) (req_cc req) (resp_cc (dated_response env w resp))"
    and "storable (e_codec env) req2 (fetched_entry env w req k resp)"
    and "storable_refs (e_codec env) [fetched_ref env w req k resp]"
    and "good k" and "good (ent_ID (fetched_entry env w req k resp))"
    and "RoundTrip env w req = (out, w')"
    and "response_vary (dated_response env w resp) \<noteq> ''*''"
    and "\<forall>h \<in> set (TrimmedCSVCanonical (response_vary (dated_response env w resp))).
         nominated_value (e_lib env) (req_Header req2) h = nominated_value (e_lib env) (req_Header req) h"
    and "Normalize (e_lib env) (req_URL req2) = Some k" and "isRequestMethodUnderstood req2"
    and "w_cache w2 = w_cache w'" and "reusable env w2 req2 (fetched_entry env w req k resp)"
    and "RoundTrip env w2 req2 = (out2, w3)"
  shows "out = Responded (apply_status CacheStatusMiss (removeHopByHopHeaders (dated_response env w resp))) \<and>
    w_sent w3 = w_sent w2 \<and>
    (\<exists>r. out2 = Responded r \<and> status_of r = ''HIT'' \<and> resp_StatusCode r = resp_StatusCode resp \<and>
      resp_Body r = resp_Body resp)"
proof -
  note S = driver_conn.fetch_stores [OF assms(1) refl assms(2-13)]
  note L = driver_conn.fetch_then_select [OF assms(1) refl assms(2-15)]
  have "ent_Data (fetched_entry env w req k resp) = removeHopByHopHeaders (dated_response env w resp)"
    by (simp add: fetched_entry_def new_entry_def)
  moreover have "resp_StatusCode (dated_response env w resp) = resp_StatusCode resp"
    "resp_Body (dated_response env w resp) = resp_Body resp" by (simp_all add: dated_response_def)
  ultimately show ?thesis
    using S(4) driver_conn.RoundTrip_hit(1) [OF assms(1) refl _ assms(16,17) _ _ assms(20,19)] L assms(18)
    by auto
qed


theorem stored_then_served_witness:
  "\<exists>w' r w3. RoundTrip (ex_env ''max-age=60'' (Inr (ex_response ''max-age=60''))) ex_empty (ex_request ''GET'' [])
      = (Responded (apply_status CacheStatusMiss (ex_response ''max-age=60'')), w') \<and>
    RoundTrip (ex_env ''max-age=60'' (Inr (ex_response ''max-age=60''))) w' (ex_request ''GET'' []) = (Responded r, w3) \<and>
    w_sent w3 = w_sent w' \<and> status_of r = ''HIT'' \<and> resp_Body r = ''body''"
proof -
  let ?cc = "''max-age=60''"
  let ?env = "ex_env ?cc (Inr (ex_response ?cc))" and ?req = "ex_request ''GET'' []"
  obtain out w' where rt: "RoundTrip ?env ex_empty ?req = (out, w')" by fastforce
  obtain out2 w3 where rt2: "RoundTrip ?env w' ?req = (out2, w3)" by fastforce
  have h: "\<not> Req_OnlyIfCached (req_cc ?req)" by (simp add: Req_OnlyIfCached_def hasToken_def)
  have up: "e_upstream ?env (length (w_sent ex_empty)) ?req = Inr (ex_response ?cc)" by simp
  have S: "w_tick w' = 2"
    using mem.fetch_stores(6) [OF _ _ _ ex_understood _ h up _ _ _ _ _ rt, of "''http://h/a''"]
      ex_cacheable ex_storable [of ?cc ?req]
    by (simp add: ex_key ex_empty_refs ex_dated ex_fetched ex_storable_refs) (simp add: ex_empty_def start_world_def)
  have r: "reusable ?env w' ?req (fetched_entry ?env ex_empty ?req ''http://h/a'' (ex_response ?cc))"
    using ex_reusable S reusable_cong [of w' "ex_stored ?cc"] by (simp add: ex_fetched) (simp add: ex_stored_def)
  from stored_then_served [OF ex_conn _ _ ex_understood _ h up _ _ _ _ _ rt _ _ _ ex_understood refl r rt2]
    ex_cacheable ex_storable [of ?cc ?req] rt rt2
  show ?thesis
    by (auto simp: ex_key ex_empty_refs ex_dated ex_fetched ex_storable_refs ex_vary ex_remove TrimmedCSVCanonical_def
        TrimmedCSV_def)
qed


text \<open>
  C4: After an unsafe request with a non-error answer, the references and every response of the
  request URL and of the same-origin Location and Content-Location URLs are gone from the cache, so
  no later request selects them; the answer is passed through as BYPASS and no key outside those is
  touched.
\<close>

theorem unsafe_request_invalidates:
  assumes "driver_conn (e_conn env) contents invar good" and "invar (w_cache w)"
    and "Normalize (e_lib env) (req_URL req) = Some k" and "IsUnsafeMethod (req_Method req)"
    and "e_upstream env (length (w_sent w)) req = Inr resp" and "IsNonErrorStatus (resp_StatusCode resp)"
    and "good k"
    and "\<forall>j \<in> invalidation_keys (e_lib env) (e_codec env) (contents (w_cache w)) (req_URL req) (resp_Header resp)
         (stored_refs (e_codec env) (contents (w_cache w)) k) k. good j"
    and "ids_hashed (e_codec env) (contents (w_cache w))" and "CHR ''#'' \<notin> set k"
    and "\<forall>hdr \<in> set locationHeaders. \<forall>k. location_key (e_lib env) (req_URL req) (resp_Header resp) hdr = Some k \<longrightarrow>
         CHR ''#'' \<notin> set k"
    and "RoundTrip env w req = (Responded r, w')"
    and "target = k \<or> (\<exists>hdr \<in> set locationHeaders. location_key (e_lib env) (req_URL req) (resp_Header resp) hdr = Some target)"
  shows "r = apply_status CacheStatusBypass resp \<and> w_sent w' = w_sent w @ [req] \<and>
    contents (w_cache w') target = None \<and>
    (\<forall>i \<in> set (ResponseIDs (stored_refs (e_codec env) (contents (w_cache w)) target)). contents (w_cache w') i = None) \<and>
    selects (e_lib env) (e_codec env) (contents (w_cache w')) target req2 = None \<and>
    (\<forall>j. j \<notin> invalidation_keys (e_lib env) (e_codec env) (contents (w_cache w)) (req_URL req) (resp_Header resp)
         (stored_refs (e_codec env) (contents (w_cache w)) k) k \<longrightarrow>
       contents (w_cache w') j = contents (w_cache w) j)"
proof -
  note I = driver_conn.unsafe_invalidates [OF assms(1) refl assms(2-12)]
  have gone: "contents (w_cache w') target = None"
    "\<forall>i \<in> set (ResponseIDs (stored_refs (e_codec env) (contents (w_cache w)) target)). contents (w_cache w') i = None"
    using assms(13) I(2-5) by auto
  then have "stored_refs (e_codec env) (contents (w_cache w')) target = []" by (simp add: stored_refs_def)
  with gone I(6-8) show ?thesis by (auto simp: selects_def)
qed

theorem unsafe_request_invalidates_witness:
  "\<exists>r w'. RoundTrip (ex_env ''max-age=60'' (Inr (ex_response []))) (ex_stored ''max-age=60'') (ex_request ''POST'' [])
     = (Responded r, w') \<and> mem_store (w_cache w') ''http://h/a'' = None \<and> mem_store (w_cache w') ex_id = None"
proof -
  let ?cc = "''max-age=60''"
  let ?env = "ex_env ?cc (Inr (ex_response []))" and ?req = "ex_request ''POST'' []" and ?m = "mem_store (w_cache (ex_stored ?cc))"
  have noloc: "location_key ex_lib u (resp_Header (ex_response [])) hdr = None" if "hdr \<in> set locationHeaders" for hdr u
    using that by (auto simp: locationHeaders_def location_key_def ex_response_def ex_header_def Header_Get_def
        Header_Values_def header_values_def)
  have hashed: "ids_hashed (ex_codec ?cc) ?m"
    by (auto simp: ids_hashed_def stored_refs_def ResponseIDs_def ex_stored_def ex_codec_def ex_ref_def ex_id_def)
  have post: "IsUnsafeMethod ''POST''" "IsNonErrorStatus (resp_StatusCode (ex_response []))"
    "\<not> isRequestMethodUnderstood ?req"
    by (simp_all add: IsUnsafeMethod_def IsNonErrorStatus_def ex_response_def isRequestMethodUnderstood_def)
  obtain out w' where rt: "RoundTrip ?env (ex_stored ?cc) ?req = (out, w')" by fastforce
  then obtain r where "out = Responded r"
    using RoundTrip_no_panic [OF rt] handleUnrecognizedMethod_world(4) [of ?env "ex_stored ?cc" ?req "''http://h/a''"]
    by (auto simp: RoundTrip_def ex_key post(3)) (simp add: ex_url_def)
  with rt have rt: "RoundTrip ?env (ex_stored ?cc) ?req = (Responded r, w')" by simp
  have nohash: "CHR ''#'' \<notin> set ''http://h/a''" by simp
  from unsafe_request_invalidates [OF ex_conn TrueI _ _ _ post(2) TrueI _ _ nohash _ rt, of "''http://h/a''"]
    hashed noloc post(1) rt
  show ?thesis by (auto simp: ex_key ex_stored_refs ResponseIDs_def ex_ref_def)
qed

text \<open>
  The invariant of the response IDs in the server whose steps are whole handlers; \<open>Calls\<close> has it for
  the server whose steps are single calls of the backend.
\<close>

theorem response_ids_belong_to_one_url:
  assumes "driver_conn (e_conn env) contents invar (\<lambda>_. True)" and "ids_survive txt (e_codec env)"
    and "invar s" and "contents s = Map.empty"
    and "\<forall>req. ok req \<longrightarrow> request_ok txt (e_lib env) req"
    and "serves env ok (start_world s) (w, flights)"
    and "CHR ''#'' \<notin> set k" and "i \<in> set (ResponseIDs (stored_refs (e_codec env) (contents (w_cache w)) k))"
  shows "(\<exists>h. i = k @ CHR ''#'' # h \<and> CHR ''#'' \<notin> set h) \<and>
    (\<forall>k'. CHR ''#'' \<notin> set k' \<longrightarrow>
       i \<in> set (ResponseIDs (stored_refs (e_codec env) (contents (w_cache w)) k')) \<longrightarrow> k' = k) \<and>
    (\<forall>job \<in> set (w_pending w). req_Method (job_req job) = ''GET'')"
proof -
  have "world_ok contents invar txt (e_codec env) (start_world s)" using assms(3,4) by (rule empty_world_ok)
  then have "world_ok contents invar txt (e_codec env) w"
    using driver_conn.serves_ok [OF assms(1,6) _ refl assms(2,5)] by (simp add: server_ok_def)
  then show ?thesis using assms(7,8) by (rule world_ok_ids)
qed

theorem response_ids_belong_to_one_url_witness:
  "\<exists>w. serves (ex_env ''max-age=60'' (Inr (ex_response ''max-age=60''))) (\<lambda>req. req = ex_request ''GET'' []) ex_empty (w, []) \<and>
     (\<exists>h. ex_id = ''http://h/a'' @ CHR ''#'' # h) \<and> (\<forall>job \<in> set (w_pending w). req_Method (job_req job) = ''GET'')"
proof -
  let ?cc = "''max-age=60''"
  let ?env = "ex_env ?cc (Inr (ex_response ?cc))" and ?ok = "\<lambda>req. req = ex_request ''GET'' []"
  obtain out w' where rt: "RoundTrip ?env ex_empty (ex_request ''GET'' []) = (out, w')" by fastforce
  have r: "serves ?env ?ok ex_empty (w', [])"
    by (rule reachable_serves [OF reachable.step [OF reachable.start transport_step.request [OF refl rt]]])
  have surv: "ids_survive (\<lambda>i. newline \<notin> set i) (e_codec ?env)" by (simp add: ex_ids_survive)
  have ok: "\<forall>req. ?ok req \<longrightarrow> request_ok (\<lambda>i. newline \<notin> set i) (e_lib ?env) req" by (simp add: ex_request_ok)
  have mem: "ex_id \<in> set (ResponseIDs (stored_refs (e_codec ?env) (mem_store (w_cache w')) ''http://h/a''))"
    using ex_fetch [OF rt] by (simp add: ResponseIDs_def) (simp add: ex_ref_def)
  have nohash: "CHR ''#'' \<notin> set ''http://h/a''" by simp
  from response_ids_belong_to_one_url [OF ex_conn surv TrueI _ ok r [unfolded ex_empty_def] nohash mem] r show ?thesis
    by (auto simp: memcache_Open_def)
qed

text \<open>
  C13: A request that is not a plain GET is forwarded once and unchanged; an error of the origin is
  returned with the cache untouched, an answer is passed through as BYPASS, and the cache is left as
  it was unless the method is unsafe and the answer is not an error. The invalidation that an unsafe
  answer starts may panic instead of returning, on a location without a scheme.
\<close>

theorem unrecognized_requests_bypass:
  assumes "Normalize (e_lib env) (req_URL req) = Some k" and "\<not> isRequestMethodUnderstood req"
    and "RoundTrip env w req = (out, w')"
  shows "w_sent w' = w_sent w @ [req] \<and> w_pending w' = w_pending w \<and>
    (case e_upstream env (length (w_sent w)) req of
       Inl err \<Rightarrow> out = Failed err \<and> w_cache w' = w_cache w
     | Inr resp \<Rightarrow>
         (out = Panicked \<or> out = Responded (apply_status CacheStatusBypass resp)) \<and>
         (\<not> IsUnsafeMethod (req_Method req) \<or> \<not> IsNonErrorStatus (resp_StatusCode resp) \<longrightarrow>
            out = Responded (apply_status CacheStatusBypass resp) \<and> w_cache w' = w_cache w))"
proof -
  have h: "handleUnrecognizedMethod env w req k = (out, w')" using assms by (simp add: RoundTrip_def)
  note W = handleUnrecognizedMethod_world [OF h]
  have "case e_upstream env (length (w_sent w)) req of
       Inl err \<Rightarrow> True
     | Inr resp \<Rightarrow> \<not> IsUnsafeMethod (req_Method req) \<or> \<not> IsNonErrorStatus (resp_StatusCode resp) \<longrightarrow>
            out = Responded (apply_status CacheStatusBypass resp) \<and> w_cache w' = w_cache w"
    using h by (auto simp: handleUnrecognizedMethod_def upstream_RoundTrip_def Let_def split: sum.splits if_splits)
  with W show ?thesis by (auto split: sum.splits)
qed

theorem unrecognized_requests_bypass_witness:
  "\<exists>w'. RoundTrip (ex_env [] (Inr (ex_response []))) ex_empty (ex_request ''HEAD'' [])
     = (Responded (apply_status CacheStatusBypass (ex_response [])), w') \<and> w_sent w' = [ex_request ''HEAD'' []]"
proof -
  have n: "\<not> isRequestMethodUnderstood (ex_request ''HEAD'' [])" "\<not> IsUnsafeMethod ''HEAD''"
    by (simp_all add: IsUnsafeMethod_def isRequestMethodUnderstood_def)
  obtain out w' where rt: "RoundTrip (ex_env [] (Inr (ex_response []))) ex_empty (ex_request ''HEAD'' []) = (out, w')"
    by fastforce
  from unrecognized_requests_bypass [OF _ n(1) rt, of "''http://h/a''"] rt n(2) show ?thesis
    by (auto simp: ex_key) (simp add: ex_empty_def start_world_def)
qed


text \<open>
  C11: On a miss, an answer to a no-store request or with a no-store response directive is passed on
  as a MISS and leaves the contents of the cache unchanged.
\<close>

theorem no_store_is_not_stored:
  assumes "driver_conn (e_conn env) contents invar good" and "invar (w_cache w)"
    and "Normalize (e_lib env) (req_URL req) = Some k" and "isRequestMethodUnderstood req"
    and "reads_good good (e_codec env) (contents (w_cache w)) k"
    and "selects (e_lib env) (e_codec env) (contents (w_cache w)) k req = None"
    and "\<not> Req_OnlyIfCached (req_cc req)" and "e_upstream env (length (w_sent w)) req = Inr resp"
    and "Req_NoStore (req_cc req) \<or> Resp_NoStore (resp_cc (dated_response env w resp))"
    and "RoundTrip env w req = (out, w')"
  shows "contents (w_cache w') = contents (w_cache w) \<and>
    out = Responded (apply_status CacheStatusMiss (dated_response env w resp))"
proof -
  let ?m = "contents (w_cache w)"
  obtain w1 where w1: "contents (w_cache w1) = ?m" "w_sent w1 = w_sent w" "w_tick w1 = w_tick w"
    and "\<exists>refs i. RoundTrip env w req = handleCacheMiss env w1 req k refs i \<and>
      set refs \<subseteq> set (stored_refs (e_codec env) ?m k)"
    by (rule driver_conn.RoundTrip_selects [OF assms(1) refl assms(2-5), unfolded assms(6) option.case])
  then obtain refs i where "RoundTrip env w req = handleCacheMiss env w1 req k refs i" by blast
  then have m: "handleCacheMiss env w1 req k refs i = (out, w')" using assms(10) by (simp only:)
  have d: "dated_response env w1 resp = dated_response env w resp" by (simp add: dated_response_def w1)
  have "\<not> canStoreResponse (dated_response env w resp) (req_cc req) (resp_cc (dated_response env w resp))"
    using assms(9) by (auto simp: canStoreResponse_def)
  moreover have "e_upstream env (length (w_sent w1)) req = Inr resp" using assms(8) w1(2) by simp
  ultimately show ?thesis using m handleCacheMiss_fetch [OF assms(7), of env w1 resp k refs i] w1
    by (auto simp: d Let_def)
qed

lemma ex_no_store: "Resp_NoStore (resp_cc (ex_response ''no-store''))"
  by code_simp

theorem no_store_is_not_stored_witness:
  "\<exists>w'. RoundTrip (ex_env ''no-store'' (Inr (ex_response ''no-store''))) ex_empty (ex_request ''GET'' [])
     = (Responded (apply_status CacheStatusMiss (ex_response ''no-store'')), w') \<and> mem_store (w_cache w') = Map.empty"
proof -
  let ?env = "ex_env ''no-store'' (Inr (ex_response ''no-store''))" and ?req = "ex_request ''GET'' []"
  obtain out w' where rt: "RoundTrip ?env ex_empty ?req = (out, w')" by fastforce
  have none: "selects (e_lib ?env) (e_codec ?env) (mem_store (w_cache ex_empty)) ''http://h/a'' ?req = None"
    by (simp add: selects_def ex_empty_refs)
  from no_store_is_not_stored [OF ex_conn TrueI _ ex_understood ex_reads_good none _ _ _ rt] rt ex_no_store
  show ?thesis
    by (simp add: ex_key ex_dated Req_OnlyIfCached_def hasToken_def)
      (simp add: ex_empty_def start_world_def memcache_Open_def)
qed


text \<open>
  C7: A selected stored response with must-revalidate whose RFC 9111 age has reached its freshness
  lifetime is not used without asking, as long as the Age header of the stored response and every
  difference of the times involved stay below 2^60 nanoseconds (36 years) (beyond that the
  arithmetic wraps, and a response with Age: 9223372037 looks fresh): when the request has no
  max-stale, the conditional request is sent. This holds for only-if-cached requests too, which the
  origin must then answer.
\<close>

theorem stale_must_revalidate_asks_origin:
  assumes "driver_conn (e_conn env) contents invar good" and "invar (w_cache w)"
    and "Normalize (e_lib env) (req_URL req) = Some k" and "isRequestMethodUnderstood req"
    and "reads_good good (e_codec env) (contents (w_cache w)) k"
    and "selects (e_lib env) (e_codec env) (contents (w_cache w)) k req = Some (refs, i, e)"
    and "RoundTrip env w req = (out, w')"
    and "Resp_MustRevalidate (resp_cc (ent_Data e))" and "max_stale (req_cc req) = 0"
    and "sane_entry (e_lib env) (e_clk env (w_tick w)) e"
    and "entry_lifetime (e_lib env) e (req_cc req) (resp_cc (ent_Data e))
      \<le> entry_rfc_age (e_lib env) (e_clk env (w_tick w)) e"
  shows "w_sent w' = w_sent w @ [withConditionalHeaders req (resp_Header (ent_Data e))]"
proof -
  have stale: "fr_IsStale (found_freshness env w req e)"
    unfolding found_freshness_def using assms(9-11) by (intro stale_rfc)
  have "\<not> reusable env w req e" "\<not> reusable_stale env w req e"
    using stale assms(8) by (simp_all add: reusable_def may_serve_def reusable_stale_def may_serve_stale_def)
  then show ?thesis using driver_conn.RoundTrip_hit(3) [OF assms(1) refl assms(2-7)] by simp
qed

theorem stale_must_revalidate_asks_origin_witness:
  "\<exists>out w'. RoundTrip (ex_env ''max-age=1, must-revalidate'' (Inl ''down'')) (ex_stored ''max-age=1, must-revalidate'')
     (ex_request ''GET'' []) = (out, w') \<and> length (w_sent w') = 1"
proof -
  let ?cc = "''max-age=1, must-revalidate''"
  let ?env = "ex_env ?cc (Inl ''down'')" and ?req = "ex_request ''GET'' []"
  obtain out w' where rt: "RoundTrip ?env (ex_stored ?cc) ?req = (out, w')" by fastforce
  have sel: "selects (e_lib ?env) (e_codec ?env) (mem_store (w_cache (ex_stored ?cc))) ''http://h/a'' ?req
    = Some ([ex_ref ex_id], 0, ex_entry ?cc)" by (simp add: ex_selects)
  have ms: "max_stale (req_cc ?req) = 0" by (simp add: max_stale_def Req_MaxStale_def)
  from stale_must_revalidate_asks_origin [OF ex_conn TrueI _ ex_understood ex_reads_good sel rt _ ms]
    ex_must_revalidate ex_lifetime [OF ex_must_revalidate(2)]
  show ?thesis using rt
    by (simp add: ex_key ex_tick ex_age [simplified]) (simp add: ex_stored_def)
qed

text \<open>
  C8: A selected stored response whose RFC 9111 age is below its freshness lifetime is served as a
  HIT with its status code and body, without a request and without a change of the cache, as long as
  the Age header of the stored response and every difference of the times involved stay below 2^60
  nanoseconds (36 years), unless the response has an unqualified no-cache or the request has
  no-cache, max-age=0 or min-fresh.
\<close>

theorem fresh_response_served:
  assumes "driver_conn (e_conn env) contents invar good" and "invar (w_cache w)"
    and "Normalize (e_lib env) (req_URL req) = Some k" and "isRequestMethodUnderstood req"
    and "reads_good good (e_codec env) (contents (w_cache w)) k"
    and "selects (e_lib env) (e_codec env) (contents (w_cache w)) k req = Some (refs, i, e)"
    and "RoundTrip env w req = (out, w')"
    and "\<not> unqualified_no_cache (resp_cc (ent_Data e))"
    and "\<not> Req_NoCache (req_cc req)" and "Req_MaxAge (req_cc req) \<noteq> Some 0" and "Req_MinFresh (req_cc req) = None"
    and "sane_entry (e_lib env) (e_clk env (w_tick w)) e"
    and "entry_rfc_age (e_lib env) (e_clk env (w_tick w)) e
      < entry_lifetime (e_lib env) e (req_cc req) (resp_cc (ent_Data e))"
  shows "w_sent w' = w_sent w \<and> contents (w_cache w') = contents (w_cache w) \<and>
    (\<exists>r. out = Responded r \<and> status_of r = ''HIT'' \<and> from_cache r = ''1'' \<and>
      resp_StatusCode r = resp_StatusCode (ent_Data e) \<and> resp_Body r = resp_Body (ent_Data e))"
proof -
  have "\<not> fr_IsStale (found_freshness env w req e)"
    unfolding found_freshness_def using assms(10-13) by (intro fresh_rfc)
  then have "reusable env w req e" using assms(8,9) by (simp add: reusable_def may_serve_def)
  then show ?thesis using driver_conn.RoundTrip_hit(1) [OF assms(1) refl assms(2-7)] by simp
qed

theorem fresh_response_served_witness:
  "\<exists>r w'. RoundTrip (ex_env ''max-age=60'' (Inl ''down'')) (ex_stored ''max-age=60'') (ex_request ''GET'' [])
     = (Responded r, w') \<and> w_sent w' = [] \<and> status_of r = ''HIT''"
proof -
  let ?cc = "''max-age=60''"
  let ?env = "ex_env ?cc (Inl ''down'')" and ?req = "ex_request ''GET'' []"
  obtain out w' where rt: "RoundTrip ?env (ex_stored ?cc) ?req = (out, w')" by fastforce
  have sel: "selects (e_lib ?env) (e_codec ?env) (mem_store (w_cache (ex_stored ?cc))) ''http://h/a'' ?req
    = Some ([ex_ref ex_id], 0, ex_entry ?cc)" by (simp add: ex_selects)
  have rq: "\<not> Req_NoCache (req_cc ?req)" "Req_MaxAge (req_cc ?req) \<noteq> Some 0" "Req_MinFresh (req_cc ?req) = None"
    by (simp_all add: request_accessors hasToken_def getDurationDirective_def)
  from fresh_response_served [OF ex_conn TrueI _ ex_understood ex_reads_good sel rt _ rq]
    ex_max_age ex_lifetime [OF ex_max_age(1)]
  show ?thesis using rt
    by (auto simp: ex_key ex_tick ex_age [simplified]) (simp add: ex_stored_def)
qed

text \<open>
  C9: On a 304 to a conditional GET the client gets the stored status code and body as REVALIDATED,
  and the cache afterwards holds the stored body with the headers of the 304 merged in: every header
  of the 304 except the hop-by-hop ones and Content-Length has its new value. Nothing is asked of
  cacheability: the merged response is stored whatever its directives say.
\<close>

theorem not_modified_freshens:
  assumes "driver_conn (e_conn env) contents invar good" and "invar (w_cache w)"
    and "req_Method req = ''GET''" and "resp_StatusCode resp = 304" and "distinct (map fst (resp_Header resp))"
    and "merged = mergeResponseHeaders (ent_Data (rv_Stored ctx)) (resp_Header resp)"
    and "e = new_entry (e_lib env) req merged (rv_URLKey ctx) (rv_Start ctx) (rv_End ctx)"
    and "refs = place_ref (rv_Refs ctx) (rv_RefIndex ctx)
       (new_ref (e_lib env) req merged (rv_URLKey ctx) (rv_Start ctx) (rv_End ctx))"
    and "good (rv_URLKey ctx)" and "good (ent_ID e)"
    and "storable (e_codec env) req e" and "storable_refs (e_codec env) refs"
    and "HandleValidationResponse env ctx req resp w = (out, w')"
  shows "stored_entry (e_codec env) (contents (w_cache w')) (ent_ID e) req = Some e \<and>
    stored_refs (e_codec env) (contents (w_cache w')) (rv_URLKey ctx) = refs \<and>
    w_sent w' = w_sent w \<and>
    (\<exists>r. out = Responded r \<and> status_of r = ''REVALIDATED'' \<and>
      resp_StatusCode r = resp_StatusCode (ent_Data (rv_Stored ctx)) \<and>
      resp_Body r = resp_Body (ent_Data (rv_Stored ctx))) \<and>
    (\<forall>h v. map_of (resp_Header resp) h = Some v \<longrightarrow> h \<notin> set (hopByHopHeaders (resp_Header resp)) \<longrightarrow>
       h \<noteq> ''Content-Length'' \<longrightarrow> h \<notin> set (hopByHopHeaders (resp_Header merged)) \<longrightarrow>
       map_of (resp_Header (ent_Data e)) h = Some v)"
proof -
  let ?S = "StoreResponse (e_lib env) (e_codec env) (e_conn env) (w_cache w) req merged (rv_URLKey ctx) (rv_Refs ctx)
    (rv_Start ctx) (rv_End ctx) (rv_RefIndex ctx)"
  have h: "out = Responded (apply_status CacheStatusRevalidated (removeHopByHopHeaders merged))"
    "w' = w\<lparr>w_cache := snd (snd ?S)\<rparr>"
    using assms(13) by (simp_all add: HandleValidationResponse_def assms(3,4,6) store_response_def case_prod_beta Let_def)
  note st = driver_conn.StoreResponse_stored [OF assms(1,2,9,10,7,11,8,12)]
  have "map_of (resp_Header (ent_Data e)) h = Some v"
    if "map_of (resp_Header resp) h = Some v" "h \<notin> set (hopByHopHeaders (resp_Header resp))"
      "h \<noteq> ''Content-Length''" "h \<notin> set (hopByHopHeaders (resp_Header merged))" for h v
    using that by (simp add: assms(7) new_entry_def map_of_removeHopByHop)
      (simp add: assms(6) map_of_mergeResponseHeaders [OF assms(5)])
  with st h show ?thesis by (simp add: assms(6))
qed

theorem not_modified_freshens_witness:
  "\<exists>r w'. HandleValidationResponse (ex_env ''max-age=60'' (Inl [])) (ex_context ''max-age=60'' ex_freshness) (ex_request ''GET'' [])
       \<lparr>resp_StatusCode = 304, resp_Header = ex_header ''max-age=60'', resp_Body = []\<rparr> ex_empty = (Responded r, w') \<and>
     status_of r = ''REVALIDATED'' \<and> resp_Body r = ''body'' \<and>
     stored_refs (ex_codec ''max-age=60'') (mem_store (w_cache w')) ''http://h/a'' = [ex_ref ex_id]"
proof -
  let ?cc = "''max-age=60''" and ?req = "ex_request ''GET'' []"
  let ?env = "ex_env ?cc (Inl [])" and ?ctx = "ex_context ?cc ex_freshness"
  let ?resp = "\<lparr>resp_StatusCode = 304, resp_Header = ex_header ?cc, resp_Body = []\<rparr>"
  obtain out w' where h: "HandleValidationResponse ?env ?ctx ?req ?resp ex_empty = (out, w')" by fastforce
  have m: "ex_response ?cc = mergeResponseHeaders (ent_Data (rv_Stored ?ctx)) (resp_Header ?resp)"
    by (simp add: ex_merge)
  have e: "ex_entry ?cc = new_entry (e_lib ?env) ?req (ex_response ?cc) (rv_URLKey ?ctx) (rv_Start ?ctx) (rv_End ?ctx)"
    by (simp add: ex_new_entry [simplified])
  have r: "[ex_ref ex_id] = place_ref (rv_Refs ?ctx) (rv_RefIndex ?ctx)
      (new_ref (e_lib ?env) ?req (ex_response ?cc) (rv_URLKey ?ctx) (rv_Start ?ctx) (rv_End ?ctx))"
    by (simp add: ex_new_ref [simplified] place_ref_def)
  from not_modified_freshens [OF ex_conn TrueI _ _ _ m e r TrueI TrueI _ _ h]
    ex_storable [of ?cc ?req] ex_storable_refs [of ?cc] h
  show ?thesis by auto
qed

text \<open>
  C10: When a validation is answered with a server error that carries stale-if-error, the stored
  response is returned as STALE with the cache untouched exactly when its age has not passed the
  freshness lifetime plus the allowance (in 64-bit duration arithmetic); otherwise the status code
  and body of the error answer are returned as MISS or BYPASS.
\<close>

theorem stale_if_error:
  assumes "req_Method req = ''GET''" and "isStaleErrorAllowed (resp_StatusCode resp)"
    and "Resp_StaleIfError (resp_cc resp) = Some d"
    and "HandleValidationResponse env ctx req resp w = (out, w')"
    and "f = rv_Freshness ctx"
    and "a = dur_add (age_Value (fr_Age f)) (clock_since (e_clk env) (w_tick w) (age_Timestamp (fr_Age f)))"
  shows "if a \<le> dur_add (fr_UsefulLife f) d
    then w_cache w' = w_cache w \<and> (\<exists>r. out = Responded r \<and> status_of r = ''STALE'' \<and>
      resp_StatusCode r = resp_StatusCode (ent_Data (rv_Stored ctx)) \<and>
      resp_Body r = resp_Body (ent_Data (rv_Stored ctx)))
    else \<exists>r. out = Responded r \<and> status_of r \<in> {''MISS'', ''BYPASS''} \<and>
      resp_StatusCode r = resp_StatusCode resp \<and> resp_Body r = resp_Body resp"
proof -
  have "resp_StatusCode resp \<noteq> 304" using assms(2) by (auto simp: isStaleErrorAllowed_def)
  moreover have "\<not> IsUnsafeMethod (req_Method req)" using assms(1) by (simp add: IsUnsafeMethod_def)
  ultimately show ?thesis using assms(4) unfolding assms(5,6)
    by (auto simp: HandleValidationResponse_def assms(1-3) Let_def case_prod_beta split: if_splits)
qed

theorem stale_if_error_witness:
  "\<exists>r w'. HandleValidationResponse (ex_env [] (Inl []))
       (ex_context [] \<lparr>fr_IsStale = True, fr_Age = \<lparr>age_Value = 70 * second, age_Timestamp = 100 * second\<rparr>,
          fr_UsefulLife = 60 * second\<rparr>) (ex_request ''GET'' [])
       \<lparr>resp_StatusCode = 503, resp_Header = ex_header ''stale-if-error=60'', resp_Body = []\<rparr> ex_empty = (Responded r, w') \<and>
     status_of r = ''STALE'' \<and> resp_Body r = ''body''"
proof -
  let ?env = "ex_env [] (Inl [])" and ?req = "ex_request ''GET'' []"
  let ?f = "\<lparr>fr_IsStale = True, fr_Age = \<lparr>age_Value = 70 * second, age_Timestamp = 100 * second\<rparr>, fr_UsefulLife = 60 * second\<rparr>"
  let ?resp = "\<lparr>resp_StatusCode = 503, resp_Header = ex_header ''stale-if-error=60'', resp_Body = []\<rparr>"
  obtain out w' where h: "HandleValidationResponse ?env (ex_context [] ?f) ?req ?resp ex_empty = (out, w')" by fastforce
  have d: "Resp_StaleIfError (resp_cc ?resp) = Some (60 * second)"
    using ex_stale_if_error by simp
  have a: "dur_add (70 * second) (clock_since (e_clk ?env) (w_tick ex_empty) (100 * second)) = 70 * second"
    "dur_add (60 * second) (60 * second) = 120 * second"
    by (simp_all add: ex_env_def ex_empty_def start_world_def clock_since_def time_sub_def dur_add_def wrap64_def sat64_def)
  from stale_if_error [OF _ _ d h refl refl] h show ?thesis
    by (auto simp: isStaleErrorAllowed_def a [simplified])
qed

text \<open>
  C16: A background revalidation that is answered with 304 replaces all references of the URL by the
  one it stores, whatever variants were there before. What it stores under its response ID has as
  its body what the caller has left unread of the body it shares with the job, where net/http dumps
  such a response; where it refuses to, as it does for a Content-Length that the rest of the body
  falls short of, no entry is written and what was under the response ID stays, but the references
  are replaced all the same.
\<close>

theorem background_revalidation_forgets_variants:
  assumes "driver_conn (e_conn env) contents invar good" and "invar (w_cache w)"
    and "req_Method (job_req job) = ''GET''" and "e_upstream env (length (w_sent w)) (job_req job) = Inr resp"
    and "resp_StatusCode resp = 304"
    and "merged = mergeResponseHeaders (ent_Data (rest_of_body consumed (job_stored job)))
       (resp_Header (dated_response env w resp))"
    and "e = new_entry (e_lib env) (job_req job) merged (job_urlKey job) (e_clk env (w_tick w)) (e_clk env (Suc (w_tick w)))"
    and "r = new_ref (e_lib env) (job_req job) merged (job_urlKey job) (e_clk env (w_tick w)) (e_clk env (Suc (w_tick w)))"
    and "good (job_urlKey job)" and "good (ent_ID e)"
    and "storable_refs (e_codec env) [r]"
    and "w' = backgroundRevalidate env w job False consumed"
  shows "stored_refs (e_codec env) (contents (w_cache w')) (job_urlKey job) = [r] \<and>
    contents (w_cache w') (ent_ID e) =
      (case MarshalBinary (e_codec env) e of None \<Rightarrow> contents (w_cache w) (ent_ID e) | Some d \<Rightarrow> Some d) \<and>
    (storable (e_codec env) req e \<longrightarrow>
      stored_entry (e_codec env) (contents (w_cache w')) (ent_ID e) req = Some e) \<and>
    resp_Body (ent_Data e) = drop consumed (resp_Body (ent_Data (job_stored job))) \<and>
    w_sent w' = w_sent w @ [job_req job]"
proof -
  let ?S = "StoreResponse (e_lib env) (e_codec env) (e_conn env) (w_cache w) (job_req job) merged (job_urlKey job) []
    (e_clk env (w_tick w)) (e_clk env (Suc (w_tick w))) 0"
  have w': "w' = w\<lparr>w_sent := w_sent w @ [job_req job], w_tick := Suc (Suc (w_tick w)), w_cache := snd (snd ?S)\<rparr>"
    unfolding assms(12) backgroundRevalidate_def roundTripTimed_eq
    using assms(3-5) by (simp add: HandleValidationResponse_def dated_response_def store_response_def
        case_prod_beta Let_def assms(6))
  obtain dr where dr: "cd_MarshalRefs (e_codec env) [r] = Some dr" "cd_UnmarshalRefs (e_codec env) dr = Some [r]"
    using assms(11) by (auto simp: storable_refs_def split: option.splits)
  have "cd_MarshalRefs (e_codec env) (place_ref [] 0 (new_ref (e_lib env) (job_req job) merged (job_urlKey job)
      (e_clk env (w_tick w)) (e_clk env (Suc (w_tick w))))) = Some dr"
    using dr(1) by (simp add: place_ref_def assms(8))
  note c = driver_conn.StoreResponse_contents_any [OF assms(1,2,9,10,7) this]
  have id: "ent_ID e \<noteq> job_urlKey job"
    using makeVaryKey_split [of "job_urlKey job" "response_variant (e_lib env) (job_req job) merged"]
    by (auto simp: assms(7) new_entry_def)
  have "contents (w_cache w') (ent_ID e) =
      (case MarshalBinary (e_codec env) e of None \<Rightarrow> contents (w_cache w) (ent_ID e) | Some d \<Rightarrow> Some d)"
    using c id by (simp add: w' split: option.split)
  moreover have "stored_refs (e_codec env) (contents (w_cache w')) (job_urlKey job) = [r]"
    using c dr by (simp add: w' stored_refs_def)
  moreover have "resp_Body (ent_Data e) = drop consumed (resp_Body (ent_Data (job_stored job)))"
    by (simp add: assms(6,7) new_entry_def rest_of_body_def)
  moreover have "w_sent w' = w_sent w @ [job_req job]" by (simp add: w')
  ultimately show ?thesis by (auto simp: storable_def stored_entry_def split: option.splits)
qed

text \<open>
  A codec that, as \<open>net/http\<close> does, refuses to dump a response whose body is not as long as its
  \<open>Content-Length\<close> says, and a job whose stored response has one and was read to the end.
\<close>

definition ex_measured :: "memCache env" where
  "ex_measured = (ex_env ''max-age=60'' (Inr \<lparr>resp_StatusCode = 304, resp_Header = ex_header ''max-age=60'', resp_Body = []\<rparr>))
     \<lparr>e_codec := (ex_codec ''max-age=60'')\<lparr>cd_DumpResponse := \<lambda>r.
        if Header_Get (resp_Header r) ''Content-Length'' \<in> {[], Itoa (int (length (resp_Body r)))}
        then Some (resp_Body r) else None\<rparr>\<rparr>"

definition ex_measured_job :: bg_job where
  "ex_measured_job =
     \<lparr>job_req = ex_request ''GET'' [],
      job_stored = (ex_entry ''max-age=60'')\<lparr>ent_Data := (ex_response ''max-age=60'')
        \<lparr>resp_Header := ex_header ''max-age=60'' @ [(''Content-Length'', [''4''])]\<rparr>\<rparr>,
      job_urlKey = ''http://h/a'', job_freshness = ex_freshness, job_ccReq = []\<rparr>"

definition ex_measured_merged :: http_response where
  "ex_measured_merged = mergeResponseHeaders (ent_Data (rest_of_body 4 (job_stored ex_measured_job)))
     (resp_Header (dated_response ex_measured ex_empty \<lparr>resp_StatusCode = 304, resp_Header = ex_header ''max-age=60'',
        resp_Body = []\<rparr>))"

lemma ex_measured_new:
  "new_ref (e_lib ex_measured) (job_req ex_measured_job) ex_measured_merged (job_urlKey ex_measured_job)
     (e_clk ex_measured (w_tick ex_empty)) (e_clk ex_measured (Suc (w_tick ex_empty))) = ex_ref ex_id"
  "ent_ID (new_entry (e_lib ex_measured) (job_req ex_measured_job) ex_measured_merged (job_urlKey ex_measured_job)
     (e_clk ex_measured (w_tick ex_empty)) (e_clk ex_measured (Suc (w_tick ex_empty)))) = ex_id"
  "MarshalBinary (e_codec ex_measured) (new_entry (e_lib ex_measured) (job_req ex_measured_job) ex_measured_merged
     (job_urlKey ex_measured_job) (e_clk ex_measured (w_tick ex_empty)) (e_clk ex_measured (Suc (w_tick ex_empty)))) = None"
  by code_simp+

theorem background_revalidation_forgets_variants_witness:
  "(\<exists>job w'. w' = backgroundRevalidate (ex_env ''max-age=60'' (Inr \<lparr>resp_StatusCode = 304,
        resp_Header = ex_header ''max-age=60'', resp_Body = []\<rparr>)) ex_empty job False 4 \<and>
     job_stored job = ex_entry ''max-age=60'' \<and>
     (\<exists>e. stored_entry (ex_codec ''max-age=60'') (mem_store (w_cache w')) ex_id (ex_request ''GET'' []) = Some e \<and>
       resp_Body (ent_Data e) = [])) \<and>
   (\<exists>w'. w' = backgroundRevalidate ex_measured ex_empty ex_measured_job False 4 \<and>
     stored_refs (e_codec ex_measured) (mem_store (w_cache w')) ''http://h/a'' = [ex_ref ex_id] \<and>
     mem_store (w_cache w') ex_id = None)"
proof (rule conjI)

  let ?cc = "''max-age=60''" and ?req = "ex_request ''GET'' []"
  let ?resp = "\<lparr>resp_StatusCode = 304, resp_Header = ex_header ?cc, resp_Body = []\<rparr>"
  let ?env = "ex_env ?cc (Inr ?resp)"
  define job where "job = \<lparr>job_req = ?req, job_stored = ex_entry ?cc, job_urlKey = ''http://h/a'',
    job_freshness = ex_freshness, job_ccReq = []\<rparr>"
  define merged where "merged = ex_response ?cc\<lparr>resp_Body := []\<rparr>"
  define e where "e = ex_entry ?cc\<lparr>ent_Data := merged\<rparr>"
  have j: "job_req job = ?req" "job_stored job = ex_entry ?cc" "job_urlKey job = ''http://h/a''"
    by (simp_all add: job_def)
  have clk: "e_clk ?env (w_tick ex_empty) = 100 * second" "e_clk ?env (Suc (w_tick ex_empty)) = 101 * second"
    by (simp_all add: ex_env_def ex_empty_def start_world_def)
  have d: "resp_Header (dated_response ?env ex_empty ?resp) = ex_header ?cc"
    using arg_cong [OF ex_dated [of ?cc "Inr ?resp"], of resp_Header] by (simp add: dated_response_def)
  have m: "merged = mergeResponseHeaders (ent_Data (rest_of_body 4 (job_stored job)))
      (resp_Header (dated_response ?env ex_empty ?resp))"
    using arg_cong [OF ex_merge [of ?cc], of resp_Header]
    by (simp add: d j rest_of_body_def merged_def mergeResponseHeaders_def)
  have rm: "removeHopByHopHeaders merged = merged"
    using arg_cong [OF ex_remove [of ?cc], of resp_Header] by (simp add: merged_def removeHopByHopHeaders_def)
  then have v: "response_vary merged = []"
    by (simp add: response_vary_def) (simp add: merged_def ex_header_get)
  then have v2: "response_variant lib q merged = []" for lib q
    by (simp add: response_variant_def vary_resolved_def normalizedVaryHeader_def TrimmedCSVCanonical_def TrimmedCSV_def)
  have e: "e = new_entry (e_lib ?env) (job_req job) merged (job_urlKey job) (e_clk ?env (w_tick ex_empty))
      (e_clk ?env (Suc (w_tick ex_empty)))"
    unfolding clk j by (simp add: new_entry_def v2 rm e_def) (simp add: ex_entry_def)
  have "DateHeader ex_lib e = 100 * second"
    by (simp add: DateHeader_def RawTime_Value_def e_def merged_def ex_header_get) (simp add: ex_lib_def)
  then have r: "ex_ref ex_id = new_ref (e_lib ?env) (job_req job) merged (job_urlKey job) (e_clk ?env (w_tick ex_empty))
      (e_clk ?env (Suc (w_tick ex_empty)))"
    unfolding new_ref_def e [symmetric] by (simp add: j v v2 ex_ref_def)
  from background_revalidation_forgets_variants [OF ex_conn TrueI _ _ _ m e r TrueI TrueI _ refl, of ?req]
    ex_storable_body [of ?cc ?req "[]"] ex_storable_refs [of ?cc] j
  show "\<exists>job w'. w' = backgroundRevalidate ?env ex_empty job False 4 \<and> job_stored job = ex_entry ?cc \<and>
      (\<exists>e. stored_entry (ex_codec ?cc) (mem_store (w_cache w')) ex_id ?req = Some e \<and> resp_Body (ent_Data e) = [])"
    by (intro exI [of _ job]) (auto simp: e_def merged_def)
next
  let ?resp = "\<lparr>resp_StatusCode = 304, resp_Header = ex_header ''max-age=60'', resp_Body = []\<rparr>"
  have m: "e_upstream ex_measured n req = Inr ?resp" "driver_conn (e_conn ex_measured) mem_store (\<lambda>_. True) (\<lambda>_. True)"
    "req_Method (job_req ex_measured_job) = ''GET''" "job_urlKey ex_measured_job = ''http://h/a''" for n req
    by (simp_all add: ex_measured_def ex_measured_job_def mem.driver_conn_axioms)
  have "storable_refs (e_codec ex_measured) [ex_ref ex_id]"
    using ex_storable_refs [of "''max-age=60''"] by (simp add: ex_measured_def storable_refs_def split: option.splits)
  with background_revalidation_forgets_variants [OF m(2) TrueI m(3,1) _ ex_measured_merged_def refl refl TrueI TrueI _ refl]
  show "\<exists>w'. w' = backgroundRevalidate ex_measured ex_empty ex_measured_job False 4 \<and>
     stored_refs (e_codec ex_measured) (mem_store (w_cache w')) ''http://h/a'' = [ex_ref ex_id] \<and>
     mem_store (w_cache w') ex_id = None"
    unfolding ex_measured_new by (simp add: m(4)) (simp add: ex_empty_def start_world_def memcache_Open_def)
qed

text \<open>
  A request with a bare max-stale is served the selected stored response as a HIT, however old it is
  and even when the response says must-revalidate: what \<open>round_trip_decision\<close> calls reusable.
\<close>

theorem max_stale_serves_stale:
  assumes "driver_conn (e_conn env) contents invar good" and "invar (w_cache w)"
    and "Normalize (e_lib env) (req_URL req) = Some k" and "isRequestMethodUnderstood req"
    and "reads_good good (e_codec env) (contents (w_cache w)) k"
    and "selects (e_lib env) (e_codec env) (contents (w_cache w)) k req = Some (refs, i, e)"
    and "RoundTrip env w req = (out, w')"
    and "\<not> unqualified_no_cache (resp_cc (ent_Data e))"
    and "\<not> Req_NoCache (req_cc req)" and "Req_MaxAge (req_cc req) \<noteq> Some 0" and "Req_MinFresh (req_cc req) = None"
    and "Req_MaxStale (req_cc req) = Some []"
    and "sane_entry (e_lib env) (e_clk env (w_tick w)) e"
    and "entry_rfc_age (e_lib env) (e_clk env (w_tick w)) e < max_int64"
  shows "w_sent w' = w_sent w \<and>
    (\<exists>r. out = Responded r \<and> status_of r = ''HIT'' \<and> resp_Body r = resp_Body (ent_Data e))"
proof -
  have "max_stale (req_cc req) = max_int64" using assms(12) by (simp add: max_stale_def)
  then have "\<not> fr_IsStale (found_freshness env w req e)"
    using assms(10,11,14) entry_age_exact [of "e_lib env" "e_clk env" "w_tick w" e] assms(13)
    by (simp add: found_freshness_def CalculateFreshness_verdict stale_verdict_def less_max_iff_disj)
  then have "reusable env w req e" using assms(8,9) by (simp add: reusable_def may_serve_def)
  then show ?thesis using driver_conn.RoundTrip_hit(1) [OF assms(1) refl assms(2-7)] by auto
qed

theorem max_stale_serves_stale_witness:
  "\<exists>r w'. RoundTrip (ex_env ''max-age=1, must-revalidate'' (Inl ''down'')) (ex_stored ''max-age=1, must-revalidate'')
     (ex_request ''GET'' [(''Cache-Control'', [''max-stale''])]) = (Responded r, w') \<and> w_sent w' = [] \<and> status_of r = ''HIT''"
proof -
  let ?cc = "''max-age=1, must-revalidate''"
  let ?env = "ex_env ?cc (Inl ''down'')" and ?req = "ex_request ''GET'' [(''Cache-Control'', [''max-stale''])]"
  obtain out w' where rt: "RoundTrip ?env (ex_stored ?cc) ?req = (out, w')" by fastforce
  have sel: "selects (e_lib ?env) (e_codec ?env) (mem_store (w_cache (ex_stored ?cc))) ''http://h/a'' ?req
    = Some ([ex_ref ex_id], 0, ex_entry ?cc)" by (simp add: ex_selects)
  have "\<not> unqualified_no_cache (resp_cc (ex_response ?cc))" by code_simp
  with max_stale_serves_stale [OF ex_conn TrueI _ ex_max_stale(2) ex_reads_good sel rt _ ex_max_stale(3) _ ex_max_stale(5,1)]
    ex_max_stale(4) rt
  show ?thesis by (auto simp: ex_key ex_tick ex_age [simplified]) (simp add: ex_stored_def)
qed

lemma Header_Get_foldl_Del:
  "Header_Get (foldl Header_Del h fs) k =
     (if CanonicalHeaderKey k \<in> CanonicalHeaderKey ` set fs then [] else Header_Get h k)"
  by (induction fs arbitrary: h) (auto simp: Header_Get_Del)

text \<open>
  C15: A HIT carries every header of the stored response except the fields its qualified no-cache
  directive names, which are gone; the Age and cache status headers apart.
\<close>

theorem no_cache_fields_are_stripped:
  assumes "driver_conn (e_conn env) contents invar good" and "invar (w_cache w)"
    and "Normalize (e_lib env) (req_URL req) = Some k" and "isRequestMethodUnderstood req"
    and "reads_good good (e_codec env) (contents (w_cache w)) k"
    and "selects (e_lib env) (e_codec env) (contents (w_cache w)) k req = Some (refs, i, e)"
    and "reusable env w req e"
    and "RoundTrip env w req = (out, w')"
    and "CanonicalHeaderKey h \<notin> {''Age'', CacheStatusHeader, FromCacheHeader}"
  shows "\<exists>r. out = Responded r \<and> Header_Get (resp_Header r) h =
    (if CanonicalHeaderKey h \<in> CanonicalHeaderKey ` set (no_cache_fields (resp_cc (ent_Data e))) then []
     else Header_Get (resp_Header (ent_Data e)) h)"
proof -
  obtain w1 where w1: "w_tick w1 = w_tick w"
    and "RoundTrip env w req = handleCacheHit env w1 req e k refs i"
    by (rule driver_conn.RoundTrip_selects [OF assms(1) refl assms(2-5), unfolded assms(6) option.case prod.case])
  then have hit: "handleCacheHit env w1 req e k refs i = (out, w')" using assms(8) by (simp only:)
  have ms: "may_serve (fr_IsStale (found_freshness env w1 req e)) (req_cc req) (resp_cc (ent_Data e))"
    using assms(7) found_freshness_cong [OF w1] by (simp add: reusable_def)
  from hit show ?thesis
  proof (cases rule: handleCacheHit_cases)
    case (serve w2)
    then show ?thesis using assms(9)
      by (auto simp: serveFromCache_def Let_def case_prod_beta Header_Get_ApplyTo SetAgeHeader_def Header_Get_Set
          Header_Get_foldl_Del)
  qed (use ms in simp_all)
qed

lemma ex_qualified:
  "Resp_MaxAge (resp_cc (ex_response (''max-age=60, no-cache='' @ dquote # ''Date'' @ [dquote]))) = Some (60 * second)"
  "\<not> unqualified_no_cache (resp_cc (ex_response (''max-age=60, no-cache='' @ dquote # ''Date'' @ [dquote])))"
  "no_cache_fields (resp_cc (ex_response (''max-age=60, no-cache='' @ dquote # ''Date'' @ [dquote]))) = [''Date'']"
  "CanonicalHeaderKey ''Date'' = ''Date''"
  "CanonicalHeaderKey ''Date'' \<notin> {''Age'', CacheStatusHeader, FromCacheHeader}"
  by code_simp+

theorem no_cache_fields_are_stripped_witness:
  "\<exists>cc r w'. RoundTrip (ex_env cc (Inl ''down'')) (ex_stored cc) (ex_request ''GET'' []) = (Responded r, w') \<and>
     Header_Get (resp_Header (ent_Data (ex_entry cc))) ''Date'' = ''d100'' \<and> Header_Get (resp_Header r) ''Date'' = []"
proof -
  define cc where "cc = ''max-age=60, no-cache='' @ dquote # ''Date'' @ [dquote]"
  let ?env = "ex_env cc (Inl ''down'')" and ?req = "ex_request ''GET'' []"
  note q = ex_qualified [folded cc_def]
  obtain out w' where rt: "RoundTrip ?env (ex_stored cc) ?req = (out, w')" by fastforce
  have sel: "selects (e_lib ?env) (e_codec ?env) (mem_store (w_cache (ex_stored cc))) ''http://h/a'' ?req
    = Some ([ex_ref ex_id], 0, ex_entry cc)" by (simp add: ex_selects)
  have "\<not> fr_IsStale (found_freshness ?env (ex_stored cc) ?req (ex_entry cc))"
    unfolding found_freshness_def
    by (rule fresh_rfc) (use ex_lifetime [OF q(1)] in \<open>simp_all add: ex_tick ex_age [simplified] Req_MaxAge_def
      Req_MinFresh_def getDurationDirective_def\<close>)
  then have "reusable ?env (ex_stored cc) ?req (ex_entry cc)"
    using q(2) by (simp add: reusable_def may_serve_def Req_NoCache_def hasToken_def)
  from no_cache_fields_are_stripped [OF ex_conn TrueI _ ex_understood ex_reads_good sel this rt q(5)] rt q(3,4)
  show ?thesis by (intro exI [of _ cc]) (auto simp: ex_key ex_header_get)
qed

text \<open>
  C14: The Age header of what is served from the cache without asking. A HIT carries the seconds of
  its RFC 9111 current age at the moment it is served, which is the age when freshness was computed
  plus the time that passed on the clock since. Two cases differ from RFC 9111: a HIT for a request
  with max-age=0 (which only-if-cached lets through) counts from the lookup alone, and a STALE
  response inside the stale-while-revalidate window has the Age header it was stored with, or none.
  All of this as long as the stored Age header and every difference of times stay below 2^60
  nanoseconds and the clock does not run backwards in between.
\<close>

theorem hit_carries_current_age:
  assumes "driver_conn (e_conn env) contents invar good" and "invar (w_cache w)"
    and "Normalize (e_lib env) (req_URL req) = Some k" and "isRequestMethodUnderstood req"
    and "reads_good good (e_codec env) (contents (w_cache w)) k"
    and "selects (e_lib env) (e_codec env) (contents (w_cache w)) k req = Some (refs, i, e)"
    and "RoundTrip env w req = (out, w')" and "n = w_tick w"
    and "sane_entry (e_lib env) (e_clk env n) e"
    and "0 \<le> e_clk env (n + 2) - e_clk env (n + 1)" and "e_clk env (n + 2) - e_clk env (n + 1) \<le> 2 ^ 60"
  shows "(reusable env w req e \<and> Req_MaxAge (req_cc req) \<noteq> Some 0 \<longrightarrow>
      (\<exists>r. out = Responded r \<and> Header_Get (resp_Header r) ''Age'' =
        Itoa (dur_seconds_int (entry_rfc_age (e_lib env) (e_clk env n) e + (e_clk env (n + 2) - e_clk env (n + 1)))))) \<and>
    (reusable env w req e \<and> Req_MaxAge (req_cc req) = Some 0 \<and>
       0 \<le> e_clk env (n + 1) - e_clk env n \<and> e_clk env (n + 1) - e_clk env n \<le> 2 ^ 60 \<longrightarrow>
      (\<exists>r. out = Responded r \<and> Header_Get (resp_Header r) ''Age'' =
        Itoa (dur_seconds_int (e_clk env (n + 1) - e_clk env n)))) \<and>
    (\<not> reusable env w req e \<and> reusable_stale env w req e \<longrightarrow>
      (\<exists>r. out = Responded r \<and> Header_Get (resp_Header r) ''Age'' = Header_Get (resp_Header (ent_Data e)) ''Age''))"
proof -
  obtain w1 where w1: "w_tick w1 = w_tick w"
    and "RoundTrip env w req = handleCacheHit env w1 req e k refs i"
    by (rule driver_conn.RoundTrip_selects [OF assms(1) refl assms(2-5), unfolded assms(6) option.case prod.case])
  then have hit: "handleCacheHit env w1 req e k refs i = (out, w')" using assms(7) by (simp only:)
  let ?age = "\<lambda>r. Header_Get (resp_Header r) ''Age''"
  let ?f = "found_freshness env w1 req e" and ?t = "found_tick env w1 req e"
  have served: "\<exists>r. out = Responded r \<and> ?age r =
      Itoa (dur_seconds_int (max (dur_add (age_Value (fr_Age ?f)) (clock_since (e_clk env) ?t (age_Timestamp (fr_Age ?f)))) 0))"
    if "reusable env w req e"
  proof -
    have ms: "may_serve (fr_IsStale ?f) (req_cc req) (resp_cc (ent_Data e))"
      using that found_freshness_cong [OF w1] by (simp add: reusable_def)
    from hit show ?thesis
    proof (cases rule: handleCacheHit_cases)
      case (serve w2)
      then show ?thesis
        by (auto simp: serveFromCache_def Let_def case_prod_beta Header_Get_ApplyTo SetAgeHeader_def Header_Get_Set
            CacheStatusHeader_def FromCacheHeader_def)
    qed (use ms in simp_all)
  qed
  have "fr_Age ?f = entry_age (e_lib env) (e_clk env) n e \<and> ?t = n + 2" if "Req_MaxAge (req_cc req) \<noteq> Some 0"
    using that by (simp add: found_freshness_def found_tick_def CalculateFreshness_verdict w1 assms(8))
  moreover have "fr_Age ?f = \<lparr>age_Value = 0, age_Timestamp = e_clk env n\<rparr> \<and> ?t = n + 1" if "Req_MaxAge (req_cc req) = Some 0"
    using that by (simp add: found_freshness_def found_tick_def CalculateFreshness_def w1 assms(8))
  moreover have "clock_since (e_clk env) (n + 1) (e_clk env n) = e_clk env (n + 1) - e_clk env n"
    if "0 \<le> e_clk env (n + 1) - e_clk env n" "e_clk env (n + 1) - e_clk env n \<le> 2 ^ 60"
    using that by (simp add: clock_since_def time_sub_def)
  moreover have "?age (apply_status CacheStatusStale (ent_Data e)) = ?age (ent_Data e)"
    by (simp add: apply_status_def Header_Get_ApplyTo CacheStatusHeader_def FromCacheHeader_def)
  moreover note driver_conn.RoundTrip_hit(2) [OF assms(1) refl assms(2-7)]
  ultimately show ?thesis
    using served age_sum_exact [of "e_lib env" "e_clk env" n e, OF assms(9-11)] by (auto simp: dur_add_def)
qed

lemma ex_seconds: "Itoa (dur_seconds_int (3 * second)) = ''3''"
  by code_simp

theorem hit_carries_current_age_witness:
  "\<exists>r w'. RoundTrip (ex_env ''max-age=60'' (Inl ''down'')) (ex_stored ''max-age=60'') (ex_request ''GET'' [])
     = (Responded r, w') \<and> Header_Get (resp_Header r) ''Age'' = ''3''"
proof -
  let ?cc = "''max-age=60''"
  let ?env = "ex_env ?cc (Inl ''down'')" and ?req = "ex_request ''GET'' []"
  obtain out w' where rt: "RoundTrip ?env (ex_stored ?cc) ?req = (out, w')" by fastforce
  have sel: "selects (e_lib ?env) (e_codec ?env) (mem_store (w_cache (ex_stored ?cc))) ''http://h/a'' ?req
    = Some ([ex_ref ex_id], 0, ex_entry ?cc)" by (simp add: ex_selects)
  have n: "2 = w_tick (ex_stored ?cc)" by (simp add: ex_stored_def)
  have clk: "e_clk ?env 2 = 102 * second" "e_clk ?env (2 + 2) - e_clk ?env (2 + 1) = second" by (simp_all add: ex_env_def)
  have le: "e_clk ?env 3 \<le> e_clk ?env 4" "e_clk ?env 4 - e_clk ?env 3 \<le> 1152921504606846976" by (simp_all add: ex_env_def)
  have ma: "Req_MaxAge (req_cc ?req) \<noteq> Some 0" by (simp add: Req_MaxAge_def getDurationDirective_def)
  have sane: "sane_entry (e_lib ?env) (e_clk ?env 2) (ex_entry ?cc)" using ex_age(2) [of ?cc] by (simp only: clk ex_env_simps)
  have "Header_Get h ''Age'' = Itoa (dur_seconds_int (entry_rfc_age (e_lib ?env) (e_clk ?env 2) (ex_entry ?cc) +
      (e_clk ?env (2 + 2) - e_clk ?env (2 + 1)))) \<longleftrightarrow> Header_Get h ''Age'' = ''3''" for h
    unfolding clk ex_env_simps ex_age(1) using ex_seconds by simp
  with hit_carries_current_age [OF ex_conn TrueI _ ex_understood ex_reads_good sel rt n sane] ex_reusable ma
  show ?thesis using rt by (auto simp: ex_key le)
qed

end
